(* ===== verification/Prelude.thy ===== *)
theory Prelude
  imports Main "HOL-Library.Word"
begin

text \<open>
  What every component shares: the names of the machine types, the conversions between a C
  \<open>int\<close> (an \<open>int\<close> of HOL in the range of 32 bits) and the 32 bit words that travel over
  the sockets, the little-endian packing of characters into words that \<open>memcpy\<close> performs on
  \<open>struct reqresp\<close>, C strings, the collections of simplification rules of the development,
  and two interfaces used by several components: an operation that keeps an invariant, and a
  table searched from its first entry.
\<close>

named_theorems daemon_frame \<open>fields of the state an operation does not touch\<close>
named_theorems wf_intros \<open>an operation keeps a well-formedness invariant\<close>
named_theorems inv_intros \<open>an operation keeps an invariant that relates it to an earlier state\<close>

section \<open>Machine integers\<close>

type_synonym u8 = "8 word"
type_synonym u16 = "16 word"
type_synonym u32 = "32 word"

text \<open>
  \<open>cint\<close> is the set of values of a C \<open>int\<close>; \<open>int32\<close> is the two's complement
  result an addition, subtraction or negation of \<open>int\<close>s has on the supported machines.
  \<open>w32\<close> stores an \<open>int\<close> in a word, \<open>sint\<close> (of the Word library) reads it back.
\<close>

definition cint :: "int \<Rightarrow> bool" where
  "cint i \<longleftrightarrow> -(2 ^ 31) \<le> i \<and> i < 2 ^ 31"

definition w32 :: "int \<Rightarrow> u32" where
  "w32 i = word_of_int i"

definition int32 :: "int \<Rightarrow> int" where
  "int32 i = sint (w32 i)"

definition int16 :: "int \<Rightarrow> int" where
  "int16 i = sint (word_of_int i :: u16)"

lemma w32_sint [simp]: "w32 (sint w) = w"
  by (simp add: w32_def)

lemma sint_w32: "cint i \<Longrightarrow> sint (w32 i) = i"
  by (simp add: cint_def w32_def int_word_sint mod_pos_pos_trivial)

lemma cint_sint [simp, intro]: "cint (sint (w :: u32))"
  using sint_range_size [of w] by (simp add: cint_def word_size)

lemma int32_id [simp]: "cint i \<Longrightarrow> int32 i = i"
  by (simp add: int32_def sint_w32)

lemma cint_int32 [simp, intro]: "cint (int32 i)"
  by (simp add: int32_def)

lemma int16_id: "-(2 ^ 15) \<le> i \<Longrightarrow> i < 2 ^ 15 \<Longrightarrow> int16 i = i"
  by (simp add: int16_def int_word_sint mod_pos_pos_trivial)

lemma int16_range: "-(2 ^ 15) \<le> int16 i \<and> int16 i < 2 ^ 15"
  using sint_range_size [of "word_of_int i :: u16"] by (simp add: int16_def word_size)

lemma cint_int16 [simp, intro]: "cint (int16 i)"
  using int16_range [of i] by (simp add: cint_def)

lemma cint_neg: "cint i \<Longrightarrow> i \<noteq> -(2 ^ 31) \<Longrightarrow> cint (- i)"
  by (simp add: cint_def)

section \<open>Characters, C strings and the packing of characters into words\<close>

abbreviation NUL :: char where
  "NUL \<equiv> CHR 0x00"

definition byte :: "char \<Rightarrow> nat" where
  "byte c = of_char c"

definition cstr :: "char list \<Rightarrow> string" where
  \<comment> \<open>what a C string function sees of a buffer: everything before the first NUL\<close>
  "cstr cs = takeWhile (\<lambda>c. c \<noteq> NUL) cs"

lemma byte_less [simp]: "byte c < 256"
  by (simp add: byte_def of_char_def)

lemma char_of_byte [simp]: "char_of (byte c) = c"
  by (simp add: byte_def)

lemma cstr_no_nul: "NUL \<notin> set cs \<Longrightarrow> cstr cs = cs"
  unfolding cstr_def by (auto simp: takeWhile_eq_all_conv)

lemma cstr_append_nul: "NUL \<notin> set cs \<Longrightarrow> cstr (cs @ NUL # ds) = cs"
  unfolding cstr_def by (induction cs) auto

lemma cstr_Cons: "cstr (c # cs) = (if c = NUL then [] else c # cstr cs)"
  by (simp add: cstr_def)

lemma nul_notin_cstr [simp]: "NUL \<notin> set (cstr cs)"
  unfolding cstr_def by (auto dest: set_takeWhileD)

definition le_word :: "char list \<Rightarrow> u32" where
  "le_word cs = of_nat (byte (cs ! 0) + 256 * byte (cs ! 1) + 65536 * byte (cs ! 2)
     + 16777216 * byte (cs ! 3))"

definition le_chars :: "u32 \<Rightarrow> char list" where
  "le_chars w = (let n = unat w in
     [char_of (n mod 256), char_of (n div 256 mod 256),
      char_of (n div 65536 mod 256), char_of (n div 16777216 mod 256)])"

lemma length_le_chars [simp]: "length (le_chars w) = 4"
  by (simp add: le_chars_def Let_def)

lemma byte_divmod: "a < (256 :: nat) \<Longrightarrow> (a + 256 * m) mod 256 = a \<and> (a + 256 * m) div 256 = m"
  by auto

lemma le_chars_word:
  assumes "length cs = 4"
  shows "le_chars (le_word cs) = cs"
proof -
  obtain a b c d where cs: "cs = [a, b, c, d]"
    using assms by (auto simp: numeral_eq_Suc length_Suc_conv)
  let ?n = "byte a + 256 * (byte b + 256 * (byte c + 256 * byte d))"
  have le: "byte x + 256 * m < 256 * k" if "m < k" for x m k
    using that byte_less [of x] by linarith
  have "?n < 256 * (256 * (256 * 256))"
    by (intro le) simp
  moreover have "le_word cs = of_nat ?n"
    by (simp add: le_word_def cs)
  ultimately have n: "unat (le_word cs) = ?n"
    by (simp add: unat_of_nat del: of_nat_add of_nat_mult)
  have div: "k div 65536 = k div 256 div 256" "k div 16777216 = k div 256 div 256 div 256" for k :: nat
    by (simp_all add: div_mult2_eq [symmetric])
  show ?thesis
    unfolding le_chars_def n Let_def div
    by (simp only: cs byte_divmod byte_less char_of_byte mod_less)
qed

section \<open>An operation that keeps an invariant\<close>

locale step_invariant =
  fixes step :: "'e \<Rightarrow> 's \<Rightarrow> 's"
    and inv :: "'s \<Rightarrow> bool"
  assumes step_inv: "inv s \<Longrightarrow> inv (step e s)"
begin

lemma run_inv: "inv s \<Longrightarrow> inv (fold step es s)"
  by (induction es arbitrary: s) (auto intro: step_inv)

lemma run_inv_prefix: "inv s \<Longrightarrow> inv (fold step (take n es) s)"
  by (rule run_inv)

end

text \<open>
  The same for events of which only some are admissible; an unguarded invariant is the case in
  which all are.
\<close>

locale guarded_invariant =
  fixes step :: "'e \<Rightarrow> 's \<Rightarrow> 's"
    and ok :: "'e \<Rightarrow> bool"
    and inv :: "'s \<Rightarrow> bool"
  assumes guarded_inv: "ok e \<Longrightarrow> inv s \<Longrightarrow> inv (step e s)"
begin

lemma run_guarded: "list_all ok es \<Longrightarrow> inv s \<Longrightarrow> inv (fold step es s)"
  by (induction es arbitrary: s) (auto intro: guarded_inv)

end

sublocale step_invariant \<subseteq> every: guarded_invariant step "\<lambda>_. True" inv
  by unfold_locales (rule step_inv)

section \<open>A table searched from its first entry\<close>

text \<open>
  Several tables of the program (key symbols, button actions, USB identifiers) are arrays that
  end in a terminator entry and are searched by a \<open>for\<close> loop that returns at the first match.
  The list holds the entries before the terminator.
\<close>

fun search :: "('a \<Rightarrow> bool) \<Rightarrow> 'a list \<Rightarrow> 'a option" where
  "search p [] = None"
| "search p (x # xs) = (if p x then Some x else search p xs)"

lemma search_SomeD: "search p xs = Some x \<Longrightarrow> p x \<and> x \<in> set xs"
  by (induction xs) (auto split: if_splits)

lemma search_None_iff: "search p xs = None \<longleftrightarrow> (\<forall>x \<in> set xs. \<not> p x)"
  by (induction xs) auto

lemma search_key_distinct:
  "distinct (map key xs) \<Longrightarrow> x \<in> set xs \<Longrightarrow> key x = k \<Longrightarrow> search (\<lambda>y. key y = k) xs = Some x"
  by (induction xs) (auto simp: image_iff)

locale first_match =
  fixes table :: "'e list"
    and key :: "'e \<Rightarrow> 'k"
    and find :: "'k \<Rightarrow> 'e option"
  assumes find_search: "find k = search (\<lambda>e. key e = k) table"
    and keys_distinct: "distinct (map key table)"
begin

lemma find_entry: "e \<in> set table \<Longrightarrow> find (key e) = Some e"
  unfolding find_search by (rule search_key_distinct [OF keys_distinct _ refl])

lemma find_key: "find k = Some e \<Longrightarrow> key e = k \<and> e \<in> set table"
  by (auto simp: find_search dest: search_SomeD)

lemma find_none: "find k = None \<longleftrightarrow> k \<notin> key ` set table"
  by (auto simp: find_search search_None_iff)

lemma find_inj: "find k = Some e \<Longrightarrow> find l = Some e \<Longrightarrow> k = l"
  by (auto dest: find_key)

end

end
