(* ===== verification/Float32.thy ===== *)
theory Float32
  imports Prelude
begin

text \<open>
  The C type \<open>float\<close> as the program uses it: an IEEE 754 single precision value is the word
  that holds its bits, because the program itself reinterprets floats as the \<open>int32_t\<close> items of a
  request (\<open>*(float*)req->data\<close>). A finite value is \<open>man * 2 ^ expo\<close> with an integer
  significand. Operations compute exactly on integers and round once, to nearest with ties to
  even, as the SSE instructions of the build do; a conversion to \<open>int\<close> truncates, and yields the
  integer indefinite value where the result does not fit.
\<close>

unbundle bit_operations_syntax

type_synonym f32 = u32

section \<open>The fields of a float\<close>

definition f32_sign :: "f32 \<Rightarrow> bool" where
  "f32_sign w \<longleftrightarrow> 2 ^ 31 \<le> uint w"

definition f32_mag :: "f32 \<Rightarrow> int" where
  "f32_mag w = uint w mod 2 ^ 31"

definition f32_exp :: "f32 \<Rightarrow> int" where
  "f32_exp w = f32_mag w div 2 ^ 23"

definition f32_frac :: "f32 \<Rightarrow> int" where
  "f32_frac w = f32_mag w mod 2 ^ 23"

definition isfinite :: "f32 \<Rightarrow> bool" where
  "isfinite w \<longleftrightarrow> f32_exp w \<noteq> 255"

definition isnan :: "f32 \<Rightarrow> bool" where
  "isnan w \<longleftrightarrow> f32_exp w = 255 \<and> f32_frac w \<noteq> 0"

definition f32_man :: "f32 \<Rightarrow> int" where
  "f32_man w = (if f32_exp w = 0 then f32_frac w else f32_frac w + 2 ^ 23)"

definition f32_expo :: "f32 \<Rightarrow> int" where
  "f32_expo w = (if f32_exp w = 0 then - 149 else f32_exp w - 150)"

section \<open>Rounding\<close>

function nbits :: "int \<Rightarrow> int" where
  "nbits n = (if n \<le> 0 then 0 else 1 + nbits (n div 2))"
  by pat_completeness auto
termination
  by (relation "measure nat") auto

declare nbits.simps [simp del]

definition round_even :: "int \<Rightarrow> nat \<Rightarrow> int" where
  \<comment> \<open>\<open>m / 2 ^ d\<close> to the nearest integer, ties to the even one\<close>
  "round_even m d =
     (let q = m div 2 ^ d; r = m mod 2 ^ d in
      if 2 ^ d < 2 * r \<or> (2 * r = 2 ^ d \<and> q mod 2 = 1) then q + 1 else q)"

definition f32_pack :: "bool \<Rightarrow> int \<Rightarrow> f32" where
  \<comment> \<open>magnitudes from the infinity's up are the infinity\<close>
  "f32_pack s n = word_of_int ((if s then 2 ^ 31 else 0) + min n (255 * 2 ^ 23))"

definition f32_round :: "bool \<Rightarrow> int \<Rightarrow> int \<Rightarrow> f32" where
  \<comment> \<open>the float nearest to \<open>m * 2 ^ x\<close> (for \<open>0 \<le> m\<close>), with sign \<open>s\<close>\<close>
  "f32_round s m x =
     (if m = 0 then f32_pack s 0
      else
        let q = max (x + nbits m - 24) (- 149);
            r = (if q \<le> x then m * 2 ^ nat (x - q) else round_even m (nat (q - x)))
        in f32_pack s ((q + 149) * 2 ^ 23 + r))"

section \<open>The operations the program uses\<close>

definition f32_of_int :: "int \<Rightarrow> f32" where
  "f32_of_int i = f32_round (i < 0) \<bar>i\<bar> 0"

definition f32_mul :: "f32 \<Rightarrow> f32 \<Rightarrow> f32" where
  "f32_mul a b =
     (if isnan a then a OR 0x400000
      else if isnan b then b OR 0x400000
      else if \<not> isfinite a \<or> \<not> isfinite b then
        (if f32_mag a = 0 \<or> f32_mag b = 0 then 0xffc00000
         else f32_pack (f32_sign a \<noteq> f32_sign b) (255 * 2 ^ 23))
      else f32_round (f32_sign a \<noteq> f32_sign b) (f32_man a * f32_man b) (f32_expo a + f32_expo b))"

definition f32_to_int :: "f32 \<Rightarrow> int" where
  "f32_to_int w =
     (if \<not> isfinite w then - (2 ^ 31)
      else
        let m = f32_man w; x = f32_expo w;
            t = (if 0 \<le> x then m * 2 ^ nat x else m div 2 ^ nat (- x));
            v = (if f32_sign w then - t else t)
        in if cint v then v else - (2 ^ 31))"

definition f32_eq :: "f32 \<Rightarrow> f32 \<Rightarrow> bool" where
  \<comment> \<open>the operator \<open>==\<close>: the zeros are equal, a NaN is equal to nothing\<close>
  "f32_eq a b \<longleftrightarrow> \<not> isnan a \<and> \<not> isnan b \<and> (a = b \<or> (f32_mag a = 0 \<and> f32_mag b = 0))"

definition one_f32 :: f32 where "one_f32 = 0x3f800000"
definition zero_f32 :: f32 where "zero_f32 = 0"
definition f32_1_1 :: f32 where "f32_1_1 = 0x3f8ccccd" \<comment> \<open>\<open>1.1f\<close>\<close>
definition f32_0_9 :: f32 where "f32_0_9 = 0x3f666666" \<comment> \<open>\<open>0.9f\<close>\<close>

section \<open>Facts about rounding\<close>

lemma nbits_bounds: "0 < m \<Longrightarrow> 1 \<le> nbits m \<and> 2 ^ nat (nbits m - 1) \<le> m \<and> m < 2 ^ nat (nbits m)"
proof (induction m rule: nbits.induct)
  case (1 m)
  show ?case
  proof (cases "m = 1")
    case True
    then show ?thesis by (simp add: nbits.simps [of 1] nbits.simps [of 0])
  next
    case False
    with "1.prems" have h: "0 < m div 2" by simp
    with "1.IH" "1.prems" have IH: "1 \<le> nbits (m div 2)" "2 ^ nat (nbits (m div 2) - 1) \<le> m div 2"
      "m div 2 < 2 ^ nat (nbits (m div 2))" by auto
    have n: "nbits m = 1 + nbits (m div 2)"
      using "1.prems" by (simp add: nbits.simps [of m])
    obtain k where k: "nbits (m div 2) = int (Suc k)"
      using IH(1) by (metis Suc_pred nat_0_le of_nat_0_less_iff zero_less_one order_less_le_trans
        zero_le_one order_trans int_nat_eq nat_eq_iff2)
    have "2 * p \<le> m \<and> m < 4 * p" if "p \<le> m div 2" "m div 2 < 2 * p" for p
      using that by presburger
    with IH(2,3) show ?thesis unfolding n k by (simp add: nat_add_distrib)
  qed
qed

lemma nbits_unique: "2 ^ k \<le> m \<Longrightarrow> m < 2 ^ Suc k \<Longrightarrow> nbits m = int (Suc k)"
proof (induction k arbitrary: m)
  case 0
  then have "m = 1" by simp
  then show ?case by (simp add: nbits.simps [of 1] nbits.simps [of 0])
next
  case (Suc k)
  have "nbits (m div 2) = int (Suc k)"
    by (rule Suc.IH) (use Suc.prems in auto)
  moreover have "0 < m" using Suc.prems(1) by (smt (verit) zero_less_power)
  ultimately show ?case by (simp add: nbits.simps [of m])
qed

lemma nbits_pos [simp]: "0 < m \<Longrightarrow> 1 \<le> nbits m"
  using nbits_bounds by blast

lemma nbits_scale: "0 < m \<Longrightarrow> nbits (m * 2 ^ k) = nbits m + int k"
proof (induction k)
  case (Suc k)
  then have "0 < m * 2 ^ k" by simp
  then have "nbits (m * 2 ^ k * 2) = 1 + nbits (m * 2 ^ k)"
    by (subst nbits.simps) simp
  with Suc show ?case by (simp add: mult.assoc mult.commute [of 2])
qed simp

lemma round_even_exact [simp]: "round_even (m * 2 ^ d) d = m"
  by (simp add: round_even_def)

lemma round_even_scale: "round_even (m * 2 ^ k) (d + k) = round_even m d"
proof -
  have "m * 2 ^ k div 2 ^ (d + k) = m div 2 ^ d"
    by (simp add: power_add)
  moreover have "m * 2 ^ k mod 2 ^ (d + k) = (m mod 2 ^ d) * 2 ^ k"
    by (simp add: power_add mult_mod_left)
  moreover have "(2 ^ (d + k) < 2 * (r * 2 ^ k)) = (2 ^ d < 2 * r)"
    "(2 * (r * 2 ^ k) = 2 ^ (d + k)) = (2 * r = 2 ^ d)" for r :: int
    by (simp_all add: power_add flip: mult.assoc)
  ultimately show ?thesis by (simp add: round_even_def Let_def)
qed

lemma f32_round_scale:
  assumes "0 \<le> m"
  shows "f32_round s (m * 2 ^ k) x = f32_round s m (x + int k)"
proof (cases "m = 0")
  case False
  with assms have n: "nbits (m * 2 ^ k) = nbits m + int k" by (simp add: nbits_scale)
  define q where "q = max (x + int k + nbits m - 24) (- 149)"
  consider "q \<le> x" | "x < q" "q \<le> x + int k" | "x + int k < q" by linarith
  then have "(if q \<le> x then m * 2 ^ k * 2 ^ nat (x - q) else round_even (m * 2 ^ k) (nat (q - x)))
    = (if q \<le> x + int k then m * 2 ^ nat (x + int k - q) else round_even m (nat (q - (x + int k))))"
  proof cases
    case 1
    then have "nat (x + int k - q) = k + nat (x - q)" by simp
    with 1 show ?thesis by (simp add: power_add mult.assoc)
  next
    case 2
    define d where "d = nat (q - x)"
    have k: "k = nat (x + int k - q) + d" using 2 by (simp add: d_def)
    have "m * 2 ^ k = m * 2 ^ nat (x + int k - q) * 2 ^ d"
      by (subst k) (simp add: power_add mult.assoc)
    then have "round_even (m * 2 ^ k) d = m * 2 ^ nat (x + int k - q)"
      by (simp only: round_even_exact)
    with 2 show ?thesis by (simp add: d_def)
  next
    case 3
    then have "nat (q - x) = nat (q - (x + int k)) + k" by simp
    with 3 show ?thesis by (simp add: round_even_scale)
  qed
  moreover have "max (x + nbits (m * 2 ^ k) - 24) (- 149) = q"
    "max (x + int k + nbits m - 24) (- 149) = q"
    by (simp_all add: q_def n add.commute add.left_commute)
  moreover have "m * 2 ^ k \<noteq> 0" using False by simp
  ultimately show ?thesis
    using False unfolding f32_round_def Let_def by (simp only: if_False)
qed (simp add: f32_round_def)

section \<open>Decoding what was packed, and packing what was decoded\<close>

lemma f32_mag_range: "0 \<le> f32_mag w \<and> f32_mag w < 2 ^ 31"
  by (simp add: f32_mag_def)

lemma f32_frac_range: "0 \<le> f32_frac w \<and> f32_frac w < 2 ^ 23"
  by (simp add: f32_frac_def)

lemma f32_exp_range: "0 \<le> f32_exp w \<and> f32_exp w \<le> 255"
  using f32_mag_range [of w] by (auto simp: f32_exp_def)

lemma f32_man_nonneg [simp]: "0 \<le> f32_man w"
  using f32_frac_range [of w] by (simp add: f32_man_def)

lemma f32_mag_split: "f32_mag w = f32_exp w * 2 ^ 23 + f32_frac w"
  by (simp add: f32_exp_def f32_frac_def)

lemma uint_f32: "uint w = (if f32_sign w then 2 ^ 31 else 0) + f32_mag w"
proof -
  have u: "uint w < 2 ^ 32" "0 \<le> uint w" using uint_range_size [of w] by (simp_all add: word_size)
  show ?thesis
  proof (cases "2 ^ 31 \<le> uint w")
    case True
    have "uint w mod 2 ^ 31 = (uint w - 2 ^ 31) mod 2 ^ 31" by (rule minus_mod_self2 [symmetric])
    also have "\<dots> = uint w - 2 ^ 31" by (rule mod_pos_pos_trivial) (use True u in auto)
    finally show ?thesis using True by (simp add: f32_sign_def f32_mag_def)
  next
    case False
    with u have "uint w mod 2 ^ 31 = uint w" by (intro mod_pos_pos_trivial) auto
    with False show ?thesis by (simp add: f32_sign_def f32_mag_def)
  qed
qed

lemma f32_pack_mag: "isfinite w \<Longrightarrow> f32_pack (f32_sign w) (f32_mag w) = w"
proof -
  assume "isfinite w"
  then have "f32_exp w \<le> 254" using f32_exp_range [of w] by (auto simp: isfinite_def)
  then have "f32_mag w \<le> 255 * 2 ^ 23"
    using f32_frac_range [of w] by (simp add: f32_mag_split)
  then have "f32_pack (f32_sign w) (f32_mag w) = word_of_int (uint w)"
    by (simp add: f32_pack_def uint_f32)
  then show ?thesis by simp
qed

lemma f32_pack_decode:
  assumes "0 \<le> n" "n \<le> 255 * 2 ^ 23"
  shows "f32_mag (f32_pack s n) = n" "f32_sign (f32_pack s n) = s"
proof -
  have u: "uint (word_of_int v :: u32) = v" if "0 \<le> v" "v < 2 ^ 32" for v
    using that by (simp add: uint_word_of_int)
  have "min n (255 * 2 ^ 23) = n" using assms by simp
  then have "uint (f32_pack s n) = (if s then 2 ^ 31 else 0) + n"
    unfolding f32_pack_def using u [of "(if s then 2 ^ 31 else 0) + n"] assms by simp
  with assms show "f32_mag (f32_pack s n) = n" "f32_sign (f32_pack s n) = s"
    by (auto simp: f32_mag_def f32_sign_def)
qed

lemma f32_round_decode:
  assumes "isfinite w"
  shows "f32_round (f32_sign w) (f32_man w) (f32_expo w) = w"
proof (cases "f32_exp w = 0")
  case True
  then have mag: "f32_mag w = f32_frac w" by (simp add: f32_mag_split)
  have "nbits (f32_frac w) \<le> 24" if "f32_frac w \<noteq> 0"
  proof (rule ccontr)
    assume "\<not> ?thesis"
    then have "(2 :: int) ^ 23 \<le> 2 ^ nat (nbits (f32_frac w) - 1)" by (intro power_increasing) auto
    with nbits_bounds [of "f32_frac w"] f32_frac_range [of w] that show False by auto
  qed
  then have "f32_round (f32_sign w) (f32_man w) (f32_expo w) = f32_pack (f32_sign w) (f32_mag w)"
    using True by (cases "f32_frac w = 0") (simp_all add: f32_round_def f32_man_def f32_expo_def mag)
  then show ?thesis using f32_pack_mag [OF assms] by simp
next
  case False
  have n: "nbits (f32_frac w + 2 ^ 23) = 24"
    using nbits_unique [of 23 "f32_frac w + 2 ^ 23"] f32_frac_range [of w] by simp
  have "f32_exp w \<ge> 1" using False f32_exp_range [of w] by simp
  then have "f32_round (f32_sign w) (f32_man w) (f32_expo w) = f32_pack (f32_sign w) (f32_mag w)"
    using False f32_frac_range [of w] n
    by (simp add: f32_round_def f32_man_def f32_expo_def f32_mag_split max_def left_diff_distrib)
      (simp add: add.commute)
  then show ?thesis using f32_pack_mag [OF assms] by simp
qed

section \<open>Multiplying by one, and integers through a float\<close>

lemma one_f32_fields:
  "f32_sign one_f32 = False" "f32_man one_f32 = 2 ^ 23" "f32_expo one_f32 = - 23"
  "isfinite one_f32" "\<not> isnan one_f32"
  by (simp_all add: one_f32_def f32_sign_def f32_man_def f32_expo_def f32_exp_def f32_frac_def
      f32_mag_def isfinite_def isnan_def)

lemma isfinite_not_nan: "isfinite w \<Longrightarrow> \<not> isnan w"
  by (simp add: isfinite_def isnan_def)

lemma f32_mul_one_right [simp]: "isfinite w \<Longrightarrow> f32_mul w one_f32 = w"
  using f32_round_scale [of "f32_man w" "f32_sign w" 23 "f32_expo w - 23"]
  by (simp add: f32_mul_def isfinite_not_nan one_f32_fields f32_round_decode)

lemma f32_mul_comm: "isfinite a \<Longrightarrow> isfinite b \<Longrightarrow> f32_mul a b = f32_mul b a"
  by (cases "f32_sign a"; cases "f32_sign b")
    (simp_all add: f32_mul_def isfinite_not_nan mult.commute add.commute)

lemma f32_of_int_fields:
  assumes "i \<noteq> 0" "\<bar>i\<bar> < 2 ^ 24"
  defines "n \<equiv> nbits \<bar>i\<bar>"
  shows "f32_sign (f32_of_int i) = (i < 0)" "f32_exp (f32_of_int i) = n + 126"
    "f32_man (f32_of_int i) = \<bar>i\<bar> * 2 ^ nat (24 - n)" "f32_expo (f32_of_int i) = n - 24"
    "1 \<le> n" "n \<le> 24"
proof -
  have b: "1 \<le> n" "2 ^ nat (n - 1) \<le> \<bar>i\<bar>" "\<bar>i\<bar> < 2 ^ nat n"
    using nbits_bounds [of "\<bar>i\<bar>"] assms(1) by (simp_all add: n_def)
  have n24: "n \<le> 24"
  proof (rule ccontr)
    assume "\<not> ?thesis"
    then have "(2 :: int) ^ 24 \<le> 2 ^ nat (n - 1)" by (intro power_increasing) auto
    with b(2) assms(2) show False by simp
  qed
  define r where "r = \<bar>i\<bar> * 2 ^ nat (24 - n)"
  have "(2 :: int) ^ 23 = 2 ^ nat (n - 1) * 2 ^ nat (24 - n)"
    using b(1) n24 by (simp flip: power_add nat_add_distrib)
  also have "\<dots> \<le> r" unfolding r_def by (rule mult_right_mono) (use b(2) in auto)
  finally have lo: "2 ^ 23 \<le> r" .
  have "r < 2 ^ nat n * 2 ^ nat (24 - n)"
    unfolding r_def by (rule mult_strict_right_mono) (use b(3) in auto)
  also have "\<dots> = 2 ^ 24"
    using b(1) n24 by (simp flip: power_add nat_add_distrib)
  finally have hi: "r < 2 ^ 24" .
  let ?p = "(n + 125) * 2 ^ 23 + r"
  have w: "f32_of_int i = f32_pack (i < 0) ?p"
    using assms(1) b(1) n24
    by (simp add: f32_of_int_def f32_round_def Let_def r_def max_def add.commute flip: n_def)
  have p: "0 \<le> ?p" "?p \<le> 255 * 2 ^ 23" using b(1) n24 lo hi by simp_all
  show s: "f32_sign (f32_of_int i) = (i < 0)" unfolding w by (rule f32_pack_decode [OF p])
  have m: "f32_mag (f32_of_int i) = ?p" unfolding w by (rule f32_pack_decode [OF p])
  have "f32_mag (f32_of_int i) = (r - 2 ^ 23) + (n + 126) * 2 ^ 23" by (simp add: m)
  then show e: "f32_exp (f32_of_int i) = n + 126"
    using lo hi by (simp add: f32_exp_def)
  have "f32_frac (f32_of_int i) = r - 2 ^ 23"
    using f32_mag_split [of "f32_of_int i"] unfolding m e by simp
  with b(1) show "f32_man (f32_of_int i) = \<bar>i\<bar> * 2 ^ nat (24 - n)" "f32_expo (f32_of_int i) = n - 24"
    by (simp_all add: f32_man_def f32_expo_def e r_def)
  show "1 \<le> n" "n \<le> 24" by (fact b(1) n24)+
qed

lemma f32_of_int_0: "f32_of_int 0 = zero_f32"
  by (simp add: f32_of_int_def f32_round_def f32_pack_def zero_f32_def)

lemma f32_of_int_finite:
  assumes "\<bar>i\<bar> < 2 ^ 24"
  shows "isfinite (f32_of_int i)"
proof (cases "i = 0")
  case True
  then show ?thesis by (simp add: f32_of_int_0 zero_f32_def isfinite_def f32_exp_def f32_mag_def)
next
  case False
  from f32_of_int_fields [OF this assms] show ?thesis by (simp add: isfinite_def)
qed

lemma f32_to_of_int [simp]:
  assumes "\<bar>i\<bar> < 2 ^ 24"
  shows "f32_to_int (f32_of_int i) = i"
proof (cases "i = 0")
  case True
  then show ?thesis
    by (simp add: f32_of_int_0 zero_f32_def f32_to_int_def isfinite_def f32_exp_def f32_mag_def
        f32_man_def f32_frac_def f32_expo_def cint_def Let_def)
next
  case False
  note f = f32_of_int_fields [OF this assms]
  let ?n = "nbits \<bar>i\<bar>"
  have t: "(if 0 \<le> ?n - 24 then \<bar>i\<bar> * 2 ^ nat (24 - ?n) * 2 ^ nat (?n - 24)
    else \<bar>i\<bar> * 2 ^ nat (24 - ?n) div 2 ^ nat (- (?n - 24))) = \<bar>i\<bar>"
    using f(6) by (cases "?n = 24") simp_all
  have "cint i" using assms by (auto simp: cint_def)
  moreover have "(if i < 0 then - \<bar>i\<bar> else \<bar>i\<bar>) = i" by simp
  ultimately show ?thesis
    unfolding f32_to_int_def Let_def f(1,3,4) t
    using f32_of_int_finite [OF assms] by (simp only: if_True if_False not_True_eq_False)
qed

end
