(* ===== verification/CLib.thy ===== *)
theory CLib
  imports Float32
begin

text \<open>
  The functions of the C library with which the program reads and writes numbers and splits text,
  as the GNU library implements them on the machines it is built for (a \<open>long\<close> has 64 bits): reading
  with \<open>strtol\<close>, \<open>strtod\<close> and the conversions \<open>%d\<close> and \<open>%x\<close> of \<open>sscanf\<close>, writing with the conversions
  \<open>%d\<close>, \<open>%04x\<close> and \<open>%.3f\<close> of \<open>printf\<close>, the classification of characters in the C locale, \<open>strtok\<close> and
  \<open>fgets\<close>. A string is the list of the characters before its NUL; what a reading function has not
  consumed is returned as the rest. The payload of a NaN in parentheses is not modelled.
\<close>

section \<open>Characters\<close>

definition isspace :: "char \<Rightarrow> bool" where
  "isspace c \<longleftrightarrow> byte c \<in> {9, 10, 11, 12, 13, 32}"

definition digit_val :: "char \<Rightarrow> int" where
  \<comment> \<open>the value of a digit of a base up to 16; 99 for other characters\<close>
  "digit_val c =
     (let b = int (byte c) in
      if 48 \<le> b \<and> b \<le> 57 then b - 48
      else if 97 \<le> b \<and> b \<le> 102 then b - 87
      else if 65 \<le> b \<and> b \<le> 70 then b - 55
      else 99)"

definition is_digit :: "int \<Rightarrow> char \<Rightarrow> bool" where
  "is_digit b c \<longleftrightarrow> digit_val c < b"

definition num_of :: "int \<Rightarrow> string \<Rightarrow> int" where
  "num_of b ds = foldl (\<lambda>n c. n * b + digit_val c) 0 ds"

definition tolower :: "char \<Rightarrow> char" where
  "tolower c = (if 65 \<le> byte c \<and> byte c \<le> 90 then char_of (byte c + 32) else c)"

section \<open>Reading integers\<close>

definition scan_sign :: "string \<Rightarrow> bool \<times> string" where
  "scan_sign s =
     (case s of [] \<Rightarrow> (False, s)
      | c # cs \<Rightarrow> if c = CHR ''-'' then (True, cs) else if c = CHR ''+'' then (False, cs) else (False, s))"

definition clamp64 :: "int \<Rightarrow> int" where
  "clamp64 i = max (- (2 ^ 63)) (min (2 ^ 63 - 1) i)"

definition strtol :: "string \<Rightarrow> (int \<times> string) option" where
  \<comment> \<open>base 10; \<open>None\<close>: no conversion, the end pointer is the start\<close>
  "strtol s =
     (let (neg, s) = scan_sign (dropWhile isspace s);
          ds = takeWhile (is_digit 10) s in
      if ds = [] then None
      else Some (clamp64 (if neg then - num_of 10 ds else num_of 10 ds), dropWhile (is_digit 10) s))"

definition scan_d :: "string \<Rightarrow> int option" where
  \<comment> \<open>the conversion \<open>%d\<close>: \<open>strtol\<close>, stored in an \<open>int\<close>\<close>
  "scan_d s = map_option (\<lambda>(i, _). int32 i) (strtol s)"

definition scan_option :: "string \<Rightarrow> string \<Rightarrow> int option" where
  \<comment> \<open>\<open>sscanf(s, "name%d", ...) == 1\<close>\<close>
  "scan_option name s =
     (if take (length name) s = name then scan_d (drop (length name) s) else None)"

definition scan_x :: "string \<Rightarrow> (u32 \<times> string) option" where
  \<comment> \<open>the conversion \<open>%x\<close>: a prefix \<open>0x\<close> is optional and counts as the digit 0, the value is
    an \<open>unsigned long\<close> that is stored in an \<open>unsigned int\<close>\<close>
  "scan_x s =
     (let (neg, s) = scan_sign (dropWhile isspace s);
          prefix = take 1 s = ''0'' \<and> map tolower (take 2 s) = ''0x'';
          s' = (if prefix then drop 2 s else s);
          ds = takeWhile (is_digit 16) s';
          n = num_of 16 ds in
      if ds = [] \<and> \<not> prefix then None
      else Some (w32 (if 2 ^ 64 \<le> n then 2 ^ 64 - 1 else if neg then - n else n),
                 dropWhile (is_digit 16) s'))"

definition scan_x_x :: "string \<Rightarrow> (u32 \<times> u32) option" where
  \<comment> \<open>\<open>sscanf(s, "%x:%x", ...) == 2\<close>\<close>
  "scan_x_x s =
     (case scan_x s of
        Some (v, c # rest) \<Rightarrow>
          if c = CHR '':'' then map_option (\<lambda>(p, _). (v, p)) (scan_x rest) else None
      | _ \<Rightarrow> None)"

section \<open>Reading floating-point numbers\<close>

text \<open>
  A number is read as a fraction of two integers, rounded to the nearest \<open>double\<close> (which has 53
  bits and exponents from -1074), and then to the nearest \<open>float\<close>, as the assignment does.
\<close>

definition div_even :: "int \<Rightarrow> int \<Rightarrow> int" where
  \<comment> \<open>\<open>a / b\<close> to the nearest integer, ties to the even one\<close>
  "div_even a b =
     (let q = a div b; r = a mod b in
      if b < 2 * r \<or> (2 * r = b \<and> q mod 2 = 1) then q + 1 else q)"

definition scale2 :: "int \<Rightarrow> int \<Rightarrow> int \<times> int" where
  "scale2 m x = (if 0 \<le> x then (m * 2 ^ nat x, 1) else (m, 2 ^ nat (- x)))"

definition f64_quot :: "int \<Rightarrow> int \<Rightarrow> int \<times> int" where
  \<comment> \<open>the significand and exponent of the \<open>double\<close> nearest to \<open>p / q\<close>\<close>
  "f64_quot p q =
     (let e0 = nbits p - nbits q;
          (a, b) = scale2 q e0;
          e = (if a \<le> p * b then e0 else e0 - 1); \<comment> \<open>\<open>2 ^ e \<le> p / q < 2 ^ (e + 1)\<close>\<close>
          x = max (e - 52) (- 1074);
          (c, d) = scale2 q x in
      (div_even (p * d) c, x))"

definition f32_of_f64 :: "bool \<Rightarrow> int \<times> int \<Rightarrow> f32" where
  \<comment> \<open>doubles from \<open>2 ^ 1024\<close> up are infinite\<close>
  "f32_of_f64 s = (\<lambda>(m, x).
     if 971 < x \<or> (x = 971 \<and> 2 ^ 53 \<le> m) then f32_pack s (255 * 2 ^ 23) else f32_round s m x)"

definition f32_quot :: "bool \<Rightarrow> int \<Rightarrow> int \<Rightarrow> f32" where
  "f32_quot s p q = (if p = 0 then f32_pack s 0 else f32_of_f64 s (f64_quot p q))"

definition scan_frac :: "int \<Rightarrow> string \<Rightarrow> (string \<times> string) \<times> string" where
  \<comment> \<open>the digits before and after the point\<close>
  "scan_frac b s =
     (let ip = takeWhile (is_digit b) s; s = dropWhile (is_digit b) s in
      if take 1 s = ''.'' then
        ((ip, takeWhile (is_digit b) (drop 1 s)), dropWhile (is_digit b) (drop 1 s))
      else ((ip, []), s))"

definition scan_exp :: "char \<Rightarrow> string \<Rightarrow> int" where
  \<comment> \<open>the exponent after \<open>e\<close> or \<open>p\<close>; one without digits is not part of the number\<close>
  "scan_exp e s =
     (if map tolower (take 1 s) = [e] then
        let (neg, s) = scan_sign (drop 1 s); n = num_of 10 (takeWhile (is_digit 10) s) in
        if neg then - n else n
      else 0)"

definition strtof :: "string \<Rightarrow> f32 option" where
  \<comment> \<open>the value of \<open>strtod\<close> in a \<open>float\<close>; \<open>None\<close>: no conversion\<close>
  "strtof s =
     (let (neg, s) = scan_sign (dropWhile isspace s); l = map tolower s in
      if take 3 l = ''inf'' then Some (f32_pack neg (255 * 2 ^ 23))
      else if take 3 l = ''nan'' then Some (if neg then 0xffc00000 else 0x7fc00000)
      else
        let ((hi, hf), hrest) = scan_frac 16 (drop 2 s);
            ((di, df), drest) = scan_frac 10 s in
        if take 2 l = ''0x'' \<and> (hi \<noteq> [] \<or> hf \<noteq> []) then
          (let (p, q) = scale2 (num_of 16 (hi @ hf)) (scan_exp (CHR ''p'') hrest - 4 * int (length hf)) in
           Some (f32_quot neg p q))
        else if di = [] \<and> df = [] then None
        else
          let x = scan_exp (CHR ''e'') drest - int (length df); n = num_of 10 (di @ df) in
          Some (if 0 \<le> x then f32_quot neg (n * 10 ^ nat x) 1 else f32_quot neg n (10 ^ nat (- x))))"

section \<open>Writing numbers\<close>

definition digit_char :: "int \<Rightarrow> char" where
  "digit_char n = ''0123456789abcdef'' ! nat n"

function digits :: "int \<Rightarrow> int \<Rightarrow> string" where
  "digits b n =
     (if n < b \<or> b < 2 then [digit_char n] else digits b (n div b) @ [digit_char (n mod b)])"
  by pat_completeness auto
termination
proof (relation "measure (\<lambda>(b, n). nat n)", goal_cases)
  case (2 b n)
  then have "n div b < n" "0 \<le> n div b" by (simp_all add: int_div_less_self pos_imp_zdiv_nonneg_iff)
  then show ?case by simp
qed simp

declare digits.simps [simp del]

definition pad0 :: "nat \<Rightarrow> string \<Rightarrow> string" where
  "pad0 n s = replicate (n - length s) (CHR ''0'') @ s"

definition print_d :: "int \<Rightarrow> string" where
  \<comment> \<open>\<open>%d\<close>\<close>
  "print_d i = (if i < 0 then CHR ''-'' # digits 10 (- i) else digits 10 i)"

definition print_04x :: "u32 \<Rightarrow> string" where
  \<comment> \<open>\<open>%04x\<close>\<close>
  "print_04x w = pad0 4 (digits 16 (uint w))"

definition thousandths :: "f32 \<Rightarrow> int" where
  \<comment> \<open>the magnitude in thousandths, to the nearest integer\<close>
  "thousandths w = (let (p, q) = scale2 (f32_man w) (f32_expo w) in div_even (1000 * p) q)"

definition print_3f :: "f32 \<Rightarrow> string" where
  \<comment> \<open>\<open>%.3f\<close>\<close>
  "print_3f w =
     (let s = (if f32_sign w then ''-'' else []) in
      if isnan w then s @ ''nan''
      else if \<not> isfinite w then s @ ''inf''
      else let n = thousandths w in s @ digits 10 (n div 1000) @ ''.'' @ pad0 3 (digits 10 (n mod 1000)))"

section \<open>Splitting text\<close>

definition strtok :: "char set \<Rightarrow> string \<Rightarrow> (string \<times> string) option" where
  \<comment> \<open>the first token, and where the next call goes on\<close>
  "strtok delims s =
     (let s = dropWhile (\<lambda>c. c \<in> delims) s; t = takeWhile (\<lambda>c. c \<notin> delims) s in
      if s = [] then None else Some (t, drop (Suc (length t)) s))"

definition fgets :: "nat \<Rightarrow> string \<Rightarrow> (string \<times> string) option" where
  \<comment> \<open>a line with its newline, or what fits in the buffer; and the rest of the file\<close>
  "fgets sz s =
     (let l = takeWhile (\<lambda>c. c \<noteq> CHR 0x0a) s;
          t = take (sz - 1) (take (Suc (length l)) s) in
      if s = [] then None else Some (t, drop (length t) s))"

section \<open>Printing and reading are inverse\<close>

lemma digit_val_char: "0 \<le> n \<Longrightarrow> n < 16 \<Longrightarrow> digit_val (digit_char n) = n"
proof -
  assume n: "0 \<le> n" "n < 16"
  have "\<forall>k \<in> set [0..15]. digit_val (digit_char k) = k" by code_simp
  with n show ?thesis by simp
qed

lemma num_of_snoc [simp]: "num_of b (ds @ [c]) = num_of b ds * b + digit_val c"
  by (simp add: num_of_def)

lemma num_of_Nil [simp]: "num_of b [] = 0"
  by (simp add: num_of_def)

lemma num_of_single [simp]: "num_of b [c] = digit_val c"
  by (simp add: num_of_def)

lemma num_of_append: "num_of b (xs @ ys) = num_of b xs * b ^ length ys + num_of b ys"
proof (induction ys rule: rev_induct)
  case (snoc y ys)
  show ?case unfolding append_assoc [symmetric] num_of_snoc snoc.IH by (simp add: algebra_simps)
qed simp

lemma digits_num: "2 \<le> b \<Longrightarrow> b \<le> 16 \<Longrightarrow> 0 \<le> n \<Longrightarrow>
    num_of b (digits b n) = n \<and> digits b n \<noteq> [] \<and> list_all (is_digit b) (digits b n)"
proof (induction b n rule: digits.induct)
  case (1 b n)
  show ?case
  proof (cases "n < b")
    case True
    with 1 show ?thesis by (simp add: digits.simps [of b n] digit_val_char is_digit_def)
  next
    case False
    have m: "0 \<le> n mod b" "n mod b < b" using 1 by simp_all
    have "num_of b (digits b (n div b)) = n div b \<and> list_all (is_digit b) (digits b (n div b))"
      using False 1 by (simp add: pos_imp_zdiv_nonneg_iff)
    moreover have "digit_val (digit_char (n mod b)) = n mod b"
      using m 1(3) by (intro digit_val_char) linarith+
    moreover from this have "is_digit b (digit_char (n mod b))" using m by (simp add: is_digit_def)
    ultimately show ?thesis
      using False 1(2) by (simp add: digits.simps [of b n])
  qed
qed

lemma num_of_zeros: "num_of b (replicate k (CHR ''0'') @ ds) = num_of b ds"
proof -
  have "num_of b (replicate k (CHR ''0'')) = 0"
    by (induction k) (simp_all add: replicate_append_same [symmetric] digit_val_def byte_def)
  then show ?thesis by (simp add: num_of_append)
qed

lemma take_digits: "list_all (is_digit b) ds \<Longrightarrow> \<not> is_digit b c \<Longrightarrow>
    takeWhile (is_digit b) (ds @ c # rest) = ds \<and> dropWhile (is_digit b) (ds @ c # rest) = c # rest"
  by (induction ds) auto

lemma take_all_digits: "list_all (is_digit b) ds \<Longrightarrow>
    takeWhile (is_digit b) ds = ds \<and> dropWhile (is_digit b) ds = []"
  by (induction ds) auto

lemma digit_not_space: "is_digit b c \<Longrightarrow> b \<le> 16 \<Longrightarrow> \<not> isspace c \<and> c \<noteq> CHR ''-'' \<and> c \<noteq> CHR ''+''"
  by (auto simp: is_digit_def digit_val_def isspace_def byte_def Let_def split: if_splits)

lemma scan_sign_digits:
  assumes "list_all (is_digit b) ds" "ds \<noteq> []" "b \<le> 16"
  shows "dropWhile isspace (ds @ rest) = ds @ rest" "scan_sign (ds @ rest) = (False, ds @ rest)"
  using assms digit_not_space [of b "hd ds"] by (cases ds; simp add: scan_sign_def)+

lemma strtol_print:
  assumes "cint i" "rest = [] \<or> \<not> is_digit 10 (hd rest)"
  shows "strtol (print_d i @ rest) = Some (i, rest)"
proof -
  have c: "clamp64 i = i" using assms(1) by (simp add: clamp64_def cint_def)
  let ?ds = "digits 10 \<bar>i\<bar>"
  have ds: "num_of 10 ?ds = \<bar>i\<bar>" "?ds \<noteq> []" "list_all (is_digit 10) ?ds"
    using digits_num [of 10 "\<bar>i\<bar>"] by simp_all
  have span: "takeWhile (is_digit 10) (?ds @ rest) = ?ds" "dropWhile (is_digit 10) (?ds @ rest) = rest"
    using assms(2) take_digits [OF ds(3), of "hd rest" "tl rest"] take_all_digits [OF ds(3)]
    by (cases rest; simp)+
  have neg: "scan_sign (dropWhile isspace (CHR ''-'' # s)) = (True, s)" for s
    by (simp add: isspace_def byte_def scan_sign_def)
  show ?thesis
  proof (cases "i < 0")
    case True
    with span ds c neg [of "?ds @ rest"] show ?thesis
      by (simp add: strtol_def print_d_def)
  next
    case False
    with span ds c scan_sign_digits [OF ds(3,2), of rest] show ?thesis
      by (simp add: strtol_def print_d_def)
  qed
qed

lemma scan_d_print: "cint i \<Longrightarrow> scan_d (print_d i) = Some i"
  using strtol_print [of i "[]"] by (simp add: scan_d_def)

lemma scan_option_print: "cint i \<Longrightarrow> scan_option name (name @ print_d i) = Some i"
  by (simp add: scan_option_def scan_d_print)

end
