(* ===== verification/Config.thy ===== *)
theory Config
  imports Float32
begin

text \<open>
  \<open>struct cfg\<close> of src/cfgfile.h, its default values (\<open>default_cfg\<close>) and the table of button
  actions with its two translations (src/cfgfile.c). Arrays are lists of their declared length,
  the enumerations \<open>LED_*\<close> and \<open>BNACT_*\<close> are the integers the code stores and sends.
  \<open>cfg_wf\<close> is the invariant of the configuration: the lengths, and the ranges on which the
  array accesses of the event code rely.
\<close>

abbreviation (input) MAX_AXES :: nat where "MAX_AXES \<equiv> 64"
abbreviation (input) MAX_BUTTONS :: nat where "MAX_BUTTONS \<equiv> 64"
abbreviation (input) MAX_CUSTOM :: nat where "MAX_CUSTOM \<equiv> 64"
abbreviation (input) MAX_KEYS_PER_BUTTON :: nat where "MAX_KEYS_PER_BUTTON \<equiv> 8"
abbreviation (input) PATH_MAX :: nat where "PATH_MAX \<equiv> 4096" \<comment> \<open>linux/limits.h\<close>

abbreviation (input) LED_OFF :: int where "LED_OFF \<equiv> 0"
abbreviation (input) LED_ON :: int where "LED_ON \<equiv> 1"
abbreviation (input) LED_AUTO :: int where "LED_AUTO \<equiv> 2"

abbreviation (input) BNACT_NONE :: int where "BNACT_NONE \<equiv> 0"
abbreviation (input) BNACT_SENS_RESET :: int where "BNACT_SENS_RESET \<equiv> 1"
abbreviation (input) BNACT_SENS_INC :: int where "BNACT_SENS_INC \<equiv> 2"
abbreviation (input) BNACT_SENS_DEC :: int where "BNACT_SENS_DEC \<equiv> 3"
abbreviation (input) BNACT_DISABLE_ROTATION :: int where "BNACT_DISABLE_ROTATION \<equiv> 4"
abbreviation (input) BNACT_DISABLE_TRANSLATION :: int where "BNACT_DISABLE_TRANSLATION \<equiv> 5"
abbreviation (input) BNACT_DOMINANT_AXIS :: int where "BNACT_DOMINANT_AXIS \<equiv> 6"
abbreviation (input) MAX_BNACT :: int where "MAX_BNACT \<equiv> 7"

record cfg =
  sensitivity :: f32
  sens_trans :: "f32 list"
  sens_rot :: "f32 list"
  dead_threshold :: "int list"
  invert :: "int list"
  map_axis :: "int list"
  map_button :: "int list"
  map_hold :: "int list"
  hold_timeout :: int
  bnact :: "int list"
  kbmap :: "u32 list list"
  kbmap_count :: "int list"
  kbmap_str :: "string option list"
  swapyz :: int
  led :: int
  grab_device :: int
  serial_dev :: string
  repeat_msec :: int
  devname :: "string option list"
  devid :: "(int \<times> int) list"
  sockpath :: string
  kbemu_use_x11 :: int

definition default_cfg :: cfg where
  "default_cfg = \<lparr>
     sensitivity = one_f32,
     sens_trans = replicate 3 one_f32,
     sens_rot = replicate 3 one_f32,
     dead_threshold = replicate 6 2 @ replicate (MAX_AXES - 6) 0,
     invert = replicate MAX_AXES 0,
     map_axis = map int [0..<MAX_AXES],
     map_button = map int [0..<MAX_BUTTONS],
     map_hold = replicate MAX_BUTTONS (- 1),
     hold_timeout = 350,
     bnact = replicate MAX_BUTTONS BNACT_NONE,
     kbmap = replicate MAX_BUTTONS (replicate MAX_KEYS_PER_BUTTON 0),
     kbmap_count = replicate MAX_BUTTONS 0,
     kbmap_str = replicate MAX_BUTTONS None,
     swapyz = 0,
     led = LED_ON,
     grab_device = 1,
     serial_dev = [],
     repeat_msec = - 1,
     devname = replicate MAX_CUSTOM None,
     devid = replicate MAX_CUSTOM (- 1, - 1),
     sockpath = [],
     kbemu_use_x11 = 0 \<rparr>"

text \<open>\<open>AXIS_VALID\<close>, \<open>BN_VALID\<close> and \<open>BNACT_VALID\<close> of src/proto_unix.c.\<close>

definition axis_valid :: "int \<Rightarrow> bool" where
  "axis_valid x \<longleftrightarrow> 0 \<le> x \<and> x < int MAX_AXES"

definition bn_valid :: "int \<Rightarrow> bool" where
  "bn_valid x \<longleftrightarrow> 0 \<le> x \<and> x < int MAX_BUTTONS"

definition bnact_valid :: "int \<Rightarrow> bool" where
  "bnact_valid x \<longleftrightarrow> 0 \<le> x \<and> x < MAX_BNACT"

section \<open>Button actions by name\<close>

definition bnact_strtab :: "(string \<times> int) list" where
  "bnact_strtab =
     [(''none'', BNACT_NONE),
      (''sensitivity-up'', BNACT_SENS_INC),
      (''sensitivity-down'', BNACT_SENS_DEC),
      (''sensitivity-reset'', BNACT_SENS_RESET),
      (''disable-rotation'', BNACT_DISABLE_ROTATION),
      (''disable-translation'', BNACT_DISABLE_TRANSLATION),
      (''dominant-axis'', BNACT_DOMINANT_AXIS)]"

definition parse_bnact :: "string \<Rightarrow> int" where
  "parse_bnact s =
     (case search (\<lambda>e. fst e = s) bnact_strtab of Some e \<Rightarrow> snd e | None \<Rightarrow> - 1)"

definition bnact_name :: "int \<Rightarrow> string" where
  "bnact_name act =
     (case search (\<lambda>e. snd e = act) bnact_strtab of Some e \<Rightarrow> fst e | None \<Rightarrow> ''none'')"

text \<open>Both directions search the same table, and both of its columns are keys.\<close>

interpretation bnact_by_name: first_match bnact_strtab fst "\<lambda>s. search (\<lambda>e. fst e = s) bnact_strtab"
  by unfold_locales (simp_all add: bnact_strtab_def)

interpretation bnact_by_act: first_match bnact_strtab snd "\<lambda>a. search (\<lambda>e. snd e = a) bnact_strtab"
  by unfold_locales (simp_all add: bnact_strtab_def)

lemma bnact_strtab_acts: "bnact_valid act \<longleftrightarrow> act \<in> snd ` set bnact_strtab"
  by (auto simp: bnact_valid_def bnact_strtab_def)

section \<open>The configuration invariant\<close>

definition cfg_wf :: "cfg \<Rightarrow> bool" where
  "cfg_wf c \<longleftrightarrow>
     length (sens_trans c) = 3 \<and> length (sens_rot c) = 3 \<and>
     length (dead_threshold c) = MAX_AXES \<and> length (invert c) = MAX_AXES \<and>
     length (map_axis c) = MAX_AXES \<and> length (map_button c) = MAX_BUTTONS \<and>
     length (map_hold c) = MAX_BUTTONS \<and> length (bnact c) = MAX_BUTTONS \<and>
     length (kbmap c) = MAX_BUTTONS \<and> length (kbmap_count c) = MAX_BUTTONS \<and>
     length (kbmap_str c) = MAX_BUTTONS \<and>
     length (devname c) = MAX_CUSTOM \<and> length (devid c) = MAX_CUSTOM \<and>
     list_all bn_valid (map_button c) \<and>
     list_all (\<lambda>b. b = - 1 \<or> bn_valid b) (map_hold c) \<and>
     list_all bnact_valid (bnact c) \<and>
     list_all (\<lambda>ks. length ks = MAX_KEYS_PER_BUTTON) (kbmap c) \<and>
     list_all (\<lambda>n. 0 \<le> n \<and> n \<le> int MAX_KEYS_PER_BUTTON) (kbmap_count c) \<and>
     length (serial_dev c) < PATH_MAX \<and> length (sockpath c) < PATH_MAX"

lemma list_all_update: "list_all P xs \<Longrightarrow> P x \<Longrightarrow> list_all P (xs[i := x])"
  by (auto simp: list_all_iff dest: set_update_subset_insert [THEN subsetD])

lemma list_all_nth: "list_all P xs \<Longrightarrow> i < length xs \<Longrightarrow> P (xs ! i)"
  by (simp add: list_all_length)

text \<open>
  The configuration that \<open>default_cfg\<close> fills in satisfies the invariant: every
  table has its declared length and every mapping stays inside the table it indexes.
\<close>

theorem default_cfg_wf: "cfg_wf default_cfg"
  unfolding cfg_wf_def default_cfg_def
  by (auto simp: list_all_iff bn_valid_def bnact_valid_def)

text \<open>
  A button action survives being written to the configuration file by name and
  parsed back, and every name the parser accepts is the name written for its action.
\<close>

theorem bnact_roundtrip:
  "(bnact_valid act \<longrightarrow> parse_bnact (bnact_name act) = act) \<and>
   (parse_bnact s \<noteq> - 1 \<longrightarrow> bnact_valid (parse_bnact s) \<and> bnact_name (parse_bnact s) = s)"
proof (intro conjI impI)
  assume "bnact_valid act"
  then obtain e where e: "e \<in> set bnact_strtab" "snd e = act"
    by (auto simp: bnact_strtab_acts)
  from bnact_by_act.find_entry [OF e(1)] bnact_by_name.find_entry [OF e(1)] e(2)
  show "parse_bnact (bnact_name act) = act"
    by (simp add: parse_bnact_def bnact_name_def)
next
  assume "parse_bnact s \<noteq> - 1"
  then obtain e where e: "search (\<lambda>e. fst e = s) bnact_strtab = Some e"
    by (auto simp: parse_bnact_def split: option.splits)
  note k = bnact_by_name.find_key [OF e]
  from e k show "bnact_valid (parse_bnact s)" by (auto simp: parse_bnact_def bnact_strtab_acts)
  from e k bnact_by_act.find_entry [of e] show "bnact_name (parse_bnact s) = s"
    by (simp add: parse_bnact_def bnact_name_def)
qed

theorem bnact_roundtrip_witness:
  "parse_bnact (bnact_name BNACT_DOMINANT_AXIS) = BNACT_DOMINANT_AXIS \<and>
   bnact_name (parse_bnact ''sensitivity-up'') = ''sensitivity-up''"
proof -
  have "bnact_valid BNACT_DOMINANT_AXIS" by (simp add: bnact_valid_def)
  moreover have "parse_bnact ''sensitivity-up'' \<noteq> - 1"
    by (simp add: parse_bnact_def bnact_strtab_def)
  ultimately show ?thesis
    using bnact_roundtrip [of BNACT_DOMINANT_AXIS "''sensitivity-up''"] by blast
qed

end
