(* ===== verification/CfgFile.thy ===== *)
theory CfgFile
  imports CLib Config
begin

text \<open>
  Reading and writing the configuration file (src/cfgfile.c). The daemon keeps the lines of the file
  it has read, with the option each one sets, so that saving changes only what it has to: \<open>cfglines\<close>
  is the allocated array, of which \<open>num_lines\<close> slots are in use (\<open>None\<close> is the null pointer), and an
  access beyond its end sets \<open>cf_fault\<close>. \<open>cf_text\<close> is the file (\<open>None\<close>: it cannot be opened),
  \<open>cf_writable\<close> whether it can be opened for writing, and the n-th allocation succeeds if
  \<open>cf_mem n\<close>. The locks on the file are not modelled. \<open>cf_keysym\<close> is \<open>XStringToKeysym\<close>.
\<close>

section \<open>The lines of the file\<close>

datatype cfgopt =
    CFG_REPEAT | CFG_HOLD
  | CFG_DEADZONE | CFG_DEADZONE_N
  | CFG_DEADZONE_TX | CFG_DEADZONE_TY | CFG_DEADZONE_TZ
  | CFG_DEADZONE_RX | CFG_DEADZONE_RY | CFG_DEADZONE_RZ
  | CFG_SENS
  | CFG_SENS_TRANS | CFG_SENS_TX | CFG_SENS_TY | CFG_SENS_TZ
  | CFG_SENS_ROT | CFG_SENS_RX | CFG_SENS_RY | CFG_SENS_RZ
  | CFG_INVROT | CFG_INVTRANS | CFG_SWAPYZ
  | CFG_AXISMAP_N | CFG_BNMAP_N | CFG_BNHOLD_N | CFG_BNACT_N | CFG_KBMAP_N
  | CFG_LED | CFG_GRAB
  | CFG_SERIAL | CFG_DEVID
  | CFG_SOCKPATH
  | CFG_KBMAP_USE_X11

abbreviation (input) NUM_CFG_OPTIONS :: nat where "NUM_CFG_OPTIONS \<equiv> 33"

definition NUM_EXTRA_LINES :: nat where
  "NUM_EXTRA_LINES = NUM_CFG_OPTIONS + MAX_CUSTOM + MAX_BUTTONS * 4 + MAX_AXES + 16"

record cfgline =
  cl_str :: "string option"
  cl_opt :: cfgopt
  cl_idx :: int
  cl_own :: bool

definition calloc_line :: cfgline where
  \<comment> \<open>a slot of zeros: the item 0 is \<open>CFG_REPEAT\<close>\<close>
  "calloc_line = \<lparr>cl_str = None, cl_opt = CFG_REPEAT, cl_idx = 0, cl_own = False\<rparr>"

record cfgfile =
  cfglines :: "cfgline list option"
  num_lines :: nat
  cf_text :: "string option"
  cf_writable :: bool
  cf_keysym :: "string \<Rightarrow> u32"
  cf_mem :: "nat \<Rightarrow> bool"
  cf_tick :: nat
  cf_fault :: bool

definition cf_alloc :: "cfgfile \<Rightarrow> bool \<times> cfgfile" where
  "cf_alloc f = (cf_mem f (cf_tick f), f\<lparr>cf_tick := cf_tick f + 1\<rparr>)"

definition slots :: "cfgfile \<Rightarrow> cfgline list" where
  "slots f = (case cfglines f of None \<Rightarrow> [] | Some ls \<Rightarrow> ls)"

definition upd_slot :: "nat \<Rightarrow> (cfgline \<Rightarrow> cfgline) \<Rightarrow> cfgfile \<Rightarrow> cfgfile" where
  "upd_slot i g f =
     (if i < length (slots f)
      then f\<lparr>cfglines := Some ((slots f)[i := g (slots f ! i)])\<rparr> else f\<lparr>cf_fault := True\<rparr>)"

section \<open>Key mappings\<close>

definition trim :: "string \<Rightarrow> string" where
  "trim s = rev (dropWhile isspace (rev (dropWhile isspace s)))"

function parse_keys :: "(string \<Rightarrow> u32) \<Rightarrow> string \<Rightarrow> u32 list \<Rightarrow> nat \<Rightarrow> u32 list \<times> nat" where
  \<comment> \<open>the characters from \<open>start\<close>, the key symbols stored so far and their number\<close>
  "parse_keys keysym start ks count =
     (if start = [] \<or> MAX_KEYS_PER_BUTTON \<le> count then (ks, count)
      else
        let key = trim (takeWhile (\<lambda>c. c \<noteq> CHR ''+'') start);
            (ks, count) = (if key = [] \<or> keysym key = 0 then (ks, count)
                           else (ks[count := keysym key], count + 1)) in
        if CHR ''+'' \<notin> set start then (ks, count)
        else parse_keys keysym (drop 1 (dropWhile (\<lambda>c. c \<noteq> CHR ''+'') start)) ks count)"
  by pat_completeness auto
termination
proof (relation "measure (\<lambda>(keysym, start, ks, count). length start)", goal_cases)
  case (2 keysym start ks count key x a b)
  then have "start \<noteq> []" by auto
  moreover have "length (dropWhile (\<lambda>c. c \<noteq> CHR ''+'') start) \<le> length start"
    by (rule length_dropWhile_le)
  ultimately show ?case by (cases start) auto
qed simp

declare parse_keys.simps [simp del]

definition parse_kbmap :: "(string \<Rightarrow> u32) \<Rightarrow> string \<Rightarrow> u32 list \<Rightarrow> u32 list \<times> nat" where
  \<comment> \<open>the copy in \<open>buf\<close> has at most 255 characters\<close>
  "parse_kbmap keysym str ks = parse_keys keysym (take 255 str) ks 0"

section \<open>Reading a line\<close>

record reader =
  r_cfg :: cfg
  r_line :: cfgline
  r_ndev :: nat
  r_file :: cfgfile

text \<open>
  \<open>r_line\<close> is the slot of the current line, \<open>r_ndev\<close> the variable \<open>num_devid\<close>. A value is read as an
  integer, as a floating-point number and as a boolean before the option is known.
\<close>

record cfgval =
  v_str :: string
  v_isint :: bool
  v_isfloat :: bool
  v_isbool :: bool
  v_ival :: int
  v_fval :: f32

definition bool_str :: "string list" where
  "bool_str = [''false'', ''true'', ''no'', ''yes'', ''off'', ''on'']"

definition parse_value :: "string \<Rightarrow> cfgval" where
  "parse_value s =
     (let i = scan_d s; x = strtof s;
          b = (if i = None \<and> x = None then search (\<lambda>k. bool_str ! k = s) [0..<length bool_str] else None) in
      \<lparr>v_str = s, v_isint = i \<noteq> None, v_isfloat = x \<noteq> None, v_isbool = b \<noteq> None,
       v_ival = (case b of Some k \<Rightarrow> int (k mod 2) | None \<Rightarrow> (case i of Some i \<Rightarrow> i | None \<Rightarrow> 0)),
       v_fval = (case x of Some w \<Rightarrow> w | None \<Rightarrow> 0)\<rparr>)"

definition set_opt :: "cfgopt \<Rightarrow> reader \<Rightarrow> reader" where
  "set_opt opt r = r\<lparr>r_line := (r_line r)\<lparr>cl_opt := opt\<rparr>\<rparr>"

definition set_opt_idx :: "cfgopt \<Rightarrow> int \<Rightarrow> reader \<Rightarrow> reader" where
  "set_opt_idx opt idx r = r\<lparr>r_line := (r_line r)\<lparr>cl_opt := opt, cl_idx := idx\<rparr>\<rparr>"

definition set_cfg :: "(cfg \<Rightarrow> cfg) \<Rightarrow> reader \<Rightarrow> reader" where
  "set_cfg g r = r\<lparr>r_cfg := g (r_cfg r)\<rparr>"

definition expect :: "bool \<Rightarrow> (cfg \<Rightarrow> cfg) \<Rightarrow> reader \<Rightarrow> reader" where
  \<comment> \<open>\<open>EXPECT\<close>: otherwise go on with the next line\<close>
  "expect cond g r = (if cond then set_cfg g r else r)"

text \<open>
  The branches of the comparison of the key, in the order of the source. A function gives \<open>None\<close> for a
  key that is not one of its own.
\<close>

type_synonym branch = "string \<Rightarrow> cfgval \<Rightarrow> reader \<Rightarrow> reader option"

definition set_dead :: "nat \<Rightarrow> int \<Rightarrow> cfg \<Rightarrow> cfg" where
  "set_dead i v c = c\<lparr>dead_threshold := (dead_threshold c)[i := v]\<rparr>"

definition opt_deadzone :: branch where
  "opt_deadzone key v r =
     (if key = ''repeat-interval'' then
        Some (expect (v_isint v) (\<lambda>c. c\<lparr>repeat_msec := v_ival v\<rparr>) (set_opt CFG_REPEAT r))
      else if key = ''dead-zone'' then
        Some (expect (v_isint v) (\<lambda>c. c\<lparr>dead_threshold := replicate MAX_AXES (v_ival v)\<rparr>)
          (set_opt CFG_DEADZONE r))
      else case scan_option ''dead-zone'' key of
        Some i \<Rightarrow>
          if i < 0 \<or> int MAX_AXES \<le> i then Some r
          else Some (set_cfg (set_dead (nat i) (v_ival v)) (set_opt_idx CFG_DEADZONE_N i r))
      | None \<Rightarrow>
          if key = ''dead-zone-translation-x'' then
            Some (expect (v_isint v) (set_dead 0 (v_ival v)) (set_opt CFG_DEADZONE_TX r))
          else if key = ''dead-zone-translation-y'' then
            Some (expect (v_isint v) (set_dead 1 (v_ival v)) (set_opt CFG_DEADZONE_TY r))
          else if key = ''dead-zone-translation-z'' then
            Some (expect (v_isint v) (set_dead 2 (v_ival v)) (set_opt CFG_DEADZONE_TZ r))
          else if key = ''dead-zone-rotation-x'' then
            Some (expect (v_isint v) (set_dead 3 (v_ival v)) (set_opt CFG_DEADZONE_RX r))
          else if key = ''dead-zone-rotation-y'' then
            Some (expect (v_isint v) (set_dead 4 (v_ival v)) (set_opt CFG_DEADZONE_RY r))
          else if key = ''dead-zone-rotation-z'' then
            Some (expect (v_isint v) (set_dead 5 (v_ival v)) (set_opt CFG_DEADZONE_RZ r))
          else None)"

definition set_trans :: "nat \<Rightarrow> f32 \<Rightarrow> cfg \<Rightarrow> cfg" where
  "set_trans i w c = c\<lparr>sens_trans := (sens_trans c)[i := w]\<rparr>"

definition set_rot :: "nat \<Rightarrow> f32 \<Rightarrow> cfg \<Rightarrow> cfg" where
  "set_rot i w c = c\<lparr>sens_rot := (sens_rot c)[i := w]\<rparr>"

definition opt_sensitivity :: branch where
  "opt_sensitivity key v r =
     (if key = ''sensitivity'' then
        Some (expect (v_isfloat v) (\<lambda>c. c\<lparr>sensitivity := v_fval v\<rparr>) (set_opt CFG_SENS r))
      else if key = ''sensitivity-translation'' then
        Some (expect (v_isfloat v) (\<lambda>c. c\<lparr>sens_trans := replicate 3 (v_fval v)\<rparr>) (set_opt CFG_SENS_TRANS r))
      else if key = ''sensitivity-translation-x'' then
        Some (expect (v_isfloat v) (set_trans 0 (v_fval v)) (set_opt CFG_SENS_TX r))
      else if key = ''sensitivity-translation-y'' then
        Some (expect (v_isfloat v) (set_trans 1 (v_fval v)) (set_opt CFG_SENS_TY r))
      else if key = ''sensitivity-translation-z'' then
        Some (expect (v_isfloat v) (set_trans 2 (v_fval v)) (set_opt CFG_SENS_TZ r))
      else if key = ''sensitivity-rotation'' then
        Some (expect (v_isfloat v) (\<lambda>c. c\<lparr>sens_rot := replicate 3 (v_fval v)\<rparr>) (set_opt CFG_SENS_ROT r))
      else if key = ''sensitivity-rotation-x'' then
        Some (expect (v_isfloat v) (set_rot 0 (v_fval v)) (set_opt CFG_SENS_RX r))
      else if key = ''sensitivity-rotation-y'' then
        Some (expect (v_isfloat v) (set_rot 1 (v_fval v)) (set_opt CFG_SENS_RY r))
      else if key = ''sensitivity-rotation-z'' then
        Some (expect (v_isfloat v) (set_rot 2 (v_fval v)) (set_opt CFG_SENS_RZ r))
      else None)"

definition set_inverts :: "nat \<Rightarrow> string \<Rightarrow> cfg \<Rightarrow> cfg" where
  \<comment> \<open>the axes that the value names, from the first of a group of three\<close>
  "set_inverts b s c =
     (let inv = invert c;
          inv = (if CHR ''x'' \<in> set s then inv[b := 1] else inv);
          inv = (if CHR ''y'' \<in> set s then inv[b + 1 := 1] else inv);
          inv = (if CHR ''z'' \<in> set s then inv[b + 2 := 1] else inv) in
      c\<lparr>invert := inv\<rparr>)"

definition opt_invert :: branch where
  "opt_invert key v r =
     (if key = ''invert-rot'' then Some (set_cfg (set_inverts 3 (v_str v)) (set_opt CFG_INVROT r))
      else if key = ''invert-trans'' then Some (set_cfg (set_inverts 0 (v_str v)) (set_opt CFG_INVTRANS r))
      else if key = ''swap-yz'' then
        Some (expect (v_isint v \<or> v_isbool v) (\<lambda>c. c\<lparr>swapyz := v_ival v\<rparr>) (set_opt CFG_SWAPYZ r))
      else None)"

definition opt_axismap :: branch where
  "opt_axismap key v r =
     (case scan_option ''axismap'' key of
        None \<Rightarrow> None
      | Some i \<Rightarrow> Some (
          if \<not> v_isint v then r
          else if i < 0 \<or> int MAX_AXES \<le> i then r
          else if v_ival v < 0 \<or> 6 \<le> v_ival v then r
          else set_cfg (\<lambda>c. c\<lparr>map_axis := (map_axis c)[nat i := v_ival v]\<rparr>)
            (set_opt_idx CFG_AXISMAP_N i r)))"

definition opt_bnmap :: branch where
  "opt_bnmap key v r =
     (case scan_option ''bnmap'' key of
        None \<Rightarrow> None
      | Some i \<Rightarrow> Some (
          if \<not> v_isint v then r
          else if i < 0 \<or> int MAX_BUTTONS \<le> i \<or> v_ival v < 0 \<or> int MAX_BUTTONS \<le> v_ival v then r
          else set_cfg (\<lambda>c. c\<lparr>map_button := (map_button c)[nat i := v_ival v]\<rparr>)
            (set_opt_idx CFG_BNMAP_N i r)))"

definition opt_bnact :: branch where
  "opt_bnact key v r =
     (case scan_option ''bnact'' key of
        None \<Rightarrow> None
      | Some i \<Rightarrow> Some (
          if i < 0 \<or> int MAX_BUTTONS \<le> i then r
          else
            let act = parse_bnact (v_str v) in
            set_cfg (\<lambda>c. c\<lparr>bnact := (bnact c)[nat i := if act = - 1 then BNACT_NONE else act]\<rparr>)
              (set_opt_idx CFG_BNACT_N i r)))"

definition opt_kbmap :: branch where
  "opt_kbmap key v r =
     (case scan_option ''kbmap'' key of
        None \<Rightarrow> None
      | Some i \<Rightarrow> Some (
          if i < 0 \<or> int MAX_BUTTONS \<le> i then r
          else
            let (ok, f) = cf_alloc (r_file r);
                (ks, n) = parse_kbmap (cf_keysym f) (v_str v) (kbmap (r_cfg r) ! nat i) in
            (set_cfg (\<lambda>c. c\<lparr>kbmap_str := (kbmap_str c)[nat i := if ok then Some (v_str v) else None],
                           kbmap := (kbmap c)[nat i := ks],
                           kbmap_count := (kbmap_count c)[nat i := int n]\<rparr>)
              (set_opt_idx CFG_KBMAP_N i r))\<lparr>r_file := f\<rparr>))"

definition opt_flags :: branch where
  "opt_flags key v r =
     (if key = ''led'' then
        Some (let r = set_opt CFG_LED r in
              if v_isint v \<or> v_isbool v then set_cfg (\<lambda>c. c\<lparr>led := v_ival v\<rparr>) r
              else if v_str v = ''auto'' then set_cfg (\<lambda>c. c\<lparr>led := LED_AUTO\<rparr>) r
              else r)
      else if key = ''kbmap_use_x11'' then
        Some (expect (v_isint v \<or> v_isbool v) (\<lambda>c. c\<lparr>kbemu_use_x11 := v_ival v\<rparr>)
          (set_opt CFG_KBMAP_USE_X11 r))
      else if key = ''grab'' then
        Some (expect (v_isint v \<or> v_isbool v) (\<lambda>c. c\<lparr>grab_device := v_ival v\<rparr>) (set_opt CFG_GRAB r))
      else None)"

definition opt_names :: branch where
  "opt_names key v r =
     (if key = ''serial'' then
        Some (set_cfg (\<lambda>c. c\<lparr>serial_dev := take (PATH_MAX - 1) (v_str v)\<rparr>) (set_opt CFG_SERIAL r))
      else if key = ''device-id'' then
        Some (let r = set_opt CFG_DEVID r in
              case scan_x_x (v_str v) of
                None \<Rightarrow> r
              | Some (vendor, product) \<Rightarrow>
                  let n = r_ndev r;
                      r = (if n < MAX_CUSTOM then r
                           else r\<lparr>r_file := (r_file r)\<lparr>cf_fault := True\<rparr>\<rparr>) in
                  (set_cfg (\<lambda>c. c\<lparr>devid := (devid c)[n := (sint vendor, sint product)]\<rparr>) r)
                    \<lparr>r_ndev := n + 1\<rparr>)
      else if key = ''socket'' then
        Some (set_cfg (\<lambda>c. c\<lparr>sockpath := take (PATH_MAX - 1) (v_str v)\<rparr>) (set_opt CFG_SOCKPATH r))
      else None)"

definition opt_hold :: branch where
  "opt_hold key v r =
     (if key = ''hold-timeout'' then
        Some (if \<not> v_isint v then r
              else if v_ival v < 0 then r
              else set_cfg (\<lambda>c. c\<lparr>hold_timeout := v_ival v\<rparr>) (set_opt CFG_HOLD r))
      else case scan_option ''bnhold'' key of
        None \<Rightarrow> None
      | Some i \<Rightarrow> Some (
          if \<not> v_isint v then r
          else if i < 0 \<or> int MAX_BUTTONS \<le> i \<or> v_ival v < 0 \<or> int MAX_BUTTONS \<le> v_ival v then r
          else set_cfg (\<lambda>c. c\<lparr>map_hold := (map_hold c)[nat i := v_ival v]\<rparr>)
            (set_opt_idx CFG_BNHOLD_N i r)))"

definition branches :: "branch list" where
  "branches = [opt_deadzone, opt_sensitivity, opt_invert, opt_axismap, opt_bnmap, opt_bnact, opt_kbmap,
     opt_flags, opt_names, opt_hold]"

fun try_branches :: "branch list \<Rightarrow> string \<Rightarrow> cfgval \<Rightarrow> reader \<Rightarrow> reader" where
  "try_branches [] key v r = r"
| "try_branches (b # bs) key v r =
     (case b key v r of Some r' \<Rightarrow> r' | None \<Rightarrow> try_branches bs key v r)"

definition delims :: "char set" where
  "delims = {CHR '' '', CHR ''='', CHR 0x0a, CHR 0x09, CHR 0x0d}"

definition line_str :: "string \<Rightarrow> string" where
  \<comment> \<open>the line up to a carriage return or, without one, to the newline\<close>
  "line_str buf =
     (if CHR 0x0d \<in> set buf then takeWhile (\<lambda>c. c \<noteq> CHR 0x0d) buf
      else takeWhile (\<lambda>c. c \<noteq> CHR 0x0a) buf)"

definition key_val :: "string \<Rightarrow> (string \<times> string) option" where
  "key_val buf =
     (let line = dropWhile (\<lambda>c. c = CHR '' '' \<or> c = CHR 0x09) buf in
      if line = [] \<or> hd line = CHR 0x0a \<or> hd line = CHR 0x0d \<or> hd line = CHR ''#'' then None
      else case strtok delims line of
        None \<Rightarrow> None
      | Some (key, rest) \<Rightarrow>
          (case strtok delims rest of None \<Rightarrow> None | Some (val, _) \<Rightarrow> Some (key, val)))"

definition read_line :: "string \<Rightarrow> reader \<Rightarrow> reader" where
  \<comment> \<open>one turn of the loop; the argument is what \<open>fgets\<close> stored\<close>
  "read_line chunk r =
     (let i = num_lines (r_file r);
          f = (r_file r)\<lparr>num_lines := i + 1\<rparr>;
          (ok, f) = cf_alloc f;
          buf = line_str (cstr chunk);
          r = r\<lparr>r_file := f, r_line := (if i < length (slots f) then slots f ! i else calloc_line)\<rparr>;
          r = r\<lparr>r_line := (r_line r)\<lparr>cl_str := if ok then Some buf else None\<rparr>\<rparr>;
          r = (if \<not> ok then r
               else case key_val buf of
                 None \<Rightarrow> r
               | Some (key, val) \<Rightarrow> try_branches branches key (parse_value val) r) in
      r\<lparr>r_file := upd_slot i (\<lambda>_. r_line r) (r_file r)\<rparr>)"

section \<open>Reading the file\<close>

function file_lines :: "string \<Rightarrow> string list" where
  \<comment> \<open>what the calls of \<open>fgets\<close> with a buffer of 512 characters store\<close>
  "file_lines s = (case fgets 512 s of None \<Rightarrow> [] | Some (l, rest) \<Rightarrow> l # file_lines rest)"
  by pat_completeness auto
termination
  by (relation "measure length") (auto simp: fgets_def Let_def min_def split: if_splits)

declare file_lines.simps [simp del]

definition newlines :: "string \<Rightarrow> nat" where
  "newlines s = length (filter (\<lambda>c. c = CHR 0x0a) s)"

definition read_cfg :: "cfgfile \<Rightarrow> int \<times> cfg \<times> cfgfile" where
  "read_cfg f =
     (case cf_text f of
        None \<Rightarrow> (- 1, default_cfg, f)
      | Some text \<Rightarrow>
          let n = (if newlines text = 0 then 1 else newlines text);
              (ok, f) = cf_alloc (f\<lparr>cfglines := None\<rparr>) in
          if \<not> ok then (- 1, default_cfg, f\<lparr>num_lines := n\<rparr>)
          else
            let f = f\<lparr>cfglines := Some (replicate (n + NUM_EXTRA_LINES) calloc_line), num_lines := 0\<rparr>;
                r = fold read_line (file_lines text)
                      \<lparr>r_cfg = default_cfg, r_line = calloc_line, r_ndev = 0, r_file = f\<rparr> in
            (0, r_cfg r, r_file r))"

section \<open>Changing the lines\<close>

datatype rmmode = RMCFG_ALL | RMCFG_OWN

definition find_line :: "(cfgline \<Rightarrow> bool) \<Rightarrow> cfgfile \<Rightarrow> nat option" where
  \<comment> \<open>the first line in use, of those with a text, that has a property\<close>
  "find_line p f = search (\<lambda>i. cl_str (slots f ! i) \<noteq> None \<and> p (slots f ! i)) [0..<num_lines f]"

definition check_lines :: "cfgfile \<Rightarrow> cfgfile" where
  \<comment> \<open>a loop over the lines reads slots that do not exist\<close>
  "check_lines f = (if length (slots f) < num_lines f then f\<lparr>cf_fault := True\<rparr> else f)"

definition find_cfgopt :: "cfgopt \<Rightarrow> int \<Rightarrow> cfgfile \<Rightarrow> nat option" where
  "find_cfgopt opt idx f = find_line (\<lambda>l. cl_opt l = opt \<and> cl_idx l = idx) f"

definition add_cfgopt :: "cfgopt \<Rightarrow> int \<Rightarrow> string \<Rightarrow> cfgfile \<Rightarrow> cfgfile" where
  \<comment> \<open>with the text that \<open>vsnprintf\<close> formats into a buffer of 512 characters\<close>
  "add_cfgopt opt idx text f =
     (let (ok, f) = cf_alloc f;
          str = take 511 text;
          f = (if ok then check_lines f else f) in
      if \<not> ok then f
      else case find_cfgopt opt idx f of
        Some i \<Rightarrow> upd_slot i (\<lambda>l. l\<lparr>cl_str := Some str, cl_opt := opt, cl_idx := idx\<rparr>) f
      | None \<Rightarrow>
          upd_slot (num_lines f) (\<lambda>l. l\<lparr>cl_own := True, cl_str := Some str, cl_opt := opt, cl_idx := idx\<rparr>)
            (f\<lparr>num_lines := num_lines f + 1\<rparr>))"

definition devid_line :: "u32 \<Rightarrow> u32 \<Rightarrow> cfgline \<Rightarrow> bool" where
  \<comment> \<open>a line whose text after the equals sign is this pair of identifiers\<close>
  "devid_line vid pid l \<longleftrightarrow>
     cl_opt l = CFG_DEVID \<and>
     (case cl_str l of None \<Rightarrow> False
      | Some str \<Rightarrow> CHR ''='' \<in> set str \<and>
          scan_x_x (drop 1 (dropWhile (\<lambda>c. c \<noteq> CHR ''='') str)) = Some (vid, pid))"

definition add_cfgopt_devid :: "int \<Rightarrow> int \<Rightarrow> cfgfile \<Rightarrow> cfgfile" where
  "add_cfgopt_devid vid pid f =
     (let (ok, f) = cf_alloc f;
          str = ''device-id = '' @ print_04x (w32 vid) @ '':'' @ print_04x (w32 pid);
          f = (if ok then check_lines f else f);
          set = (\<lambda>l. l\<lparr>cl_str := Some str, cl_opt := CFG_DEVID, cl_idx := 0\<rparr>) in
      if \<not> ok then f
      else case find_line (devid_line (w32 vid) (w32 pid)) f of
        Some i \<Rightarrow> upd_slot i set f
      | None \<Rightarrow> upd_slot (num_lines f + 1) set (f\<lparr>num_lines := num_lines f + 2\<rparr>))"

definition line_name :: "string \<Rightarrow> string option" where
  \<comment> \<open>the text before the equals sign, without the spaces around it; if no space precedes the
    sign, nothing is cut off\<close>
  "line_name str =
     (let p = dropWhile isspace (take 255 str);
          a = takeWhile (\<lambda>c. c \<noteq> CHR ''='') p in
      if CHR ''='' \<notin> set p then None
      else if a \<noteq> [] \<and> isspace (last a) then Some (rev (dropWhile isspace (rev a)))
      else Some p)"

definition rm_cfgopt :: "string \<Rightarrow> rmmode \<Rightarrow> cfgfile \<Rightarrow> cfgfile" where
  "rm_cfgopt name mode f =
     (let f = check_lines f in
      case find_line (\<lambda>l. cl_str l \<noteq> Some [] \<and> line_name (the (cl_str l)) = Some name) f of
        None \<Rightarrow> f
      | Some i \<Rightarrow>
          if mode \<noteq> RMCFG_OWN \<or> cl_own (slots f ! i) then upd_slot i (\<lambda>l. l\<lparr>cl_str := None\<rparr>) f else f)"

section \<open>Writing the file\<close>

text \<open>The sections of \<open>write_cfg\<close>, each for the options it compares with the defaults.\<close>

definition write_sens :: "cfg \<Rightarrow> cfgfile \<Rightarrow> cfgfile" where
  "write_sens c f =
     (if \<not> f32_eq (sensitivity c) (sensitivity default_cfg)
      then add_cfgopt CFG_SENS 0 (''sensitivity = '' @ print_3f (sensitivity c)) f
      else rm_cfgopt ''sensitivity'' RMCFG_ALL f)"

definition write_axis_sens :: "cfgopt \<Rightarrow> string \<Rightarrow> string \<Rightarrow> f32 \<Rightarrow> f32 \<Rightarrow> cfgfile \<Rightarrow> cfgfile" where
  \<comment> \<open>one axis of a group of three whose values differ\<close>
  "write_axis_sens opt grp axis w def f =
     (if \<not> f32_eq w def
      then rm_cfgopt grp RMCFG_ALL (add_cfgopt opt 0 (grp @ axis @ '' = '' @ print_3f w) f)
      else rm_cfgopt (grp @ axis) RMCFG_OWN f)"

definition write_sens_group :: "string \<Rightarrow> cfgopt \<Rightarrow> cfgopt list \<Rightarrow> f32 list \<Rightarrow> f32 list \<Rightarrow> cfgfile \<Rightarrow> cfgfile" where
  "write_sens_group grp opt opts ws defs f =
     (if f32_eq (ws ! 0) (ws ! 1) \<and> f32_eq (ws ! 1) (ws ! 2) then
        let f = rm_cfgopt (grp @ ''-x'') RMCFG_ALL f;
            f = rm_cfgopt (grp @ ''-y'') RMCFG_ALL f;
            f = rm_cfgopt (grp @ ''-z'') RMCFG_ALL f in
        if \<not> f32_eq (ws ! 0) (defs ! 0) then add_cfgopt opt 0 (grp @ '' = '' @ print_3f (ws ! 0)) f
        else rm_cfgopt grp RMCFG_OWN f
      else
        let f = write_axis_sens (opts ! 0) grp ''-x'' (ws ! 0) (defs ! 0) f;
            f = write_axis_sens (opts ! 1) grp ''-y'' (ws ! 1) (defs ! 1) f in
        write_axis_sens (opts ! 2) grp ''-z'' (ws ! 2) (defs ! 2) f)"

definition write_sens_trans :: "cfg \<Rightarrow> cfgfile \<Rightarrow> cfgfile" where
  "write_sens_trans c =
     write_sens_group ''sensitivity-translation'' CFG_SENS_TRANS [CFG_SENS_TX, CFG_SENS_TY, CFG_SENS_TZ]
       (sens_trans c) (sens_trans default_cfg)"

definition write_sens_rot :: "cfg \<Rightarrow> cfgfile \<Rightarrow> cfgfile" where
  "write_sens_rot c =
     write_sens_group ''sensitivity-rotation'' CFG_SENS_ROT [CFG_SENS_RX, CFG_SENS_RY, CFG_SENS_RZ]
       (sens_rot c) (sens_rot default_cfg)"

definition idx_name :: "string \<Rightarrow> nat \<Rightarrow> string" where
  "idx_name name i = name @ print_d (int i)"

definition write_deadzones :: "cfg \<Rightarrow> cfgfile \<Rightarrow> cfgfile" where
  "write_deadzones c f =
     (let dt = dead_threshold c; def = dead_threshold default_cfg;
          same = (\<forall>i \<in> set [1..<MAX_AXES]. dt ! i = dt ! (i - 1)) in
      if same then
        (if dt ! 0 \<noteq> def ! 0 then
           fold (\<lambda>i. rm_cfgopt (idx_name ''dead-zone'' i) RMCFG_ALL) [0..<MAX_AXES]
             (add_cfgopt CFG_DEADZONE 0 (''dead-zone = '' @ print_d (dt ! 0)) f)
         else rm_cfgopt ''dead-zone'' RMCFG_OWN f)
      else
        fold (\<lambda>i f.
          if dt ! i \<noteq> def ! i then
            rm_cfgopt ''dead-zone'' RMCFG_ALL
              (add_cfgopt CFG_DEADZONE_N (int i) (idx_name ''dead-zone'' i @ '' = '' @ print_d (dt ! i)) f)
          else rm_cfgopt (idx_name ''dead-zone'' i) RMCFG_OWN f) [0..<MAX_AXES] f)"

definition write_times :: "cfg \<Rightarrow> cfgfile \<Rightarrow> cfgfile" where
  \<comment> \<open>the format of the first has a newline of its own\<close>
  "write_times c f =
     (let f = (if repeat_msec c \<noteq> repeat_msec default_cfg
               then add_cfgopt CFG_REPEAT 0 (''repeat-interval = '' @ print_d (repeat_msec c) @ [CHR 0x0a]) f
               else rm_cfgopt ''repeat-interval'' RMCFG_ALL f) in
      if hold_timeout c \<noteq> hold_timeout default_cfg
      then add_cfgopt CFG_HOLD 0 (''hold-timeout = '' @ print_d (hold_timeout c)) f
      else rm_cfgopt ''hold-timeout'' RMCFG_OWN f)"

definition inv_flags :: "int list \<Rightarrow> nat \<Rightarrow> string" where
  "inv_flags iv b =
     (if iv ! b \<noteq> 0 then ''x'' else []) @ (if iv ! (b + 1) \<noteq> 0 then ''y'' else []) @
     (if iv ! (b + 2) \<noteq> 0 then ''z'' else [])"

definition write_inverts :: "cfg \<Rightarrow> cfgfile \<Rightarrow> cfgfile" where
  "write_inverts c f =
     (let f = (if inv_flags (invert c) 0 \<noteq> []
               then add_cfgopt CFG_INVTRANS 0 (''invert-trans = '' @ inv_flags (invert c) 0) f
               else rm_cfgopt ''invert-trans'' RMCFG_ALL f);
          f = (if inv_flags (invert c) 3 \<noteq> []
               then add_cfgopt CFG_INVROT 0 (''invert-rot = '' @ inv_flags (invert c) 3) f
               else rm_cfgopt ''invert-rot'' RMCFG_ALL f) in
      if swapyz c \<noteq> 0 then add_cfgopt CFG_SWAPYZ 0 ''swap-yz = true'' f
      else rm_cfgopt ''swap-yz'' RMCFG_ALL f)"

definition write_table :: "string \<Rightarrow> cfgopt \<Rightarrow> (nat \<Rightarrow> string option) \<Rightarrow> cfgfile \<Rightarrow> cfgfile" where
  \<comment> \<open>a loop over 64 axes or buttons: the value of each that is not the default\<close>
  "write_table name opt val f =
     fold (\<lambda>i f. case val i of
         Some s \<Rightarrow> add_cfgopt opt (int i) (idx_name name i @ '' = '' @ s) f
       | None \<Rightarrow> rm_cfgopt (idx_name name i) RMCFG_ALL f) [0..<64] f"

definition write_maps :: "cfg \<Rightarrow> cfgfile \<Rightarrow> cfgfile" where
  "write_maps c f =
     (let f = write_table ''axismap'' CFG_AXISMAP_N
                (\<lambda>i. if map_axis c ! i \<noteq> int i then Some (print_d (map_axis c ! i)) else None) f;
          f = write_table ''bnmap'' CFG_BNMAP_N
                (\<lambda>i. if map_button c ! i \<noteq> int i then Some (print_d (map_button c ! i)) else None) f;
          f = write_table ''bnhold'' CFG_BNHOLD_N
                (\<lambda>i. if 0 \<le> map_hold c ! i then Some (print_d (map_hold c ! i)) else None) f;
          f = write_table ''bnact'' CFG_BNACT_N
                (\<lambda>i. if bnact c ! i \<noteq> BNACT_NONE then Some (bnact_name (bnact c ! i)) else None) f in
      write_table ''kbmap'' CFG_KBMAP_N (\<lambda>i. kbmap_str c ! i) f)"

definition write_flags :: "cfg \<Rightarrow> cfgfile \<Rightarrow> cfgfile" where
  "write_flags c f =
     (let f = (if led c \<noteq> led default_cfg
               then add_cfgopt CFG_LED 0 (''led = '' @
                 (if led c \<noteq> 0 then (if led c = LED_AUTO then ''auto'' else ''on'') else ''off'')) f
               else rm_cfgopt ''led'' RMCFG_OWN f) in
      if grab_device c \<noteq> grab_device default_cfg
      then add_cfgopt CFG_GRAB 0 (''grab = '' @ (if grab_device c \<noteq> 0 then ''true'' else ''false'')) f
      else rm_cfgopt ''grab'' RMCFG_OWN f)"

definition write_names :: "cfg \<Rightarrow> cfgfile \<Rightarrow> cfgfile" where
  "write_names c f =
     (let f = (if serial_dev c \<noteq> [] then add_cfgopt CFG_SERIAL 0 (''serial = '' @ serial_dev c) f
               else rm_cfgopt ''serial'' RMCFG_ALL f);
          f = fold (\<lambda>i f.
                if fst (devid c ! i) \<noteq> - 1 \<and> snd (devid c ! i) \<noteq> - 1
                then add_cfgopt_devid (fst (devid c ! i)) (snd (devid c ! i)) f else f) [0..<MAX_CUSTOM] f in
      if sockpath c \<noteq> [] then add_cfgopt CFG_SOCKPATH 0 (''socket = '' @ sockpath c) f
      else rm_cfgopt ''socket'' RMCFG_ALL f)"

definition write_lines :: "cfgfile \<Rightarrow> string" where
  "write_lines f =
     concat (map (\<lambda>l. case cl_str l of None \<Rightarrow> [] | Some s \<Rightarrow> s @ [CHR 0x0a]) (take (num_lines f) (slots f)))"

definition write_cfg :: "cfg \<Rightarrow> cfgfile \<Rightarrow> int \<times> cfgfile" where
  \<comment> \<open>opening the file for writing empties it\<close>
  "write_cfg c f =
     (if \<not> cf_writable f then (- 1, f)
      else
        let f = f\<lparr>cf_text := Some []\<rparr>;
            (ok, f) = (if cfglines f \<noteq> None then (True, f)
                       else let (ok, f) = cf_alloc f in
                            (ok, if ok then f\<lparr>cfglines := Some (replicate NUM_EXTRA_LINES calloc_line)\<rparr> else f)) in
        if \<not> ok then (- 1, f)
        else
          let f = write_sens c f;
              f = write_sens_trans c f;
              f = write_sens_rot c f;
              f = write_deadzones c f;
              f = write_times c f;
              f = write_inverts c f;
              f = write_maps c f;
              f = write_flags c f;
              f = write_names c f;
              f = check_lines f in
          (0, f\<lparr>cf_text := Some (write_lines f)\<rparr>))"

section \<open>Reading keeps the configuration well formed\<close>

lemma parse_keys_bounds: "n \<le> MAX_KEYS_PER_BUTTON \<Longrightarrow>
    length (fst (parse_keys keysym s ks n)) = length ks \<and> snd (parse_keys keysym s ks n) \<le> MAX_KEYS_PER_BUTTON"
proof (induction keysym s ks n rule: parse_keys.induct)
  case (1 keysym s ks n)
  show ?case
    by (subst (1 2) parse_keys.simps, use 1 in \<open>auto simp: Let_def split: if_splits\<close>)
qed

text \<open>
  \<open>keeps r r'\<close>: the reader \<open>r'\<close> that a branch makes of \<open>r\<close> has a well-formed configuration if \<open>r\<close> has
  one, the same lines, and has run beyond the table of device identifiers only if it was full.
\<close>

definition keeps :: "string \<Rightarrow> reader \<Rightarrow> reader \<Rightarrow> bool" where
  "keeps key r r' \<longleftrightarrow>
     (cfg_wf (r_cfg r) \<longrightarrow> cfg_wf (r_cfg r')) \<and>
     cfglines (r_file r') = cfglines (r_file r) \<and> num_lines (r_file r') = num_lines (r_file r) \<and>
     cl_str (r_line r') = cl_str (r_line r) \<and> cl_own (r_line r') = cl_own (r_line r) \<and>
     r_ndev r \<le> r_ndev r' \<and> r_ndev r' \<le> r_ndev r + (if key = ''device-id'' then 1 else 0) \<and>
     (cf_fault (r_file r') \<longrightarrow> cf_fault (r_file r) \<or> MAX_CUSTOM < r_ndev r')"

locale option_branch =
  fixes br :: branch
  assumes br_keeps: "br key v r = Some r' \<Longrightarrow> keeps key r r'"

lemma keeps_refl [simp]: "keeps key r r"
  by (simp add: keeps_def)

lemma keeps_set_opt [simp]: "keeps key (set_opt opt r) r' = keeps key r r'"
  by (simp add: keeps_def set_opt_def)

lemma keeps_set_opt_idx [simp]: "keeps key (set_opt_idx opt i r) r' = keeps key r r'"
  by (simp add: keeps_def set_opt_idx_def)

lemma keeps_set_cfg: "(cfg_wf (r_cfg r) \<Longrightarrow> cfg_wf (g (r_cfg r))) \<Longrightarrow> keeps key r (set_cfg g r)"
  by (simp add: keeps_def set_cfg_def)

lemma keeps_expect: "(cfg_wf (r_cfg r) \<Longrightarrow> cfg_wf (g (r_cfg r))) \<Longrightarrow> keeps key r (expect c g r)"
  by (simp add: expect_def keeps_set_cfg)

lemma keeps_opt_expect: "(\<And>c. cfg_wf c \<Longrightarrow> cfg_wf (g c)) \<Longrightarrow> keeps key r (expect cnd g (set_opt opt r))"
  using keeps_expect [of "set_opt opt r" g key cnd] by simp

lemma keeps_opt_cfg: "(\<And>c. cfg_wf c \<Longrightarrow> cfg_wf (g c)) \<Longrightarrow> keeps key r (set_cfg g (set_opt opt r))"
  using keeps_set_cfg [of "set_opt opt r" g key] by simp

lemma keeps_idx_cfg: "(\<And>c. cfg_wf c \<Longrightarrow> cfg_wf (g c)) \<Longrightarrow> keeps key r (set_cfg g (set_opt_idx opt i r))"
  using keeps_set_cfg [of "set_opt_idx opt i r" g key] by simp

lemma keeps_opt: "keeps key r (set_opt opt r)"
  by (simp add: keeps_def set_opt_def)

lemmas keeps_intros = keeps_opt_expect keeps_opt_cfg keeps_idx_cfg keeps_opt keeps_refl

lemma cfg_wf_scalars [simp]:
  "cfg_wf (c\<lparr>repeat_msec := i\<rparr>) = cfg_wf c" "cfg_wf (c\<lparr>sensitivity := w\<rparr>) = cfg_wf c"
  "cfg_wf (c\<lparr>swapyz := i\<rparr>) = cfg_wf c" "cfg_wf (c\<lparr>led := i\<rparr>) = cfg_wf c"
  "cfg_wf (c\<lparr>kbemu_use_x11 := i\<rparr>) = cfg_wf c" "cfg_wf (c\<lparr>grab_device := i\<rparr>) = cfg_wf c"
  "cfg_wf (c\<lparr>hold_timeout := i\<rparr>) = cfg_wf c"
  by (simp_all add: cfg_wf_def)

lemma cfg_wf_tables:
  "cfg_wf c \<Longrightarrow> cfg_wf (set_dead i v c)" "cfg_wf c \<Longrightarrow> cfg_wf (set_trans i w c)"
  "cfg_wf c \<Longrightarrow> cfg_wf (set_rot i w c)" "cfg_wf c \<Longrightarrow> cfg_wf (set_inverts b s c)"
  "cfg_wf c \<Longrightarrow> cfg_wf (c\<lparr>dead_threshold := replicate 64 v\<rparr>)"
  "cfg_wf c \<Longrightarrow> cfg_wf (c\<lparr>sens_trans := replicate 3 w\<rparr>)" "cfg_wf c \<Longrightarrow> cfg_wf (c\<lparr>sens_rot := replicate 3 w\<rparr>)"
  "cfg_wf c \<Longrightarrow> cfg_wf (c\<lparr>map_axis := (map_axis c)[i := v]\<rparr>)"
  "cfg_wf c \<Longrightarrow> bn_valid v \<Longrightarrow> cfg_wf (c\<lparr>map_button := (map_button c)[i := v]\<rparr>)"
  "cfg_wf c \<Longrightarrow> v = - 1 \<or> bn_valid v \<Longrightarrow> cfg_wf (c\<lparr>map_hold := (map_hold c)[i := v]\<rparr>)"
  "cfg_wf c \<Longrightarrow> bnact_valid v \<Longrightarrow> cfg_wf (c\<lparr>bnact := (bnact c)[i := v]\<rparr>)"
  "cfg_wf c \<Longrightarrow> cfg_wf (c\<lparr>devid := (devid c)[i := p]\<rparr>)"
  "cfg_wf c \<Longrightarrow> length s < PATH_MAX \<Longrightarrow> cfg_wf (c\<lparr>serial_dev := s\<rparr>)"
  "cfg_wf c \<Longrightarrow> length s < PATH_MAX \<Longrightarrow> cfg_wf (c\<lparr>sockpath := s\<rparr>)"
  by (auto simp: cfg_wf_def set_dead_def set_trans_def set_rot_def set_inverts_def Let_def
      intro: list_all_update)

lemma cfg_wf_kbmap:
  "cfg_wf c \<Longrightarrow> length ks = MAX_KEYS_PER_BUTTON \<Longrightarrow> n \<le> MAX_KEYS_PER_BUTTON \<Longrightarrow>
   cfg_wf (c\<lparr>kbmap_str := (kbmap_str c)[i := s], kbmap := (kbmap c)[i := ks],
     kbmap_count := (kbmap_count c)[i := int n]\<rparr>)"
  by (auto simp: cfg_wf_def intro!: list_all_update)

interpretation deadzone_branch: option_branch opt_deadzone
  by unfold_locales
    (auto simp: opt_deadzone_def split: if_splits option.splits intro!: keeps_intros cfg_wf_tables)

interpretation sensitivity_branch: option_branch opt_sensitivity
  by unfold_locales (auto simp: opt_sensitivity_def split: if_splits intro!: keeps_intros cfg_wf_tables)

interpretation invert_branch: option_branch opt_invert
  by unfold_locales (auto simp: opt_invert_def split: if_splits intro!: keeps_intros cfg_wf_tables)

interpretation axismap_branch: option_branch opt_axismap
  by unfold_locales
    (auto simp: opt_axismap_def split: if_splits option.splits intro!: keeps_intros cfg_wf_tables)

interpretation bnmap_branch: option_branch opt_bnmap
  by unfold_locales
    (auto simp: opt_bnmap_def bn_valid_def split: if_splits option.splits intro!: keeps_intros cfg_wf_tables)

lemma parse_bnact_valid: "parse_bnact s \<noteq> - 1 \<Longrightarrow> bnact_valid (parse_bnact s)"
  by (force simp: parse_bnact_def bnact_strtab_acts dest: search_SomeD split: option.splits)

interpretation bnact_branch: option_branch opt_bnact
proof
  fix key v r r'
  assume "opt_bnact key v r = Some r'"
  moreover have "bnact_valid BNACT_NONE" by (simp add: bnact_valid_def)
  ultimately show "keeps key r r'"
    by (auto simp: opt_bnact_def Let_def split: if_splits option.splits
        intro!: keeps_intros cfg_wf_tables parse_bnact_valid)
qed

interpretation flags_branch: option_branch opt_flags
  by unfold_locales (auto simp: opt_flags_def Let_def split: if_splits intro!: keeps_intros cfg_wf_tables)

interpretation hold_branch: option_branch opt_hold
  by unfold_locales
    (auto simp: opt_hold_def bn_valid_def split: if_splits option.splits intro!: keeps_intros cfg_wf_tables)

interpretation kbmap_branch: option_branch opt_kbmap
proof
  fix key v r r'
  assume r': "opt_kbmap key v r = Some r'"
  have "length (fst (parse_kbmap ksym s ks)) = length ks" "snd (parse_kbmap ksym s ks) \<le> 8" for ksym s ks
    using parse_keys_bounds [of 0 ksym "take 255 s" ks] by (simp_all add: parse_kbmap_def)
  moreover have "length (kbmap c ! i) = 8" if "cfg_wf c" "i < 64" for c i
    using that by (auto simp: cfg_wf_def list_all_length)
  ultimately show "keeps key r r'"
    using r' by (auto simp: opt_kbmap_def keeps_def set_cfg_def set_opt_idx_def cf_alloc_def split_beta
        split: if_splits option.splits intro!: cfg_wf_kbmap)
qed

interpretation names_branch: option_branch opt_names
proof
  fix key v r r'
  assume r': "opt_names key v r = Some r'"
  show "keeps key r r'"
  proof (cases "key = ''device-id''")
    case True
    with r' show ?thesis
      by (auto simp: opt_names_def keeps_def set_cfg_def set_opt_def Let_def
          split: option.splits if_splits intro: cfg_wf_tables)
  next
    case False
    with r' show ?thesis
      by (auto simp: opt_names_def split: if_splits intro!: keeps_intros cfg_wf_tables)
  qed
qed

lemma try_keeps: "list_all option_branch bs \<Longrightarrow> keeps key r (try_branches bs key v r)"
  by (induction bs) (auto split: option.split dest: option_branch.br_keeps)

lemma branches_keep: "keeps key r (try_branches branches key v r)"
  by (rule try_keeps) (simp add: branches_def deadzone_branch.option_branch_axioms
      sensitivity_branch.option_branch_axioms invert_branch.option_branch_axioms
      axismap_branch.option_branch_axioms bnmap_branch.option_branch_axioms
      bnact_branch.option_branch_axioms kbmap_branch.option_branch_axioms
      flags_branch.option_branch_axioms names_branch.option_branch_axioms
      hold_branch.option_branch_axioms)

text \<open>The same for a whole line: it takes one slot, and writes only to that.\<close>

definition reader_ok :: "bool \<Rightarrow> nat \<Rightarrow> reader \<Rightarrow> bool" where
  \<comment> \<open>\<open>n\<close> bounds the identifiers read so far, \<open>flt\<close>: a fault had occurred before\<close>
  "reader_ok flt n r \<longleftrightarrow>
     cfg_wf (r_cfg r) \<and> cfglines (r_file r) \<noteq> None \<and> r_ndev r \<le> n \<and>
     (cf_fault (r_file r) \<longrightarrow> flt \<or> length (slots (r_file r)) < num_lines (r_file r) \<or> MAX_CUSTOM < r_ndev r)"

definition sets_device :: "string \<Rightarrow> bool" where
  \<comment> \<open>a line with the option \<open>device-id\<close>\<close>
  "sets_device chunk \<longleftrightarrow> (\<exists>val. key_val (line_str (cstr chunk)) = Some (''device-id'', val))"

lemma upd_slot_ok:
  "cfglines (upd_slot i g f) = None \<longleftrightarrow> cfglines f = None"
  "length (slots (upd_slot i g f)) = length (slots f)" "num_lines (upd_slot i g f) = num_lines f"
  "cf_fault (upd_slot i g f) \<longleftrightarrow> cf_fault f \<or> length (slots f) \<le> i"
  "cf_text (upd_slot i g f) = cf_text f" "cf_tick (upd_slot i g f) = cf_tick f"
  "cf_mem (upd_slot i g f) = cf_mem f" "cf_keysym (upd_slot i g f) = cf_keysym f"
  "cf_writable (upd_slot i g f) = cf_writable f"
  by (auto simp: upd_slot_def slots_def split: option.split)

lemma read_line_ok:
  assumes "reader_ok flt n r"
  shows "reader_ok flt (n + (if sets_device chunk then 1 else 0)) (read_line chunk r) \<and>
    length (slots (r_file (read_line chunk r))) = length (slots (r_file r)) \<and>
    num_lines (r_file (read_line chunk r)) = num_lines (r_file r) + 1"
proof -
  let ?i = "num_lines (r_file r)"
  define f where "f = snd (cf_alloc ((r_file r)\<lparr>num_lines := ?i + 1\<rparr>))"
  define ok where "ok = fst (cf_alloc ((r_file r)\<lparr>num_lines := ?i + 1\<rparr>))"
  define r1 where "r1 = (r\<lparr>r_file := f, r_line := (if ?i < length (slots f) then slots f ! ?i else calloc_line)\<rparr>)"
  define r2 where "r2 = r1\<lparr>r_line := (r_line r1)\<lparr>cl_str := if ok then Some (line_str (cstr chunk)) else None\<rparr>\<rparr>"
  define r3 where "r3 = (if \<not> ok then r2 else case key_val (line_str (cstr chunk)) of None \<Rightarrow> r2
      | Some (key, val) \<Rightarrow> try_branches branches key (parse_value val) r2)"
  have rl: "read_line chunk r = r3\<lparr>r_file := upd_slot ?i (\<lambda>_. r_line r3) (r_file r3)\<rparr>"
    by (simp add: read_line_def Let_def split_beta f_def ok_def r1_def r2_def r3_def cong: if_cong option.case_cong)
  have r2: "r_file r2 = f" "r_cfg r2 = r_cfg r" "r_ndev r2 = r_ndev r"
    by (simp_all add: r2_def r1_def)
  have f: "cfglines f = cfglines (r_file r)" "num_lines f = ?i + 1" "cf_fault f = cf_fault (r_file r)"
    by (simp_all add: f_def cf_alloc_def)
  have "(cfg_wf (r_cfg r2) \<longrightarrow> cfg_wf (r_cfg r3)) \<and> cfglines (r_file r3) = cfglines (r_file r2) \<and>
      num_lines (r_file r3) = num_lines (r_file r2) \<and> r_ndev r2 \<le> r_ndev r3 \<and>
      r_ndev r3 \<le> r_ndev r2 + (if sets_device chunk then 1 else 0) \<and>
      (cf_fault (r_file r3) \<longrightarrow> cf_fault (r_file r2) \<or> 64 < r_ndev r3)"
  proof (cases "\<not> ok \<or> key_val (line_str (cstr chunk)) = None")
    case True
    then show ?thesis by (auto simp: r3_def)
  next
    case False
    then obtain key val where kv: "key_val (line_str (cstr chunk)) = Some (key, val)" "ok" by auto
    with branches_keep [of key r2 "parse_value val"] show ?thesis
      by (auto simp: r3_def keeps_def sets_device_def split: if_splits)
  qed
  moreover from this have "slots (r_file r3) = slots (r_file r)" by (simp add: slots_def r2 f)
  ultimately show ?thesis
    using assms unfolding rl reader_ok_def by (auto simp: upd_slot_ok r2 f)
qed

lemma read_lines_ok:
  "reader_ok flt n r \<Longrightarrow> m = n + length (filter sets_device ls) \<Longrightarrow> reader_ok flt m (fold read_line ls r) \<and>
    length (slots (r_file (fold read_line ls r))) = length (slots (r_file r)) \<and>
    num_lines (r_file (fold read_line ls r)) = num_lines (r_file r) + length ls"
proof (induction ls arbitrary: n m r)
  case (Cons l ls)
  from read_line_ok [OF Cons.prems(1), of l] Cons.IH [of "n + (if sets_device l then 1 else 0)" "read_line l r" m]
    Cons.prems(2)
  show ?case by auto
qed simp

lemma file_lines_simp: "file_lines s = (if s = [] then [] else
    let l = take 511 (take (Suc (length (takeWhile (\<lambda>c. c \<noteq> CHR 0x0a) s))) s) in
    l # file_lines (drop (length l) s))"
  by (subst file_lines.simps) (simp add: fgets_def Let_def)

text \<open>A file whose lines fit into the buffer has one line more than newlines at most.\<close>

definition short_lines :: "string \<Rightarrow> bool" where
  "short_lines s \<longleftrightarrow> list_all (\<lambda>l. length l < 511 \<or> last l = CHR 0x0a) (file_lines s)"

lemma newlines_append [simp]: "newlines (a @ b) = newlines a + newlines b"
  by (simp add: newlines_def)

lemma take_line:
  fixes s :: string
  defines "k \<equiv> Suc (length (takeWhile (\<lambda>c. c \<noteq> CHR 0x0a) s))"
  shows "newlines (take k s) = (if CHR 0x0a \<in> set s then 1 else 0)" "CHR 0x0a \<notin> set s \<Longrightarrow> take k s = s"
    "CHR 0x0a \<in> set s \<Longrightarrow> k \<le> length s"
  unfolding k_def by (induction s) (auto simp: newlines_def)

lemma short_lines_count: "short_lines s \<Longrightarrow> length (file_lines s) \<le> newlines s + 1"
proof (induction s rule: file_lines.induct)
  case (1 s)
  show ?case
  proof (cases "s = []")
    case False
    define k where "k = Suc (length (takeWhile (\<lambda>c. c \<noteq> CHR 0x0a) s))"
    define l where "l = take 511 (take k s)"
    have fl: "file_lines s = l # file_lines (drop (length l) s)"
      using False by (subst file_lines_simp) (simp add: Let_def k_def l_def)
    have s: "s = l @ drop (length l) s"
      by (simp add: l_def min_def)
    have IH: "length (file_lines (drop (length l) s)) \<le> newlines (drop (length l) s) + 1"
      using 1 False fl by (simp add: fgets_def Let_def k_def l_def short_lines_def)
    show ?thesis
    proof (cases "newlines l = 0")
      case True
      have "length l < 511 \<or> last l = CHR 0x0a" using 1(2) fl by (simp add: short_lines_def)
      moreover have "l \<noteq> []" using False by (auto simp: l_def k_def)
      with True have "last l \<noteq> CHR 0x0a"
        by (auto simp: newlines_def filter_empty_conv dest: last_in_set)
      ultimately have "length l < 511" by simp
      then have "l = take k s" by (auto simp: l_def min_def split: if_splits)
      with True take_line [of s] have "l = s" by (auto simp: k_def split: if_splits)
      with fl show ?thesis by (simp add: file_lines_simp [of "[]"])
    next
      case False
      have "newlines s = newlines l + newlines (drop (length l) s)"
        using newlines_append [of l "drop (length l) s"] by (simp only: s [symmetric])
      with IH fl False show ?thesis by simp
    qed
  qed (simp add: file_lines_simp)
qed

lemma read_cfg_outcome:
  assumes "read_cfg f = (res, c, f')"
  shows "cfg_wf c \<and>
    (\<not> cf_fault f \<and>
      (\<forall>str. cf_text f = Some str \<longrightarrow>
        short_lines str \<and> length (filter sets_device (file_lines str)) \<le> MAX_CUSTOM) \<longrightarrow>
     \<not> cf_fault f' \<and> (res = 0 \<longrightarrow> num_lines f' + NUM_EXTRA_LINES \<le> length (slots f') + 1))"
proof -
  have def: "cfg_wf default_cfg"
    by (auto simp: cfg_wf_def default_cfg_def list_all_iff bn_valid_def bnact_valid_def)
  show ?thesis
  proof (cases "cf_text f")
    case None
    with assms def show ?thesis by (auto simp: read_cfg_def)
  next
    case (Some str)
    show ?thesis
    proof (cases "cf_mem f (cf_tick f)")
      case False
      with assms def Some show ?thesis by (auto simp: read_cfg_def cf_alloc_def)
    next
      case True
      let ?n = "if newlines str = 0 then 1 else newlines str"
      define r where "r = \<lparr>r_cfg = default_cfg, r_line = calloc_line, r_ndev = 0,
          r_file = f\<lparr>cf_tick := cf_tick f + 1, cfglines := Some (replicate (?n + NUM_EXTRA_LINES) calloc_line),
                     num_lines := 0\<rparr>\<rparr>"
      let ?r = "fold read_line (file_lines str) r"
      let ?m = "length (filter sets_device (file_lines str))"
      have res: "res = 0" "c = r_cfg ?r" "f' = r_file ?r"
        using assms True Some by (auto simp: read_cfg_def cf_alloc_def Let_def r_def)
      have "reader_ok (cf_fault f) 0 r" using def by (simp add: reader_ok_def r_def)
      from read_lines_ok [OF this refl, of "file_lines str"]
      have r: "reader_ok (cf_fault f) ?m ?r" "length (slots (r_file ?r)) = ?n + NUM_EXTRA_LINES"
        "num_lines (r_file ?r) = length (file_lines str)"
        by (simp_all add: r_def slots_def)
      have "cfg_wf c" using r(1) res by (simp add: reader_ok_def)
      moreover have "\<not> cf_fault f' \<and> num_lines f' + NUM_EXTRA_LINES \<le> length (slots f') + 1"
        if "\<not> cf_fault f" "short_lines str" "?m \<le> MAX_CUSTOM"
      proof -
        from short_lines_count [OF that(2)] have "length (file_lines str) \<le> ?n + 1" by simp
        moreover have "1 < NUM_EXTRA_LINES" by (simp add: NUM_EXTRA_LINES_def)
        ultimately show ?thesis using r that res by (auto simp: reader_ok_def)
      qed
      ultimately show ?thesis using Some res by simp
    qed
  qed
qed


definition sample_file :: "string \<Rightarrow> cfgfile" where
  \<comment> \<open>before the first reading; the keys are the letters, with their codes\<close>
  "sample_file text = \<lparr>cfglines = None, num_lines = 0, cf_text = Some text, cf_writable = True,
     cf_keysym = (\<lambda>s. if length s = 1 then of_nat (byte (hd s)) else 0), cf_mem = (\<lambda>_. True), cf_tick = 0,
     cf_fault = False\<rparr>"


end
