(* ===== verification/StrProto.thy ===== *)
theory StrProto
  imports Prelude
begin

text \<open>
  Requests and responses of protocol version 1 (\<open>struct reqresp\<close>, src/proto.h) and the transfer
  of strings in several packets (src/proto.c). A packet has a type and seven data items; a
  string travels in the 24 bytes of items 0 to 5, item 6 holds the remaining length in its low
  16 bits and a flag in bit 16 that is set on every packet but the first. The receiver keeps
  \<open>struct reqresp_strbuf\<close>: a heap buffer, the write position in it (an offset), its size and the
  number of bytes still expected.
\<close>

unbundle bit_operations_syntax

record reqresp =
  rr_type :: u32
  rr_data :: "u32 list"

abbreviation (input) REQSTR_CHUNK_SIZE :: nat where "REQSTR_CHUNK_SIZE \<equiv> 24"
abbreviation (input) REQSTR_CONT_BIT :: u32 where "REQSTR_CONT_BIT \<equiv> 0x10000"

definition reqstr_first :: "reqresp \<Rightarrow> bool" where
  "reqstr_first rr \<longleftrightarrow> rr_data rr ! 6 AND REQSTR_CONT_BIT = 0"

definition reqstr_remlen :: "reqresp \<Rightarrow> int" where
  "reqstr_remlen rr = uint (rr_data rr ! 6 AND 0xffff)"

section \<open>Bytes of a packet\<close>

definition data_chars :: "u32 list \<Rightarrow> char list" where
  \<comment> \<open>the 24 bytes at the start of the data items\<close>
  "data_chars d = concat (map le_chars (take 6 d))"

definition put_chars :: "u32 list \<Rightarrow> char list \<Rightarrow> u32 list" where
  \<comment> \<open>\<open>memcpy(rr.data, str, n)\<close> with \<open>n \<le> 24\<close>: the bytes after the first \<open>n\<close> stay\<close>
  "put_chars d cs =
     (let bs = cs @ drop (length cs) (data_chars d) in
      map (\<lambda>i. le_word (take 4 (drop (4 * i) bs))) [0..<6] @ drop 6 d)"

definition put_at :: "nat \<Rightarrow> char list \<Rightarrow> char list \<Rightarrow> char list" where
  \<comment> \<open>\<open>memcpy(buf + i, cs, length cs)\<close>; a write beyond the end of the buffer makes it longer\<close>
  "put_at i cs buf = take i buf @ cs @ drop (i + length cs) buf"

section \<open>Sending and receiving\<close>

function send_chunks :: "u32 \<Rightarrow> u32 list \<Rightarrow> string option \<Rightarrow> int \<Rightarrow> reqresp list" where
  "send_chunks ty d str len =
     (let d' = (case str of None \<Rightarrow> d
                | Some s \<Rightarrow> put_chars d (take (if len > 24 then 24 else nat len) s));
          len' = len - int REQSTR_CHUNK_SIZE in
      \<lparr>rr_type = ty, rr_data = d'\<rparr> #
      (if len' > 0
       then send_chunks ty (d'[6 := w32 len' OR REQSTR_CONT_BIT])
              (map_option (drop REQSTR_CHUNK_SIZE) str) len'
       else []))"
  by pat_completeness auto
termination
  by (relation "measure (\<lambda>(ty, d, str, len). nat len)") auto

declare send_chunks.simps [simp del]

definition spnav_send_str :: "int \<Rightarrow> u32 \<Rightarrow> string option \<Rightarrow> int \<times> reqresp list" where
  \<comment> \<open>the result and the packets written to \<open>fd\<close>\<close>
  "spnav_send_str fd req str =
     (if fd = - 1 then (- 1, [])
      else
        let len = (case str of None \<Rightarrow> 0 | Some s \<Rightarrow> int (length s)) in
        (0, send_chunks req ((replicate 7 0)[6 := w32 len]) str len))"

record strbuf =
  s_buf :: "char list option"
  s_endp :: "nat option"
  s_size :: int
  s_expect :: int

definition strbuf_init :: strbuf where
  "strbuf_init = \<lparr>s_buf = None, s_endp = None, s_size = 0, s_expect = 0\<rparr>"

definition recv_alloc :: "bool \<Rightarrow> strbuf \<Rightarrow> int \<Rightarrow> strbuf" where
  \<comment> \<open>the first packet: free the old buffer, allocate one for the announced length\<close>
  "recv_alloc ok sb len =
     (let sb' = sb\<lparr>s_expect := len, s_size := len + 1\<rparr> in
      if ok then sb'\<lparr>s_buf := Some (replicate (nat (len + 1)) NUL), s_endp := Some 0\<rparr>
      else sb'\<lparr>s_buf := None\<rparr>)"

definition recv_copy :: "strbuf \<Rightarrow> reqresp \<Rightarrow> int \<Rightarrow> int \<times> strbuf" where
  "recv_copy sb rr len =
     (case (s_buf sb, s_endp sb) of
        (Some b, Some e) \<Rightarrow>
          if s_size sb = 0 then (- 1, sb)
          else if int e \<ge> s_size sb then (- 1, sb)
          else if s_expect sb > s_size sb then (- 1, sb)
          else if len \<noteq> s_expect sb then (- 1, sb)
          else
            let n = (if len > int REQSTR_CHUNK_SIZE then REQSTR_CHUNK_SIZE else nat len);
                b' = put_at e (take n (data_chars (rr_data rr))) b;
                sb' = sb\<lparr>s_buf := Some b', s_endp := Some (e + n), s_expect := s_expect sb - int n\<rparr>
            in if s_expect sb' < 0 then (- 1, sb')
               else if s_expect sb' = 0 then (1, sb'\<lparr>s_buf := Some (put_at (e + n) [NUL] b')\<rparr>)
               else (0, sb')
      | _ \<Rightarrow> (- 1, sb))"

definition spnav_recv_str :: "bool \<Rightarrow> strbuf \<Rightarrow> reqresp \<Rightarrow> int \<times> strbuf" where
  \<comment> \<open>\<open>ok\<close>: whether \<open>malloc\<close> succeeds, where it is called\<close>
  "spnav_recv_str ok sb rr =
     (if sint (rr_data rr ! 6) < 0 then (- 1, sb)
      else
        let len = reqstr_remlen rr in
        if reqstr_first rr then
          (let sb' = recv_alloc ok sb len in if ok then recv_copy sb' rr len else (- 1, sb'))
        else recv_copy sb rr len)"

fun recv_all :: "strbuf \<Rightarrow> reqresp list \<Rightarrow> int list \<times> strbuf" where
  "recv_all sb [] = ([], sb)"
| "recv_all sb (rr # rrs) =
     (let (r, sb') = spnav_recv_str True sb rr; (rs, sb'') = recv_all sb' rrs in (r # rs, sb''))"

section \<open>Memory safety of the receiver\<close>

text \<open>
  The buffer, while there is one, has the size the structure says, and the write position
  leaves room for the bytes still expected and the terminator.
\<close>

definition strbuf_wf :: "strbuf \<Rightarrow> bool" where
  "strbuf_wf sb \<longleftrightarrow>
     (case s_buf sb of None \<Rightarrow> True
      | Some b \<Rightarrow> \<exists>e. s_endp sb = Some e \<and> 0 \<le> s_expect sb \<and>
          int (length b) = s_size sb \<and> int e + s_expect sb + 1 = s_size sb)"

lemma length_data_chars: "length d = 7 \<Longrightarrow> length (data_chars d) = 24"
  by (simp add: data_chars_def length_concat comp_def sum_list_triv)

lemma length_put_at [simp]: "i + length cs \<le> length b \<Longrightarrow> length (put_at i cs b) = length b"
  by (simp add: put_at_def)

lemma reqstr_remlen_range: "0 \<le> reqstr_remlen rr \<and> reqstr_remlen rr < 65536"
proof -
  have "uint (rr_data rr ! 6 AND 0xffff) \<le> uint (0xffff :: u32)"
    by (intro word_and_le1 [THEN word_le_def [THEN iffD1]])
  then show ?thesis by (simp add: reqstr_remlen_def)
qed

lemma recv_alloc_wf: "0 \<le> len \<Longrightarrow> strbuf_wf (recv_alloc ok sb len)"
  by (simp add: recv_alloc_def strbuf_wf_def Let_def)

lemma recv_copy_wf:
  assumes "strbuf_wf sb" and "length (rr_data rr) = 7"
  shows "strbuf_wf (snd (recv_copy sb rr len))"
proof (cases "s_buf sb")
  case None
  then show ?thesis using assms by (simp add: recv_copy_def)
next
  case (Some b)
  with assms(1) obtain e where "s_endp sb = Some e" "0 \<le> s_expect sb"
    "int (length b) = s_size sb" "int e + s_expect sb + 1 = s_size sb"
    by (auto simp: strbuf_wf_def)
  with Some assms length_data_chars [OF assms(2)] show ?thesis
    by (auto simp: recv_copy_def Let_def strbuf_wf_def split: if_splits)
qed

lemma recv_str_wf [wf_intros]:
  "strbuf_wf sb \<Longrightarrow> length (rr_data rr) = 7 \<Longrightarrow> strbuf_wf (snd (spnav_recv_str ok sb rr))"
  using reqstr_remlen_range [of rr]
  by (auto simp: spnav_recv_str_def Let_def intro: recv_copy_wf recv_alloc_wf)

section \<open>What is sent is what is received\<close>

lemma concat_blocks: "concat (map (\<lambda>i. take k (drop (k * i) bs)) [0..<n]) = take (k * n) bs"
proof (induction n)
  case (Suc n)
  have "take (k * Suc n) bs = take (k * n) bs @ take k (drop (k * n) bs)"
    by (metis add.commute mult_Suc_right take_add)
  with Suc show ?case by simp
qed simp

lemma data_chars_put:
  assumes "length d = 7" "length cs \<le> 24"
  shows "data_chars (put_chars d cs) = cs @ drop (length cs) (data_chars d)"
proof -
  define bs where "bs = cs @ drop (length cs) (data_chars d)"
  have len: "length bs = 24" using assms by (simp add: bs_def length_data_chars)
  have "data_chars (put_chars d cs)
      = concat (map (\<lambda>i. le_chars (le_word (take 4 (drop (4 * i) bs)))) [0..<6])"
    unfolding put_chars_def bs_def [symmetric] Let_def by (simp add: data_chars_def comp_def)
  also have "\<dots> = concat (map (\<lambda>i. take 4 (drop (4 * i) bs)) [0..<6])"
    using len by (intro arg_cong [where f = concat] map_cong refl le_chars_word) auto
  also have "\<dots> = bs" using len by (simp only: concat_blocks) simp
  finally show ?thesis by (simp add: bs_def)
qed

lemma length_put_chars: "length d = 7 \<Longrightarrow> length (put_chars d cs) = 7"
  by (simp add: put_chars_def Let_def)

lemma put_chars_6: "length d = 7 \<Longrightarrow> put_chars d cs ! 6 = d ! 6"
  by (simp add: put_chars_def Let_def nth_append)

lemma remlen_low: "0 \<le> n \<Longrightarrow> n < 65536 \<Longrightarrow> uint (w32 n AND 0xffff) = n"
proof -
  assume a: "0 \<le> n" "n < 65536"
  have "w32 n AND 0xffff = take_bit 16 (w32 n)"
    by (simp only: take_bit_eq_mask) (simp add: mask_eq_exp_minus_1)
  moreover have "uint (w32 n) = n" using a by (simp add: w32_def uint_word_of_int)
  ultimately show ?thesis using a by (simp only: unsigned_take_bit_eq) (simp add: take_bit_eq_mod)
qed

lemma bit_w32_high: "0 \<le> n \<Longrightarrow> n < 65536 \<Longrightarrow> 16 \<le> i \<Longrightarrow> \<not> bit (w32 n) i"
proof -
  assume a: "0 \<le> n" "n < 65536" "16 \<le> i"
  then have "n = take_bit 16 n" by (simp add: take_bit_eq_mod)
  then have "\<not> bit n i" using a(3) by (metis bit_take_bit_iff not_le)
  then show ?thesis by (simp add: w32_def bit_word_of_int_iff)
qed

lemma sint_neg_bit: "sint (w :: u32) < 0 \<longleftrightarrow> bit w 31"
  using bit_last_iff [of w] by simp

lemma cont_bit_clear: "w AND REQSTR_CONT_BIT = 0 \<longleftrightarrow> \<not> bit (w :: u32) 16"
  using and_exp_eq_0_iff_not_bit [of w 16] by simp

lemma cont_bit_set: "bit (w OR REQSTR_CONT_BIT :: u32) i \<longleftrightarrow> bit w i \<or> i = 16"
  using bit_exp_iff [of 16 i, where 'a = u32] by (auto simp: bit_or_iff)

lemma remlen_cont: "(w OR REQSTR_CONT_BIT) AND 0xffff = (w :: u32) AND 0xffff"
  by (simp add: bit.conj_disj_distrib2)

lemmas header_simps = remlen_low bit_w32_high sint_neg_bit cont_bit_clear cont_bit_set remlen_cont

definition recv_ready :: "strbuf \<Rightarrow> char list \<Rightarrow> nat \<Rightarrow> nat \<Rightarrow> bool" where
  \<comment> \<open>\<open>e\<close> characters are in the buffer \<open>b\<close>, \<open>n\<close> are still expected\<close>
  "recv_ready sb b e n \<longleftrightarrow>
     s_buf sb = Some b \<and> s_endp sb = Some e \<and> s_expect sb = int n \<and>
     s_size sb = int (e + n + 1) \<and> length b = e + n + 1"

lemma recv_copy_last:
  assumes "recv_ready sb b e (length s)" "length s \<le> 24" "take (length s) (data_chars (rr_data rr)) = s"
  shows "recv_copy sb rr (int (length s)) = (1, sb\<lparr>s_buf := Some (take e b @ s @ [NUL]),
     s_endp := Some (e + length s), s_expect := 0\<rparr>)"
proof -
  have "length (take (length s) (data_chars (rr_data rr))) = length s" by (simp only: assms(3))
  with assms show ?thesis by (auto simp: recv_copy_def recv_ready_def Let_def put_at_def min_def)
qed

lemma recv_copy_chunk:
  assumes "recv_ready sb b e n" "24 < n" "take 24 (data_chars (rr_data rr)) = cs" "length cs = 24"
  shows "\<exists>sb'. recv_copy sb rr (int n) = (0, sb') \<and> recv_ready sb' (put_at e cs b) (e + 24) (n - 24)"
  using assms by (auto simp: recv_copy_def recv_ready_def Let_def)

lemma recv_cont:
  "rr_data rr ! 6 = w32 (int n) OR REQSTR_CONT_BIT \<Longrightarrow> n < 65536 \<Longrightarrow>
   spnav_recv_str ok sb rr = recv_copy sb rr (int n)"
  by (simp add: spnav_recv_str_def reqstr_first_def reqstr_remlen_def header_simps)

lemma recv_first:
  "rr_data rr ! 6 = w32 (int n) \<Longrightarrow> n < 65536 \<Longrightarrow>
   spnav_recv_str True sb rr = recv_copy (recv_alloc True sb (int n)) rr (int n)"
  by (simp add: spnav_recv_str_def reqstr_first_def reqstr_remlen_def header_simps Let_def)

lemma recv_alloc_ready:
  "recv_ready (recv_alloc True sb (int n)) (replicate (n + 1) NUL) 0 n"
  by (simp add: recv_ready_def recv_alloc_def Let_def nat_add_distrib)

lemma send_chunks_Some:
  "send_chunks ty d (Some s) (int (length s)) =
     \<lparr>rr_type = ty, rr_data = put_chars d (take 24 s)\<rparr> #
     (if 24 < length s
      then send_chunks ty ((put_chars d (take 24 s))[6 := w32 (int (length s - 24)) OR REQSTR_CONT_BIT])
             (Some (drop 24 s)) (int (length (drop 24 s)))
      else [])"
proof -
  have "take (if int (length s) > 24 then 24 else nat (int (length s))) s = take 24 s" by simp
  then show ?thesis
    by (subst send_chunks.simps) (simp add: Let_def of_nat_diff)
qed

lemma recv_chunks:
  assumes "recv_ready sb b e (length s)" "length d = 7" "length s < 65536"
    and "\<And>rr. rr_data rr ! 6 = d ! 6 \<Longrightarrow>
      spnav_recv_str True sb0 rr = recv_copy sb rr (int (length s))"
  shows "\<exists>sb'. recv_all sb0 (send_chunks ty d (Some s) (int (length s)))
    = (replicate ((length s - 1) div 24) 0 @ [1], sb') \<and> s_buf sb' = Some (take e b @ s @ [NUL])"
  using assms
proof (induction "length s" arbitrary: s sb0 sb b e d rule: less_induct)
  case less
  let ?rr = "\<lparr>rr_type = ty, rr_data = put_chars d (take 24 s)\<rparr>"
  have recv: "spnav_recv_str True sb0 ?rr = recv_copy sb ?rr (int (length s))"
    using less.prems(2) by (intro less.prems(4)) (simp add: put_chars_6)
  have dc: "data_chars (rr_data ?rr) = take 24 s @ drop (length (take 24 s)) (data_chars d)"
    using less.prems(2) by (simp add: data_chars_put)
  show ?case
  proof (cases "24 < length s")
    case False
    with less.prems(1) dc have "recv_copy sb ?rr (int (length s))
        = (1, sb\<lparr>s_buf := Some (take e b @ s @ [NUL]), s_endp := Some (e + length s), s_expect := 0\<rparr>)"
      by (intro recv_copy_last) auto
    with False recv show ?thesis by (simp add: send_chunks_Some)
  next
    case True
    let ?s = "drop 24 s"
    obtain sb' where sb': "recv_copy sb ?rr (int (length s)) = (0, sb')"
      and "recv_ready sb' (put_at e (take 24 s) b) (e + 24) (length s - 24)"
      using recv_copy_chunk [OF less.prems(1) True, of ?rr "take 24 s"] dc True by auto
    then have ready: "recv_ready sb' (put_at e (take 24 s) b) (e + 24) (length ?s)" by simp
    let ?d = "(put_chars d (take 24 s))[6 := w32 (int (length ?s)) OR REQSTR_CONT_BIT]"
    have d: "length ?d = 7" using less.prems(2) by (simp add: length_put_chars)
    have "spnav_recv_str True sb' rr = recv_copy sb' rr (int (length ?s))"
      if "rr_data rr ! 6 = ?d ! 6" for rr
      using that less.prems(2,3) by (intro recv_cont) (simp_all add: length_put_chars)
    with less.hyps [OF _ ready d] True less.prems(3)
    obtain sb'' where "recv_all sb' (send_chunks ty ?d (Some ?s) (int (length ?s)))
        = (replicate ((length ?s - 1) div 24) 0 @ [1], sb'')"
      and buf: "s_buf sb'' = Some (take (e + 24) (put_at e (take 24 s) b) @ ?s @ [NUL])"
      by fastforce
    moreover have "(length s - 1) div 24 = Suc ((length ?s - 1) div 24)"
      using True by (simp add: div_if [of "length s - 1"])
    moreover have "take 24 s @ ?s @ [NUL] = s @ [NUL]"
      by (metis append.assoc append_take_drop_id)
    then have "take (e + 24) (put_at e (take 24 s) b) @ ?s @ [NUL] = take e b @ s @ [NUL]"
      using True less.prems(1) by (simp add: put_at_def recv_ready_def)
    ultimately show ?thesis
      using True recv sb' by (simp add: send_chunks_Some)
  qed
qed

lemma send_recv:
  assumes "fd \<noteq> - 1" "length s < 65536"
  shows "\<exists>sb'. recv_all sb (snd (spnav_send_str fd ty (Some s)))
    = (replicate ((length s - 1) div 24) 0 @ [1], sb') \<and> s_buf sb' = Some (s @ [NUL])"
proof -
  let ?d = "(replicate 7 0)[6 := w32 (int (length s))]"
  let ?sb = "recv_alloc True sb (int (length s))"
  have "spnav_recv_str True sb rr = recv_copy ?sb rr (int (length s))" if "rr_data rr ! 6 = ?d ! 6" for rr
    using that assms(2) by (intro recv_first) simp_all
  from recv_chunks [OF recv_alloc_ready _ assms(2), of ?d sb sb ty, OF _ this] assms
  show ?thesis by (simp add: spnav_send_str_def Let_def)
qed

section \<open>The channel as its users see it\<close>

locale string_channel =
  fixes send :: "string \<Rightarrow> 'p list"
    and rx :: "'s \<Rightarrow> 'p list \<Rightarrow> int list \<times> 's"
    and content :: "'s \<Rightarrow> char list option"
    and sendable :: "string \<Rightarrow> bool"
  assumes delivered: "sendable str \<Longrightarrow>
      \<exists>n st'. rx st (send str) = (replicate n 0 @ [1], st') \<and> content st' = Some (str @ [NUL])"
    and rx_append: "rx st (ps @ qs) =
      (fst (rx st ps) @ fst (rx (snd (rx st ps)) qs), snd (rx (snd (rx st ps)) qs))"
begin

lemma resync: "sendable str \<Longrightarrow> content (snd (rx st (ps @ send str))) = Some (str @ [NUL])"
  using delivered [of str "snd (rx st ps)"] by (auto simp: rx_append)

lemma resync_result: "sendable str \<Longrightarrow> last (fst (rx st (ps @ send str))) = 1"
  using delivered [of str "snd (rx st ps)"] by (auto simp: rx_append)

lemma completions:
  "list_all sendable strs \<Longrightarrow>
   (\<And>st. rx st [] = ([], st)) \<Longrightarrow>
   count_list (fst (rx st (concat (map send strs)))) 1 = length strs"
proof (induction strs arbitrary: st)
  case (Cons s strs)
  obtain n st' where "rx st (send s) = (replicate n 0 @ [1], st')"
    using delivered [of s st] Cons.prems(1) by auto
  moreover have "count_list (replicate n 0) (1 :: int) = 0" by (induction n) simp_all
  ultimately show ?case using Cons by (simp add: rx_append)
qed simp

end

lemma recv_all_append:
  "recv_all sb (ps @ qs) =
    (fst (recv_all sb ps) @ fst (recv_all (snd (recv_all sb ps)) qs),
     snd (recv_all (snd (recv_all sb ps)) qs))"
  by (induction ps arbitrary: sb) (simp_all add: Let_def split_beta)

interpretation unix_channel:
  string_channel "\<lambda>s. snd (spnav_send_str 0 ty (Some s))" recv_all s_buf "\<lambda>s. length s < 65536"
  for ty
proof
  show "\<exists>n st'. recv_all st (snd (spnav_send_str 0 ty (Some str))) = (replicate n 0 @ [1], st') \<and>
      s_buf st' = Some (str @ [NUL])" if "length str < 65536" for str st
    using send_recv [of 0 str st ty] that by auto
qed (rule recv_all_append)

interpretation recv_step:
  step_invariant "\<lambda>(ok, rr) sb. if length (rr_data rr) = 7 then snd (spnav_recv_str ok sb rr) else sb"
    strbuf_wf
  by unfold_locales (auto intro: wf_intros)

text \<open>
  C10: a string of at most 65535 characters that \<open>spnav_send_str\<close> cuts into packets
  is reassembled by \<open>spnav_recv_str\<close>: every packet but the last reports that more is to come, the
  last reports completion, the number of packets is that of the 24 byte chunks, and the buffer
  then holds the string and its terminator. Nothing is assumed about the receiver's state before.
\<close>

theorem string_transfer_roundtrip:
  assumes "fd \<noteq> - 1" "length str < 65536"
  shows "\<exists>sb'. recv_all sb (snd (spnav_send_str fd ty (Some str)))
      = (replicate ((length str - 1) div 24) 0 @ [1], sb')
    \<and> s_buf sb' = Some (str @ [NUL])"
  by (rule send_recv [OF assms])

theorem string_transfer_roundtrip_witness:
  "\<exists>sb'. recv_all strbuf_init (snd (spnav_send_str 4 0x2000 (Some ''SpaceNavigator for Notebooks'')))
      = ([0, 1], sb') \<and> s_buf sb' = Some (''SpaceNavigator for Notebooks'' @ [NUL])"
  using string_transfer_roundtrip [where fd = 4 and str = "''SpaceNavigator for Notebooks''"
      and sb = strbuf_init and ty = "0x2000"] by simp

text \<open>
  C11: whatever packets arrive, in whatever order and with whatever lengths, and
  whether or not the allocations succeed, the receiver never writes outside its buffer: the
  buffer keeps the size recorded for it, with the write position and the bytes still expected
  inside it (a write past the end would make the modelled buffer longer).
\<close>

theorem recv_memory_safe:
  assumes "\<And>ok rr. (ok, rr) \<in> set evs \<Longrightarrow> length (rr_data rr) = 7"
  shows "strbuf_wf (fold (\<lambda>(ok, rr) sb. snd (spnav_recv_str ok sb rr)) evs strbuf_init)"
proof -
  have "fold (\<lambda>(ok, rr) sb. snd (spnav_recv_str ok sb rr)) evs sb
      = fold (\<lambda>(ok, rr) sb. if length (rr_data rr) = 7 then snd (spnav_recv_str ok sb rr) else sb) evs sb"
    for sb using assms by (intro fold_cong) auto
  note eq = this
  have "strbuf_wf strbuf_init" by (simp add: strbuf_wf_def strbuf_init_def)
  then show ?thesis unfolding eq by (rule recv_step.run_inv)
qed

theorem recv_memory_safe_witness:
  "strbuf_wf (fold (\<lambda>(ok, rr) sb. snd (spnav_recv_str ok sb rr))
     [(True, \<lparr>rr_type = 0x1000, rr_data = [1, 2, 3, 4, 5, 6, 0x64]\<rparr>),
      (True, \<lparr>rr_type = 0x1000, rr_data = [1, 2, 3, 4, 5, 6, 0x1ffff]\<rparr>),
      (False, \<lparr>rr_type = 0x1000, rr_data = [0, 0, 0, 0, 0, 0, 0xffff]\<rparr>)] strbuf_init)"
  by (rule recv_memory_safe) auto

text \<open>
  A transfer that was cut short or garbled does not poison the ones after it:
  after any packets at all, sending a string completes and delivers that string.
\<close>

theorem recv_resynchronises:
  assumes "length str < 65536"
  shows "last (fst (recv_all sb (junk @ snd (spnav_send_str 0 ty (Some str))))) = 1 \<and>
    s_buf (snd (recv_all sb (junk @ snd (spnav_send_str 0 ty (Some str))))) = Some (str @ [NUL])"
  using unix_channel.resync [of str] unix_channel.resync_result [of str] assms by blast

theorem recv_resynchronises_witness:
  "s_buf (snd (recv_all strbuf_init
     ([\<lparr>rr_type = 0x1000, rr_data = [1, 2, 3, 4, 5, 6, 0x1ffff]\<rparr>,
       \<lparr>rr_type = 0x1000, rr_data = [1, 2, 3, 4, 5, 6, 0x64]\<rparr>]
      @ snd (spnav_send_str 0 0x1000 (Some ''blender''))))) = Some (''blender'' @ [NUL])"
  by (rule recv_resynchronises [THEN conjunct2]) simp

end
