(* ===== verification/Device.thy ===== *)
theory Device
  imports Config
begin

text \<open>
  The data a device driver works on: \<open>struct dev_input\<close> (src/event.h), \<open>struct sball\<close>
  (src/dev_serial.c), \<open>struct device\<close> (src/dev.h), and the static knowledge about USB devices of
  src/dev.c: the table of known devices, the blacklist, the matching predicate that selects the
  devices to open, and the functions that renumber the buttons of devices with scattered button
  codes. A function pointer of \<open>struct device\<close> is the driver whose function it holds; the address
  of a node is the natural number \<open>d_addr\<close>, which stands for the pointer. \<open>d_dangling\<close>: the object that
  \<open>data\<close> points to has been freed.
\<close>

unbundle bit_operations_syntax

section \<open>Input events\<close>

datatype inp_type = INP_MOTION | INP_BUTTON | INP_FLUSH

record dev_input =
  inp_type :: inp_type
  inp_idx :: int
  inp_val :: int

section \<open>Devices\<close>

datatype sb_proto = Sball | Mag

record sball =
  sb_fd :: int
  sb_flags :: u32
  sb_buf :: "char list"
  sb_len :: nat
  sb_mot :: "int list"
  sb_keystate :: u32
  sb_keymask :: u32
  sb_evqueue :: "dev_input list"
  evq_rd :: nat
  evq_wr :: nat
  sb_parse :: "sb_proto option"

datatype driver = Serial_driver | Evdev_driver

datatype bnhack = Bnhack_smpro | Bnhack_sment

record device =
  d_addr :: nat
  d_id :: int
  d_fd :: int
  d_data :: "sball option"
  d_dangling :: bool
  d_name :: string
  d_path :: string
  d_type :: int
  d_usbid :: "u32 \<times> u32"
  d_flags :: u32
  num_axes :: int
  num_buttons :: int
  bnbase :: int
  minval :: "int list"
  maxval :: "int list"
  fuzz :: "int list"
  d_close :: "driver option"
  d_read :: "driver option"
  d_set_led :: "driver option"
  d_bnhack :: "bnhack option"

definition get_device_fd :: "device option \<Rightarrow> int" where
  "get_device_fd dev = (case dev of None \<Rightarrow> - 1 | Some d \<Rightarrow> d_fd d)"

definition is_device_valid :: "device option \<Rightarrow> bool" where
  "is_device_valid dev \<longleftrightarrow> get_device_fd dev \<ge> 0"

section \<open>Device types (\<open>enum DEV_*\<close> of src/proto.h) and flags\<close>

abbreviation (input) DEV_UNKNOWN :: int where "DEV_UNKNOWN \<equiv> 0"
abbreviation (input) DEV_SB2003 :: int where "DEV_SB2003 \<equiv> 0x100"
abbreviation (input) DEV_SB3003 :: int where "DEV_SB3003 \<equiv> 0x101"
abbreviation (input) DEV_SB4000 :: int where "DEV_SB4000 \<equiv> 0x102"
abbreviation (input) DEV_SM :: int where "DEV_SM \<equiv> 0x103"
abbreviation (input) DEV_SM5000 :: int where "DEV_SM5000 \<equiv> 0x104"
abbreviation (input) DEV_SMCADMAN :: int where "DEV_SMCADMAN \<equiv> 0x105"
abbreviation (input) DEV_PLUSXT :: int where "DEV_PLUSXT \<equiv> 0x200"
abbreviation (input) DEV_CADMAN :: int where "DEV_CADMAN \<equiv> 0x201"
abbreviation (input) DEV_SMCLASSIC :: int where "DEV_SMCLASSIC \<equiv> 0x202"
abbreviation (input) DEV_SB5000 :: int where "DEV_SB5000 \<equiv> 0x203"
abbreviation (input) DEV_STRAVEL :: int where "DEV_STRAVEL \<equiv> 0x204"
abbreviation (input) DEV_SPILOT :: int where "DEV_SPILOT \<equiv> 0x205"
abbreviation (input) DEV_SNAV :: int where "DEV_SNAV \<equiv> 0x206"
abbreviation (input) DEV_SEXP :: int where "DEV_SEXP \<equiv> 0x207"
abbreviation (input) DEV_SNAVNB :: int where "DEV_SNAVNB \<equiv> 0x208"
abbreviation (input) DEV_SPILOTPRO :: int where "DEV_SPILOTPRO \<equiv> 0x209"
abbreviation (input) DEV_SMPRO :: int where "DEV_SMPRO \<equiv> 0x20a"
abbreviation (input) DEV_NULOOQ :: int where "DEV_NULOOQ \<equiv> 0x20b"
abbreviation (input) DEV_SMW :: int where "DEV_SMW \<equiv> 0x20c"
abbreviation (input) DEV_SMPROW :: int where "DEV_SMPROW \<equiv> 0x20d"
abbreviation (input) DEV_SMENT :: int where "DEV_SMENT \<equiv> 0x20e"
abbreviation (input) DEV_SMCOMP :: int where "DEV_SMCOMP \<equiv> 0x20f"
abbreviation (input) DEV_SMMOD :: int where "DEV_SMMOD \<equiv> 0x210"

abbreviation (input) DF_SWAPYZ :: u32 where "DF_SWAPYZ \<equiv> 1"
abbreviation (input) DF_INVYZ :: u32 where "DF_INVYZ \<equiv> 2"
abbreviation (input) DF_6DOF :: u32 where "DF_6DOF \<equiv> 3" \<comment> \<open>\<open>DF_SWAPYZ | DF_INVYZ\<close>\<close>

abbreviation (input) VID_3DCONN :: u32 where "VID_3DCONN \<equiv> 0x256f"
abbreviation (input) PID_WIRELESS :: u32 where "PID_WIRELESS \<equiv> 0xc652"

section \<open>Renumbering the buttons\<close>

definition smpro_table :: "(int \<times> int) list" where
  "smpro_table =
     [(256, 4), (257, 5), (258, 6), (260, 7), (261, 8), (264, 9), (268, 0), (269, 1), (270, 2),
      (271, 3), (278, 11), (279, 12), (280, 13), (281, 14), (282, 10)]"

definition bnhack_smpro :: "int \<Rightarrow> int" where
  "bnhack_smpro bn =
     (if bn < 0 then 15
      else case search (\<lambda>e. fst e = bn) smpro_table of Some e \<Rightarrow> snd e | None \<Rightarrow> - 1)"

definition sment_table :: "(int \<times> int) list" where
  "sment_table =
     [(256, 12), (257, 13), (258, 14), (260, 15), (261, 16), (264, 17),
      (266, 30),
      (268, 0), (269, 1), (270, 2), (271, 3), (272, 4), (273, 5), (274, 6), (275, 7), (276, 8),
      (277, 9),
      (278, 18), (279, 19), (280, 20), (281, 21), (282, 22),
      (291, 23), (292, 24),
      (332, 10), (333, 11),
      (358, 27), (359, 28), (360, 29),
      (430, 25), (431, 26)]"

definition bnhack_sment :: "int \<Rightarrow> int" where
  "bnhack_sment bn =
     (if bn < 0 then 31
      else case search (\<lambda>e. fst e = bn) sment_table of Some e \<Rightarrow> snd e | None \<Rightarrow> - 1)"

fun call_bnhack :: "bnhack \<Rightarrow> int \<Rightarrow> int" where
  "call_bnhack Bnhack_smpro bn = bnhack_smpro bn"
| "call_bnhack Bnhack_sment bn = bnhack_sment bn"

section \<open>Known USB devices\<close>

record usbdb_entry =
  ue_usbid :: "u32 \<times> u32"
  ue_type :: int
  ue_flags :: u32
  ue_bnmap :: "bnhack option"

definition usbdb :: "usbdb_entry list" where
  "usbdb = map (\<lambda>(v, p, t, f, b). \<lparr>ue_usbid = (v, p), ue_type = t, ue_flags = f, ue_bnmap = b\<rparr>)
    [(0x046d, 0xc603, DEV_PLUSXT, 0, None),
     (0x046d, 0xc605, DEV_CADMAN, DF_6DOF, None),
     (0x046d, 0xc606, DEV_SMCLASSIC, 0, None),
     (0x046d, 0xc621, DEV_SB5000, DF_6DOF, None),
     (0x046d, 0xc623, DEV_STRAVEL, DF_6DOF, None),
     (0x046d, 0xc625, DEV_SPILOT, DF_6DOF, None),
     (0x046d, 0xc626, DEV_SNAV, DF_6DOF, None),
     (0x046d, 0xc627, DEV_SEXP, DF_6DOF, None),
     (0x046d, 0xc628, DEV_SNAVNB, DF_6DOF, None),
     (0x046d, 0xc629, DEV_SPILOTPRO, DF_6DOF, None),
     (0x046d, 0xc62b, DEV_SMPRO, DF_6DOF, Some Bnhack_smpro),
     (0x046d, 0xc640, DEV_NULOOQ, 0, None),
     (0x256f, 0xc62e, DEV_SMW, DF_6DOF, None),
     (0x256f, 0xc62f, DEV_SMW, DF_6DOF, None),
     (0x256f, 0xc631, DEV_SMPROW, DF_6DOF, Some Bnhack_smpro),
     (0x256f, 0xc632, DEV_SMPROW, DF_6DOF, Some Bnhack_smpro),
     (0x256f, 0xc633, DEV_SMENT, DF_6DOF, Some Bnhack_sment),
     (0x256f, 0xc635, DEV_SMCOMP, DF_6DOF, None),
     (0x256f, 0xc636, DEV_SMMOD, DF_6DOF, None),
     (0x256f, 0xc638, DEV_SMPROW, DF_6DOF, Some Bnhack_smpro),
     (0x256f, 0xc63a, DEV_SMW, DF_6DOF, None)]"

definition devid_blacklist :: "(u32 \<times> u32) list" where
  "devid_blacklist =
     [(0x256f, 0xc650), (0x256f, 0xc651), (0x256f, 0xc654), (0x256f, 0xc655), (0x256f, 0xc656),
      (0x256f, 0xc657), (0x256f, 0xc658), (0x256f, 0xc664), (0x256f, 0xc668), (0x256f, 0xc665),
      (0x256f, 0xc62c), (0x256f, 0xc641)]"

record usb_dev_info =
  ud_name :: "string option"
  ud_devfiles :: "string list"
  ud_vendorid :: int
  ud_productid :: int

definition strstr :: "string \<Rightarrow> string \<Rightarrow> bool" where
  \<comment> \<open>whether the second string occurs in the first\<close>
  "strstr s t \<longleftrightarrow> (\<exists>i \<in> set [0..<Suc (length s)]. take (length t) (drop i s) = t)"

definition custom_match :: "cfg \<Rightarrow> usb_dev_info \<Rightarrow> nat \<Rightarrow> bool" where
  "custom_match c di i \<longleftrightarrow>
     (fst (devid c ! i) \<noteq> - 1 \<and> snd (devid c ! i) \<noteq> - 1 \<and>
      w32 (fst (devid c ! i)) = w32 (ud_vendorid di) \<and>
      w32 (snd (devid c ! i)) = w32 (ud_productid di))
     \<or> (devname c ! i \<noteq> None \<and> ud_name di \<noteq> None \<and> devname c ! i = ud_name di)"

definition match_usbdev :: "cfg \<Rightarrow> usb_dev_info \<Rightarrow> bool option" where
  \<comment> \<open>\<open>None\<close>: the null name of the device is passed to \<open>strstr\<close>\<close>
  "match_usbdev c di =
     (if \<exists>i \<in> set [0..<MAX_CUSTOM]. custom_match c di i then Some True
      else
        let vid = ud_vendorid di; pid = ud_productid di;
            by_name = (case ud_name di of None \<Rightarrow> False | Some n \<Rightarrow> strstr n ''3Dconnexion'') in
        if vid \<noteq> - 1 \<and> pid \<noteq> - 1 then
          if (w32 vid, w32 pid) \<in> set devid_blacklist then Some False
          else if w32 vid = VID_3DCONN then
            (if pid = 0xc652 then
               (case ud_name di of None \<Rightarrow> None
                | Some n \<Rightarrow> Some (\<not> strstr n ''Universal Receiver Mouse''))
             else Some True)
          else if (w32 vid, w32 pid) \<in> ue_usbid ` set usbdb then Some True
          else Some by_name
        else Some by_name)"

definition find_usbdb_entry :: "u32 \<Rightarrow> u32 \<Rightarrow> usbdb_entry option" where
  "find_usbdb_entry vid pid = search (\<lambda>e. ue_usbid e = (vid, pid)) usbdb"

section \<open>The tables are keyed\<close>

interpretation smpro_map:
  first_match smpro_table fst "\<lambda>bn. search (\<lambda>e. fst e = bn) smpro_table"
  by unfold_locales (simp_all add: smpro_table_def)

interpretation sment_map:
  first_match sment_table fst "\<lambda>bn. search (\<lambda>e. fst e = bn) sment_table"
  by unfold_locales (simp_all add: sment_table_def)

interpretation usbdb_map:
  first_match usbdb ue_usbid "\<lambda>k. search (\<lambda>e. ue_usbid e = k) usbdb"
  by unfold_locales (simp_all add: usbdb_def)

text \<open>The buttons a renumbering table produces are exactly \<open>0\<close> to \<open>n - 1\<close>, each once.\<close>

definition renumbers :: "(int \<Rightarrow> int) \<Rightarrow> bool" where
  "renumbers f \<longleftrightarrow>
     bij_betw f {bn. 0 \<le> bn \<and> f bn \<noteq> - 1} {0 ..< f (- 1)}"

lemma search_renumbers:
  assumes f: "\<And>bn. f bn = (if bn < 0 then int (length tab)
      else case search (\<lambda>e. fst e = bn) tab of Some e \<Rightarrow> snd e | None \<Rightarrow> - 1)"
    and dist: "distinct (map fst tab)" "distinct (map snd tab)"
    and keys: "\<forall>e \<in> set tab. 0 \<le> fst e"
    and vals: "set (map snd tab) = {0 ..< int (length tab)}"
  shows "renumbers f"
proof -
  have at: "f (fst e) = snd e" if "e \<in> set tab" for e
    using search_key_distinct [OF dist(1) that refl] keys that by (auto simp: f)
  have from_tab: "\<exists>e \<in> set tab. fst e = bn" if "0 \<le> bn" "f bn \<noteq> - 1" for bn
    using that by (auto simp: f dest!: search_SomeD split: option.splits)
  have dom: "{bn. 0 \<le> bn \<and> f bn \<noteq> - 1} = fst ` set tab"
  proof (intro set_eqI iffI)
    fix bn assume "bn \<in> fst ` set tab"
    then obtain e where e: "e \<in> set tab" "bn = fst e" by auto
    then have "snd e \<in> {0 ..< int (length tab)}" using vals by auto
    with e keys at show "bn \<in> {bn. 0 \<le> bn \<and> f bn \<noteq> - 1}" by auto
  qed (auto dest: from_tab)
  have "inj_on f (fst ` set tab)"
    using dist(2) at by (auto simp: inj_on_def distinct_map)
  moreover have "f ` fst ` set tab = snd ` set tab"
    using at by (force simp: image_image)
  moreover have "f (- 1) = int (length tab)" by (simp add: f)
  ultimately show ?thesis
    unfolding renumbers_def bij_betw_def dom using vals by simp
qed

lemma upto_set: "{0 ..< int n} = set (map int [0..<n])"
  by (auto simp: image_iff intro!: bexI [where x = "nat _"])

text \<open>
  The button renumbering of the SpaceMouse Pro and of the SpaceMouse Enterprise
  is a bijection between the button codes it keeps and the numbers from 0 up to the button
  count it reports for a negative argument, so no two physical buttons share a number, no
  number is unused, and all stay inside the tables of 64 buttons.
\<close>

theorem bnhack_bijective:
  "renumbers (call_bnhack h) \<and> call_bnhack h (- 1) \<le> int MAX_BUTTONS"
proof (cases h)
  case Bnhack_smpro
  have "set (map snd smpro_table) = {0 ..< int (length smpro_table)}"
    by (simp add: smpro_table_def) (simp add: set_eq_iff, presburger)
  then have "renumbers bnhack_smpro"
    by (intro search_renumbers [where tab = smpro_table])
      (simp_all add: bnhack_smpro_def smpro_table_def)
  moreover have "call_bnhack h = bnhack_smpro" by (simp add: fun_eq_iff Bnhack_smpro)
  ultimately show ?thesis by (simp add: bnhack_smpro_def)
next
  case Bnhack_sment
  have "set (map snd sment_table) = {0 ..< int (length sment_table)}"
    by (simp add: sment_table_def) (simp add: set_eq_iff, presburger)
  then have "renumbers bnhack_sment"
    by (intro search_renumbers [where tab = sment_table])
      (simp_all add: bnhack_sment_def sment_table_def)
  moreover have "call_bnhack h = bnhack_sment" by (simp add: fun_eq_iff Bnhack_sment)
  ultimately show ?thesis by (simp add: bnhack_sment_def)
qed

section \<open>Which USB devices are opened\<close>

definition reported_name :: "usb_dev_info \<Rightarrow> string" where
  "reported_name di = (case ud_name di of None \<Rightarrow> [] | Some n \<Rightarrow> n)"

lemma usbdb_not_blacklisted: "ue_usbid ` set usbdb \<inter> set devid_blacklist = {}"
  by (auto simp: usbdb_def devid_blacklist_def)

text \<open>
  With no custom device configured, a device whose identifier is in the table
  of known devices is always selected, and it gets the type and the flags of its entry; a device
  on the blacklist never is, whatever its name; the two tables have no identifier in common.
\<close>

theorem usb_selection:
  assumes custom: "\<And>i. i < MAX_CUSTOM \<Longrightarrow> \<not> custom_match c di i"
    and given: "ud_vendorid di \<noteq> - 1" "ud_productid di \<noteq> - 1"
    and id: "(w32 (ud_vendorid di), w32 (ud_productid di)) = k"
  shows "(\<forall>e \<in> set usbdb. ue_usbid e = k \<longrightarrow>
        match_usbdev c di = Some True \<and> find_usbdb_entry (fst k) (snd k) = Some e) \<and>
     (k \<in> set devid_blacklist \<longrightarrow>
        match_usbdev c di = Some False \<and> find_usbdb_entry (fst k) (snd k) = None)"
proof (intro conjI ballI impI)
  have no_custom: "\<not> (\<exists>i \<in> set [0..<MAX_CUSTOM]. custom_match c di i)" using custom by auto
  fix e assume e: "e \<in> set usbdb" "ue_usbid e = k"
  then have "k \<notin> set devid_blacklist" using usbdb_not_blacklisted by blast
  moreover have "snd k \<noteq> 0xc652" using e by (auto simp: usbdb_def)
  then have "ud_productid di \<noteq> 0xc652" using id by (auto simp: w32_def)
  moreover have "k \<in> ue_usbid ` set usbdb" using e by auto
  ultimately show "match_usbdev c di = Some True"
    using no_custom given by (simp only: match_usbdev_def Let_def id if_False if_True simp_thms)
      (simp add: id)
  show "find_usbdb_entry (fst k) (snd k) = Some e"
    using usbdb_map.find_entry [OF e(1)] e(2) by (simp add: find_usbdb_entry_def)
next
  have no_custom: "\<not> (\<exists>i \<in> set [0..<MAX_CUSTOM]. custom_match c di i)" using custom by auto
  assume k: "k \<in> set devid_blacklist"
  then show "match_usbdev c di = Some False"
    using no_custom given by (simp only: match_usbdev_def Let_def id if_False if_True simp_thms)
  show "find_usbdb_entry (fst k) (snd k) = None"
    using usbdb_map.find_none [of k] usbdb_not_blacklisted k by (auto simp: find_usbdb_entry_def)
qed

lemma no_custom_default: "i < MAX_CUSTOM \<Longrightarrow> ud_name di \<noteq> None \<Longrightarrow> \<not> custom_match default_cfg di i"
  by (simp add: custom_match_def default_cfg_def)

theorem usb_selection_witness:
  "match_usbdev default_cfg \<lparr>ud_name = Some ''3Dconnexion SpaceNavigator'',
     ud_devfiles = [''/dev/input/event5''], ud_vendorid = 0x046d, ud_productid = 0xc626\<rparr> = Some True \<and>
   match_usbdev default_cfg \<lparr>ud_name = Some ''3Dconnexion CadMouse'',
     ud_devfiles = [''/dev/input/event6''], ud_vendorid = 0x256f, ud_productid = 0xc650\<rparr> = Some False"
proof -
  let ?nav = "\<lparr>ud_name = Some ''3Dconnexion SpaceNavigator'', ud_devfiles = [''/dev/input/event5''],
     ud_vendorid = 0x046d, ud_productid = 0xc626\<rparr>"
  let ?cad = "\<lparr>ud_name = Some ''3Dconnexion CadMouse'', ud_devfiles = [''/dev/input/event6''],
     ud_vendorid = 0x256f, ud_productid = 0xc650\<rparr>"
  have "(0x046d, 0xc626) \<in> ue_usbid ` set usbdb" by (simp add: usbdb_def)
  then have "match_usbdev default_cfg ?nav = Some True"
    using usb_selection [of default_cfg ?nav "(0x046d, 0xc626)"] no_custom_default [of _ ?nav]
    by (auto simp: w32_def)
  moreover have "(0x256f, 0xc650) \<in> set devid_blacklist" by (simp add: devid_blacklist_def)
  then have "match_usbdev default_cfg ?cad = Some False"
    using usb_selection [of default_cfg ?cad "(0x256f, 0xc650)"] no_custom_default [of _ ?cad]
    by (auto simp: w32_def)
  ultimately show ?thesis ..
qed

end
