(* ===== verification/Serial.thy ===== *)
theory Serial
  imports Device
begin

text \<open>
  The driver of serial devices (src/dev_serial.c): the queue of decoded input events, the
  decoding of Magellan and Spaceball packets, the splitting of the input stream into packets,
  and reading. A packet handler gets the device together with its \<open>struct sball\<close>, since a 4000FLX
  key packet changes both. The handlers decode a packet in place; they only write to bytes of
  the packet itself, which the driver never reads again, so the model passes them a copy.
\<close>

abbreviation (input) INP_BUF_SZ :: nat where "INP_BUF_SZ \<equiv> 256"
abbreviation (input) EVQUEUE_SZ :: nat where "EVQUEUE_SZ \<equiv> 64"
abbreviation (input) SB4000 :: u32 where "SB4000 \<equiv> 1"
abbreviation (input) CR :: char where "CR \<equiv> CHR 0x0d"

type_synonym sbdev = "device \<times> sball"

definition zero_input :: dev_input where
  "zero_input = \<lparr>inp_type = INP_MOTION, inp_idx = 0, inp_val = 0\<rparr>"

definition calloc_sball :: sball where
  "calloc_sball = \<lparr>sb_fd = 0, sb_flags = 0, sb_buf = replicate INP_BUF_SZ NUL, sb_len = 0,
     sb_mot = replicate 6 0, sb_keystate = 0, sb_keymask = 0,
     sb_evqueue = replicate EVQUEUE_SZ zero_input, evq_rd = 0, evq_wr = 0, sb_parse = None\<rparr>"

section \<open>The event queue\<close>

definition evq_push :: "(dev_input \<Rightarrow> dev_input) \<Rightarrow> sball \<Rightarrow> sball" where
  \<comment> \<open>take the entry at the write position, advance (\<open>& (EVQUEUE_SZ - 1)\<close> is \<open>mod 64\<close>), drop the
    oldest on overflow, fill the entry\<close>
  "evq_push f sb =
     (let i = evq_wr sb;
          wr = (evq_wr sb + 1) mod EVQUEUE_SZ;
          rd = (if wr = evq_rd sb then (evq_rd sb + 1) mod EVQUEUE_SZ else evq_rd sb) in
      sb\<lparr>evq_wr := wr, evq_rd := rd, sb_evqueue := (sb_evqueue sb)[i := f (sb_evqueue sb ! i)]\<rparr>)"

definition evq_pop :: "sball \<Rightarrow> (dev_input \<times> sball) option" where
  "evq_pop sb =
     (if evq_rd sb \<noteq> evq_wr sb
      then Some (sb_evqueue sb ! evq_rd sb, sb\<lparr>evq_rd := (evq_rd sb + 1) mod EVQUEUE_SZ\<rparr>)
      else None)"

definition enqueue_motion :: "sball \<Rightarrow> int \<Rightarrow> int \<Rightarrow> sball" where
  "enqueue_motion sb axis val =
     evq_push (\<lambda>inp. if 0 \<le> axis then inp\<lparr>inp_type := INP_MOTION, inp_idx := axis, inp_val := val\<rparr>
                     else inp\<lparr>inp_type := INP_FLUSH\<rparr>) sb"

definition gen_button_events :: "sball \<Rightarrow> u32 \<Rightarrow> sball" where
  "gen_button_events sb prev =
     fold (\<lambda>i s. if bit (sb_keystate sb XOR prev) i
                 then evq_push (\<lambda>inp. inp\<lparr>inp_type := INP_BUTTON, inp_idx := int i,
                        inp_val := (if bit (sb_keystate sb) i then 1 else 0)\<rparr>) s
                 else s) [0..<16] sb"

section \<open>Packets\<close>

definition nib :: "char \<Rightarrow> u32" where
  "nib c = of_nat (byte c) AND 0xf"

definition set_axis :: "nat \<Rightarrow> int \<Rightarrow> sball \<times> bool \<Rightarrow> sball \<times> bool" where
  \<comment> \<open>store an axis position and queue it if it changed; the flag is \<open>motion_pending\<close>\<close>
  "set_axis i val = (\<lambda>(sb, pending).
     let prev = sb_mot sb ! i; sb' = sb\<lparr>sb_mot := (sb_mot sb)[i := val]\<rparr> in
     if val \<noteq> prev then (enqueue_motion sb' (int i) val, True) else (sb', pending))"

definition flush_pending :: "sball \<times> bool \<Rightarrow> sball" where
  "flush_pending = (\<lambda>(sb, pending). if pending then enqueue_motion sb (- 1) 0 else sb)"

definition set_keystate :: "u32 \<Rightarrow> sball \<Rightarrow> sball" where
  "set_keystate ks sb =
     (let prev = sb_keystate sb; sb' = sb\<lparr>sb_keystate := ks\<rparr> in
      if ks \<noteq> prev then gen_button_events sb' prev else sb')"

definition mag_axis :: "char list \<Rightarrow> nat \<Rightarrow> int" where
  "mag_axis data i =
     (let d = drop (4 * i) data;
          v = int16 (uint (push_bit 12 (nib (d ! 0)) OR push_bit 8 (nib (d ! 1)) OR
                           push_bit 4 (nib (d ! 2)) OR nib (d ! 3)) - 0x8000) in
      if i = 2 \<or> i = 5 then int16 (- v) else v)"

definition mag_keys :: "char list \<Rightarrow> u32" where
  "mag_keys data =
     (let ks = nib (data ! 0) OR push_bit 4 (nib (data ! 1)) OR push_bit 8 (nib (data ! 2)) in
      if 3 < length data then ks OR push_bit 12 (nib (data ! 3)) else ks)"

definition mag_parsepkt :: "char \<Rightarrow> char list \<Rightarrow> sbdev \<Rightarrow> int \<times> sbdev" where
  "mag_parsepkt pid data = (\<lambda>(dev, sb).
     if pid = CHR ''d'' then
       (if length data \<noteq> 24 then (- 1, (dev, sb))
        else (0, (dev, flush_pending (fold (\<lambda>i. set_axis i (mag_axis data i)) [0..<6] (sb, False)))))
     else if pid = CHR ''k'' then
       (if length data < 3 then (- 1, (dev, sb))
        else (0, (dev, set_keystate (mag_keys data) sb)))
     else if pid = CHR ''e'' then (- 1, (dev, sb))
     else (0, (dev, sb)))"

fun sball_decode :: "char list \<Rightarrow> char list" where
  \<comment> \<open>replace escapes; the character after the packet is the NUL that ended it\<close>
  "sball_decode [] = []"
| "sball_decode (c # cs) =
     (if c = CHR ''^'' then
        (case cs of
           [] \<Rightarrow> []
         | e # cs' \<Rightarrow>
             if e = CHR ''Q'' then CHR 0x11 # sball_decode cs'
             else if e = CHR ''S'' then CHR 0x13 # sball_decode cs'
             else if e = CHR ''M'' then CR # sball_decode cs'
             else if e = CHR ''^'' then CHR ''^'' # sball_decode cs'
             else sball_decode cs')
      else c # sball_decode cs)"

definition sball_axis :: "char list \<Rightarrow> nat \<Rightarrow> int" where
  \<comment> \<open>big endian 16 bits after the two bytes of the time stamp: swapped and stored in a \<open>short\<close>\<close>
  "sball_axis data i = int16 (int (256 * byte (data ! (2 * i + 2)) + byte (data ! (2 * i + 3))))"

definition sball_keys :: "char list \<Rightarrow> u32 \<Rightarrow> u32" where
  "sball_keys data keymask =
     (let d0 = of_nat (byte (data ! 0)) :: u32; d1 = of_nat (byte (data ! 1)) :: u32 in
      ((d1 AND 0xf) OR (drop_bit 4 d1 AND 3) OR push_bit 4 (d0 AND 7) OR push_bit 3 (d0 AND 0x10))
      AND keymask)"

definition sb4000_keys :: "char list \<Rightarrow> u32" where
  "sb4000_keys data =
     (let d0 = of_nat (byte (data ! 0)) :: u32; d1 = of_nat (byte (data ! 1)) :: u32 in
      (d1 AND 0x3f) OR drop_bit 1 (d1 AND 0x80) OR push_bit 7 (d0 AND 0x1f))"

definition sb4000_switch :: "sbdev \<Rightarrow> sbdev" where
  "sb4000_switch = (\<lambda>(dev, sb).
     if sb_flags sb AND SB4000 = 0 then
       (dev\<lparr>num_buttons := 12, d_name := ''Spaceball 4000FLX'', d_type := DEV_SB4000\<rparr>,
        sb\<lparr>sb_flags := sb_flags sb OR SB4000, sb_keymask := 0xfff\<rparr>)
     else (dev, sb))"

definition sball_parsepkt :: "char \<Rightarrow> char list \<Rightarrow> sbdev \<Rightarrow> int \<times> sbdev" where
  "sball_parsepkt pid raw = (\<lambda>(dev, sb).
     let data = sball_decode raw in
     if pid = CHR ''D'' then
       (if length data \<noteq> 14 then (- 1, (dev, sb))
        else (0, (dev, flush_pending (fold (\<lambda>i. set_axis i (sball_axis data i)) [0..<6] (sb, False)))))
     else if pid = CHR ''K'' then
       (if length data \<noteq> 2 then (- 1, (dev, sb))
        else if sb_flags sb AND SB4000 \<noteq> 0 then (0, (dev, sb))
        else (0, (dev, set_keystate (sball_keys data (sb_keymask sb)) sb)))
     else if pid = CHR ''.'' then
       (if length data \<noteq> 2 then (- 1, (dev, sb))
        else let (dev', sb') = sb4000_switch (dev, sb) in
             (0, (dev', set_keystate (sb4000_keys data) sb')))
     else (0, (dev, sb)))"

definition call_parse :: "char \<Rightarrow> char list \<Rightarrow> sbdev \<Rightarrow> sbdev" where
  \<comment> \<open>the driver only reads a device for which opening it has chosen a parser\<close>
  "call_parse pid data ds =
     (case sb_parse (snd ds) of
        None \<Rightarrow> ds
      | Some Sball \<Rightarrow> snd (sball_parsepkt pid data ds)
      | Some Mag \<Rightarrow> snd (mag_parsepkt pid data ds))"

text \<open>
  The buffer \<open>errbuf\<close> of \<open>sball_parsepkt\<close>: its size for a packet of length \<open>len\<close>, and the number of
  bytes that are written to it, the final NUL included. \<open>%02x\<close> of a negative \<open>char\<close> prints eight
  digits, since the character is sign-extended first.
\<close>

definition errbuf_size :: "int \<Rightarrow> int" where
  "errbuf_size len = len * 16 + 32"

definition isprint :: "char \<Rightarrow> bool" where
  "isprint c \<longleftrightarrow> 32 \<le> byte c \<and> byte c < 127"

definition hex_digits :: "char \<Rightarrow> int" where
  "hex_digits c = (if byte c < 128 then 2 else 8)"

definition errbuf_written :: "char \<Rightarrow> char list \<Rightarrow> int" where
  "errbuf_written pid data =
     (if pid = CHR ''E'' then
        13 + sum_list (map (\<lambda>c. if isprint c then 2 else hex_digits c + 2) data) + 1
      else if pid \<in> {CHR ''D'', CHR ''K'', CHR ''.'', CHR ''M'', CHR ''?''} then 0
      else 22 + sum_list (map (\<lambda>c. hex_digits c + 1) data) + 1 + 1)"

section \<open>From the input buffer to packets\<close>

fun scan_input :: "char list \<Rightarrow> char list \<Rightarrow> nat \<Rightarrow> sbdev \<Rightarrow> nat \<times> sbdev" where
  \<comment> \<open>the characters from \<open>bptr\<close> to \<open>end\<close>, those from \<open>start\<close> to \<open>bptr\<close>, the offset of \<open>start\<close>\<close>
  "scan_input [] cur start ds = (start, ds)"
| "scan_input (c # cs) cur start ds =
     (if c = CR
      then scan_input cs [] (start + length cur + 1)
             (case cur of [] \<Rightarrow> call_parse NUL [] ds | pid # data \<Rightarrow> call_parse pid data ds)
      else scan_input cs (cur @ [c]) start ds)"

definition move_rest :: "nat \<Rightarrow> sball \<Rightarrow> sball" where
  \<comment> \<open>\<open>memmove(sb->buf, start, sz); sb->len -= sz\<close>; what is read beyond the buffer is written as NUL,
    it lands after the new end of the input\<close>
  "move_rest sz sb =
     (if 0 < sz then
        sb\<lparr>sb_buf := take sz (drop sz (sb_buf sb) @ replicate sz NUL) @ drop sz (sb_buf sb),
           sb_len := sb_len sb - sz\<rparr>
      else sb)"

definition proc_input :: "sbdev \<Rightarrow> sbdev" where
  "proc_input ds =
     (let (sz, dev, sb) = scan_input (take (sb_len (snd ds)) (sb_buf (snd ds))) [] 0 ds in
      (dev, move_rest sz sb))"

section \<open>Reading\<close>

text \<open>
  The bytes the line delivers are a list of chunks: a \<open>read\<close> returns at most the bytes of the
  first chunk, and at most as many as there is room for. Without chunks, or with room for
  nothing, \<open>read\<close> returns no bytes.
\<close>

definition sys_read :: "nat \<Rightarrow> char list list \<Rightarrow> char list \<times> char list list" where
  "sys_read n chunks =
     (case chunks of
        [] \<Rightarrow> ([], [])
      | c # cs \<Rightarrow> (take n c, if length c \<le> n then cs else drop n c # cs))"

lemma sys_read_shrinks:
  "fst (sys_read n chunks) \<noteq> [] \<Longrightarrow>
   sum_list (map length (snd (sys_read n chunks))) < sum_list (map length chunks)"
  by (auto simp: sys_read_def split: list.splits)

definition append_input :: "char list \<Rightarrow> sball \<Rightarrow> sball" where
  "append_input cs sb =
     sb\<lparr>sb_buf := take (sb_len sb) (sb_buf sb) @ cs @ drop (sb_len sb + length cs) (sb_buf sb),
        sb_len := sb_len sb + length cs\<rparr>"

function serial_read_loop :: "char list list \<Rightarrow> sbdev \<Rightarrow> char list list \<times> sbdev" where
  "serial_read_loop chunks ds =
     (let (bs, chunks') = sys_read (INP_BUF_SZ - sb_len (snd ds) - 1) chunks in
      if bs = [] then (chunks', ds)
      else serial_read_loop chunks' (proc_input (fst ds, append_input bs (snd ds))))"
  by pat_completeness auto
termination
proof (relation "measure (\<lambda>(chunks, ds). sum_list (map length chunks))", goal_cases)
  case (2 chunks ds x bs chunks')
  then have "sys_read (INP_BUF_SZ - sb_len (snd ds) - 1) chunks = (bs, chunks')" "bs \<noteq> []" by simp_all
  with sys_read_shrinks [of "INP_BUF_SZ - sb_len (snd ds) - 1" chunks] show ?case by simp
qed simp

declare serial_read_loop.simps [simp del]

definition serial_overflow :: "sbdev \<Rightarrow> sbdev" where
  "serial_overflow ds =
     (if INP_BUF_SZ \<le> sb_len (snd ds)
      then (let (dev, sb) = proc_input ds in (dev, sb\<lparr>sb_len := 0\<rparr>)) else ds)"

definition read_dev_serial :: "char list list \<Rightarrow> device \<Rightarrow> (dev_input option \<times> device) \<times> char list list" where
  "read_dev_serial chunks dev =
     (case d_data dev of
        None \<Rightarrow> ((None, dev), chunks)
      | Some sb \<Rightarrow>
          let (chunks', ds) = serial_read_loop chunks (dev, sb);
              (dev', sb') = serial_overflow ds in
          (case evq_pop sb' of
             None \<Rightarrow> ((None, dev'\<lparr>d_data := Some sb'\<rparr>), chunks')
           | Some (inp, sb'') \<Rightarrow> ((Some inp, dev'\<lparr>d_data := Some sb''\<rparr>), chunks')))"

section \<open>The event queue is a bounded queue that forgets its oldest entries\<close>

locale bounded_queue =
  fixes push :: "'e \<Rightarrow> 'q \<Rightarrow> 'q"
    and pop :: "'q \<Rightarrow> ('e \<times> 'q) option"
    and entries :: "'q \<Rightarrow> 'e list"
    and ok :: "'q \<Rightarrow> bool"
    and cap :: nat
  assumes ok_push: "ok q \<Longrightarrow> ok (push x q)"
    and ok_pop: "ok q \<Longrightarrow> pop q = Some (x, q') \<Longrightarrow> ok q'"
    and entries_push: "ok q \<Longrightarrow>
      entries (push x q) = (if length (entries q) = cap then tl (entries q) else entries q) @ [x]"
    and pop_entries: "ok q \<Longrightarrow> pop q = Some (x, q') \<Longrightarrow> entries q = x # entries q'"
    and pop_None: "ok q \<Longrightarrow> pop q = None \<longleftrightarrow> entries q = []"
    and entries_cap: "ok q \<Longrightarrow> length (entries q) \<le> cap"
    and cap_pos: "0 < cap"
begin

lemma ok_pushes: "ok q \<Longrightarrow> ok (fold push xs q)"
  by (induction xs arbitrary: q) (auto intro: ok_push)

lemma pushes: "ok q \<Longrightarrow>
    entries (fold push xs q) = drop (length (entries q) + length xs - cap) (entries q @ xs)"
proof (induction xs arbitrary: q)
  case Nil
  with entries_cap [of q] show ?case by simp
next
  case (Cons x xs)
  let ?P = "entries (push x q)"
  have "entries (fold push (x # xs) q) = drop (length ?P + length xs - cap) (?P @ xs)"
    using Cons by (simp add: ok_push)
  also have "\<dots> = drop (length (entries q) + length (x # xs) - cap) (entries q @ x # xs)"
  proof (cases "length (entries q) = cap")
    case True
    then obtain e es where "entries q = e # es" using cap_pos by (cases "entries q") auto
    with True show ?thesis by (simp add: entries_push Cons.prems Suc_diff_le)
  next
    case False
    then have "?P = entries q @ [x]" by (simp add: entries_push Cons.prems)
    then show ?thesis by simp
  qed
  finally show ?case .
qed

lemma pushes_fit: "ok q \<Longrightarrow> length (entries q) + length xs \<le> cap \<Longrightarrow>
    entries (fold push xs q) = entries q @ xs"
  by (simp add: pushes)

lemma pop_hd: "ok q \<Longrightarrow> entries q = x # es \<Longrightarrow> \<exists>q'. pop q = Some (x, q') \<and> entries q' = es \<and> ok q'"
  using pop_entries [of q] ok_pop [of q] pop_None [of q] by (cases "pop q") fastforce+

end

definition evq_ok :: "sball \<Rightarrow> bool" where
  "evq_ok sb \<longleftrightarrow> length (sb_evqueue sb) = EVQUEUE_SZ \<and> evq_rd sb < EVQUEUE_SZ \<and> evq_wr sb < EVQUEUE_SZ"

definition evq_count :: "sball \<Rightarrow> nat" where
  "evq_count sb = (evq_wr sb + EVQUEUE_SZ - evq_rd sb) mod EVQUEUE_SZ"

definition evq_entries :: "sball \<Rightarrow> dev_input list" where
  "evq_entries sb = map (\<lambda>k. sb_evqueue sb ! ((evq_rd sb + k) mod EVQUEUE_SZ)) [0..<evq_count sb]"

lemma evq_push_const: "evq_push f sb = evq_push (\<lambda>_. f (sb_evqueue sb ! evq_wr sb)) sb"
  by (simp add: evq_push_def Let_def)

lemma mod64: "a < 128 \<Longrightarrow> a mod 64 = (if a < 64 then a else a - (64 :: nat))"
  by (simp add: mod_if)

lemma evq_ok_push: "evq_ok q \<Longrightarrow> evq_ok (evq_push f q)"
  by (simp add: evq_ok_def evq_push_def Let_def)

lemma evq_count_less: "evq_count q < 64"
  by (simp add: evq_count_def)

lemma evq_full: "evq_ok q \<Longrightarrow> (evq_wr q + 1) mod 64 = evq_rd q \<longleftrightarrow> evq_count q = 63"
  by (auto simp: evq_ok_def evq_count_def mod64)

lemma evq_slot: "evq_ok q \<Longrightarrow> (evq_rd q + evq_count q) mod 64 = evq_wr q"
  by (auto simp: evq_ok_def evq_count_def mod64)

lemma evq_slot_free: "evq_ok q \<Longrightarrow> k < evq_count q \<Longrightarrow> (evq_rd q + k) mod 64 \<noteq> evq_wr q"
  using evq_count_less [of q] by (auto simp: evq_ok_def evq_count_def mod64 split: if_splits)

lemma evq_push_room:
  assumes "evq_ok q" "evq_count q \<noteq> 63"
  shows "evq_entries (evq_push (\<lambda>_. x) q) = evq_entries q @ [x]"
proof -
  let ?q = "evq_push (\<lambda>_. x) q"
  have c: "evq_count ?q = Suc (evq_count q)"
    using assms by (auto simp: evq_ok_def evq_count_def evq_push_def Let_def mod64 split: if_splits)
  have r: "evq_rd ?q = evq_rd q"
    using assms evq_full [OF assms(1)] by (simp add: evq_push_def Let_def)
  have e: "sb_evqueue ?q = (sb_evqueue q)[evq_wr q := x]" by (simp add: evq_push_def Let_def)
  have "evq_wr q < length (sb_evqueue q)" using assms(1) by (simp add: evq_ok_def)
  then show ?thesis
    unfolding evq_entries_def c r e
    by (simp add: evq_slot [OF assms(1)] evq_slot_free [OF assms(1), THEN not_sym])
qed

lemma evq_push_full:
  assumes "evq_ok q" "evq_count q = 63"
  shows "evq_entries (evq_push (\<lambda>_. x) q) = tl (evq_entries q) @ [x]"
proof (rule nth_equalityI)
  let ?q = "evq_push (\<lambda>_. x) q"
  have c: "evq_count ?q = 63"
    using assms by (auto simp: evq_ok_def evq_count_def evq_push_def Let_def mod64 split: if_splits)
  have r: "evq_rd ?q = Suc (evq_rd q) mod 64"
    using assms evq_full [OF assms(1)] by (simp add: evq_push_def Let_def)
  have e: "sb_evqueue ?q = (sb_evqueue q)[evq_wr q := x]" by (simp add: evq_push_def Let_def)
  have w: "evq_wr q < length (sb_evqueue q)" using assms(1) by (simp add: evq_ok_def)
  show "length (evq_entries ?q) = length (tl (evq_entries q) @ [x])"
    by (simp add: evq_entries_def c assms(2))
  fix k assume "k < length (evq_entries ?q)"
  then have k: "k < 63" by (simp add: evq_entries_def c)
  have shift: "(Suc (evq_rd q) mod 64 + j) mod 64 = (evq_rd q + Suc j) mod 64" for j
    by (simp add: mod_simps)
  show "evq_entries ?q ! k = (tl (evq_entries q) @ [x]) ! k"
  proof (cases "k = 62")
    case True
    then have "(evq_rd q + Suc k) mod 64 = evq_wr q" using evq_slot [OF assms(1)] assms(2) by simp
    with True w show ?thesis
      unfolding evq_entries_def c r e shift by (simp add: nth_append assms(2) add.commute)
  next
    case False
    with k evq_slot_free [OF assms(1), of "Suc k"] assms(2)
    have "(evq_rd q + Suc k) mod 64 \<noteq> evq_wr q" by simp
    with False k show ?thesis
      unfolding evq_entries_def c r e shift by (simp add: nth_append nth_tl assms(2))
  qed
qed

lemma evq_pop_Some:
  assumes "evq_ok q" "evq_pop q = Some (x, q')"
  shows "evq_ok q'" "evq_entries q = x # evq_entries q'"
proof -
  from assms(2) have ne: "evq_rd q \<noteq> evq_wr q" and x: "x = sb_evqueue q ! evq_rd q"
    and q': "q' = q\<lparr>evq_rd := (evq_rd q + 1) mod 64\<rparr>"
    by (auto simp: evq_pop_def split: if_splits)
  show "evq_ok q'" using assms(1) by (simp add: evq_ok_def q')
  have c: "evq_count q = Suc (evq_count q')"
    using assms(1) ne by (auto simp: evq_ok_def evq_count_def q' mod64 split: if_splits)
  have "evq_rd q mod 64 = evq_rd q" using assms(1) by (simp add: evq_ok_def)
  then show "evq_entries q = x # evq_entries q'"
    unfolding evq_entries_def c
    by (simp add: x q' upt_conv_Cons map_Suc_upt [symmetric] comp_def mod_simps del: upt_Suc)
qed

interpretation evq: bounded_queue "\<lambda>e. evq_push (\<lambda>_. e)" evq_pop evq_entries evq_ok 63
proof
  fix q x q'
  assume ok: "evq_ok q"
  show "evq_ok (evq_push (\<lambda>_. x) q)" by (rule evq_ok_push [OF ok])
  have len: "length (evq_entries q) = evq_count q" by (simp add: evq_entries_def)
  show "length (evq_entries q) \<le> 63" using evq_count_less [of q] len by simp
  show "evq_entries (evq_push (\<lambda>_. x) q)
      = (if length (evq_entries q) = 63 then tl (evq_entries q) else evq_entries q) @ [x]"
    using ok len by (simp add: evq_push_room evq_push_full)
  have "evq_count q = (if evq_rd q \<le> evq_wr q then evq_wr q - evq_rd q else evq_wr q + 64 - evq_rd q)"
    using ok by (auto simp: evq_ok_def evq_count_def mod64)
  then have "evq_rd q = evq_wr q \<longleftrightarrow> evq_count q = 0"
    using ok by (auto simp: evq_ok_def)
  then show "evq_pop q = None \<longleftrightarrow> evq_entries q = []"
    using len by (auto simp: evq_pop_def)
qed (auto dest: evq_pop_Some)

section \<open>What a packet does to the queue\<close>

text \<open>
  \<open>queues es sb sb'\<close>: \<open>sb'\<close> is \<open>sb\<close> with the events \<open>es\<close> queued (and the oldest dropped where
  they do not fit), the input buffer is the same.
\<close>

definition queues :: "dev_input list \<Rightarrow> sball \<Rightarrow> sball \<Rightarrow> bool" where
  "queues es sb sb' \<longleftrightarrow>
     evq_ok sb' \<and> evq_entries sb' = drop (length (evq_entries sb) + length es - 63) (evq_entries sb @ es) \<and>
     sb_buf sb' = sb_buf sb \<and> sb_len sb' = sb_len sb \<and>
     sb_fd sb' = sb_fd sb \<and> sb_parse sb' = sb_parse sb"

lemma evq_entries_cong:
  "sb_evqueue a = sb_evqueue b \<Longrightarrow> evq_rd a = evq_rd b \<Longrightarrow> evq_wr a = evq_wr b \<Longrightarrow>
   evq_entries a = evq_entries b"
  by (simp add: evq_entries_def evq_count_def)

lemma queues_refl: "evq_ok sb \<Longrightarrow> queues [] sb sb"
  using evq.entries_cap [of sb] by (simp add: queues_def)

lemma queues_iff: "evq_ok sb \<Longrightarrow> queues es sb sb' \<longleftrightarrow>
    evq_ok sb' \<and> evq_entries sb' = evq_entries (fold (\<lambda>e. evq_push (\<lambda>_. e)) es sb) \<and>
    sb_buf sb' = sb_buf sb \<and> sb_len sb' = sb_len sb \<and> sb_fd sb' = sb_fd sb \<and> sb_parse sb' = sb_parse sb"
  by (simp add: queues_def evq.pushes)

lemma queues_trans:
  assumes "evq_ok a" "queues es a b" "queues fs b c"
  shows "queues (es @ fs) a c"
proof -
  let ?push = "fold (\<lambda>e. evq_push (\<lambda>_. e))"
  have b: "evq_ok b" using assms(2) by (simp add: queues_def)
  have "evq_entries (?push fs b) = evq_entries (?push fs (?push es a))"
    using assms(2) by (simp add: evq.pushes evq.ok_pushes assms(1) b queues_iff)
  with assms show ?thesis by (simp add: queues_iff b)
qed

lemma queues_push: "evq_ok sb \<Longrightarrow> queues [f (sb_evqueue sb ! evq_wr sb)] sb (evq_push f sb)"
  using evq.pushes [of sb "[f (sb_evqueue sb ! evq_wr sb)]"] evq_ok_push [of sb f]
  by (subst evq_push_const) (auto simp: queues_def evq_push_const [of f] evq_push_def [of _ sb] Let_def)

lemma evq_push_frame:
  "sb_mot (evq_push f sb) = sb_mot sb" "sb_keystate (evq_push f sb) = sb_keystate sb"
  "sb_keymask (evq_push f sb) = sb_keymask sb" "sb_flags (evq_push f sb) = sb_flags sb"
  by (simp_all add: evq_push_def Let_def)

subsection \<open>Motion\<close>

definition motion :: "nat \<Rightarrow> int \<Rightarrow> dev_input" where
  "motion i v = \<lparr>inp_type = INP_MOTION, inp_idx = int i, inp_val = v\<rparr>"

definition axis_events :: "int list \<Rightarrow> (nat \<Rightarrow> int) \<Rightarrow> nat list \<Rightarrow> dev_input list" where
  "axis_events old new is = [motion i (new i). i \<leftarrow> is, new i \<noteq> old ! i]"

lemma queues_ok: "queues es a b \<Longrightarrow> evq_ok b"
  by (simp add: queues_def)

lemma queues_mot: "queues es a b \<Longrightarrow> evq_ok a \<Longrightarrow> queues es (a\<lparr>sb_mot := m\<rparr>) b"
  by (simp add: queues_def evq_entries_def evq_count_def)

lemma set_axis_queues:
  assumes "evq_ok sb"
  shows "queues (axis_events (sb_mot sb) (\<lambda>_. v) [i]) sb (fst (set_axis i v (sb, p)))"
    "sb_mot (fst (set_axis i v (sb, p))) = (sb_mot sb)[i := v]"
    "snd (set_axis i v (sb, p)) = (p \<or> v \<noteq> sb_mot sb ! i)"
proof -
  let ?sb = "sb\<lparr>sb_mot := (sb_mot sb)[i := v]\<rparr>"
  have ok: "evq_ok ?sb" using assms by (simp add: evq_ok_def)
  let ?f = "\<lambda>inp. if 0 \<le> int i then inp\<lparr>inp_type := INP_MOTION, inp_idx := int i, inp_val := v\<rparr>
    else inp\<lparr>inp_type := INP_FLUSH\<rparr>"
  have f: "?f inp = motion i v" for inp
    by (cases inp) (simp add: motion_def)
  have "queues [motion i v] ?sb (enqueue_motion ?sb (int i) v)"
    unfolding enqueue_motion_def using queues_push [OF ok, of ?f] unfolding f .
  then show "queues (axis_events (sb_mot sb) (\<lambda>_. v) [i]) sb (fst (set_axis i v (sb, p)))"
    using queues_refl [OF ok]
    by (auto simp: set_axis_def Let_def axis_events_def queues_def evq_entries_def evq_count_def)
  show "sb_mot (fst (set_axis i v (sb, p))) = (sb_mot sb)[i := v]"
    "snd (set_axis i v (sb, p)) = (p \<or> v \<noteq> sb_mot sb ! i)"
    by (simp_all add: set_axis_def Let_def enqueue_motion_def evq_push_frame)
qed

lemma axis_events_append: "axis_events old new (is @ js) = axis_events old new is @ axis_events old new js"
  by (simp add: axis_events_def)

lemma set_axes_queues:
  fixes new :: "nat \<Rightarrow> int" and "is" :: "nat list"
  assumes "evq_ok sb" "distinct is" "\<forall>i \<in> set is. i < length (sb_mot sb)"
  shows "queues (axis_events (sb_mot sb) new is) sb (fst (fold (\<lambda>i. set_axis i (new i)) is (sb, p))) \<and>
    sb_mot (fst (fold (\<lambda>i. set_axis i (new i)) is (sb, p)))
      = map (\<lambda>i. if i \<in> set is then new i else sb_mot sb ! i) [0..<length (sb_mot sb)] \<and>
    snd (fold (\<lambda>i. set_axis i (new i)) is (sb, p)) = (p \<or> axis_events (sb_mot sb) new is \<noteq> [])"
  using assms
proof (induction "is" rule: rev_induct)
  case Nil
  then show ?case by (simp add: queues_refl axis_events_def map_nth)
next
  case (snoc i "is")
  obtain t q where t: "fold (\<lambda>i. set_axis i (new i)) is (sb, p) = (t, q)" by fastforce
  have IH: "queues (axis_events (sb_mot sb) new is) sb t"
    "sb_mot t = map (\<lambda>i. if i \<in> set is then new i else sb_mot sb ! i) [0..<length (sb_mot sb)]"
    "q \<longleftrightarrow> p \<or> axis_events (sb_mot sb) new is \<noteq> []"
    using snoc t by simp_all
  have i: "sb_mot t ! i = sb_mot sb ! i" using snoc.prems IH(2) by simp
  note step = set_axis_queues [OF queues_ok [OF IH(1)], where v = "new i" and i = i and p = q]
  have e: "axis_events (sb_mot t) (\<lambda>_. new i) [i] = axis_events (sb_mot sb) new [i]"
    "axis_events (sb_mot sb) new [i] \<noteq> [] \<longleftrightarrow> new i \<noteq> sb_mot sb ! i"
    by (simp_all add: axis_events_def i)
  have fold: "fold (\<lambda>i. set_axis i (new i)) (is @ [i]) (sb, p) = set_axis i (new i) (t, q)"
    by (simp add: t)
  have upd: "(map f [0..<n])[i := v] = map (\<lambda>j. if j = i then v else f j) [0..<n]" for f n and v :: int
    by (rule nth_equalityI) (auto simp: nth_list_update)
  have "sb_mot (fst (set_axis i (new i) (t, q)))
      = map (\<lambda>j. if j \<in> set (is @ [i]) then new j else sb_mot sb ! j) [0..<length (sb_mot sb)]"
    unfolding step(2) IH(2) upd by (rule map_cong) auto
  with queues_trans [OF snoc.prems(1) IH(1) step(1)] step(3) IH(3) i e show ?case
    unfolding fold axis_events_append by auto
qed

definition motion_packet :: "(nat \<Rightarrow> int) \<Rightarrow> sball \<Rightarrow> sball" where
  \<comment> \<open>what a motion packet of either protocol does with the six decoded positions\<close>
  "motion_packet new sb = flush_pending (fold (\<lambda>i. set_axis i (new i)) [0..<6] (sb, False))"

lemma motion_packet_queues:
  assumes "evq_ok sb" "length (sb_mot sb) = 6"
  shows "\<exists>fl. inp_type fl = INP_FLUSH \<and> sb_mot (motion_packet new sb) = map new [0..<6] \<and>
    queues (let ms = axis_events (sb_mot sb) new [0..<6] in if ms = [] then [] else ms @ [fl])
      sb (motion_packet new sb)"
proof -
  let ?ms = "axis_events (sb_mot sb) new [0..<6]"
  let ?st = "fold (\<lambda>i. set_axis i (new i)) [0..<6] (sb, False)"
  have st: "queues ?ms sb (fst ?st)" "sb_mot (fst ?st) = map new [0..<6]" "snd ?st = (?ms \<noteq> [])"
    using set_axes_queues [OF assms(1), of "[0..<6]" new False] assms(2) by (simp_all del: upt_Suc)
  show ?thesis
  proof (cases "?ms = []")
    case True
    then have "motion_packet new sb = fst ?st"
      using st(3) by (simp add: motion_packet_def flush_pending_def split_beta)
    with True st show ?thesis
      by (intro exI [of _ "zero_input\<lparr>inp_type := INP_FLUSH\<rparr>"]) (simp del: upt_Suc)
  next
    case False
    let ?f = "\<lambda>inp. inp\<lparr>inp_type := INP_FLUSH\<rparr>"
    let ?e = "?f (sb_evqueue (fst ?st) ! evq_wr (fst ?st))"
    have m: "motion_packet new sb = evq_push ?f (fst ?st)"
      using st(3) False by (simp add: motion_packet_def flush_pending_def split_beta enqueue_motion_def)
    from queues_trans [OF assms(1) st(1) queues_push [OF queues_ok [OF st(1)], of ?f]] False
    have "queues (let ms = ?ms in if ms = [] then [] else ms @ [?e]) sb (motion_packet new sb)"
      unfolding m Let_def by simp
    moreover have "sb_mot (motion_packet new sb) = map new [0..<6]"
      unfolding m by (simp only: evq_push_frame st(2))
    ultimately show ?thesis by (intro exI [of _ ?e]) (simp del: upt_Suc)
  qed
qed

subsection \<open>Buttons\<close>

definition button :: "nat \<Rightarrow> bool \<Rightarrow> dev_input" where
  "button i p = \<lparr>inp_type = INP_BUTTON, inp_idx = int i, inp_val = (if p then 1 else 0)\<rparr>"

definition key_events :: "u32 \<Rightarrow> u32 \<Rightarrow> dev_input list" where
  "key_events prev ks = [button i (bit ks i). i \<leftarrow> [0..<16], bit ks i \<noteq> bit prev i]"

lemma gen_button_queues:
  assumes "evq_ok sb"
  shows "queues (key_events prev (sb_keystate sb)) sb (gen_button_events sb prev)"
proof -
  let ?ks = "sb_keystate sb"
  let ?step = "\<lambda>i s. if bit (?ks XOR prev) i
    then evq_push (\<lambda>inp. inp\<lparr>inp_type := INP_BUTTON, inp_idx := int i,
           inp_val := (if bit ?ks i then 1 else 0)\<rparr>) s else s"
  have "queues [button i (bit ?ks i). i \<leftarrow> is, bit ?ks i \<noteq> bit prev i] sb (fold ?step is sb)" for "is"
  proof (induction "is" rule: rev_induct)
    case Nil
    then show ?case using assms by (simp add: queues_refl)
  next
    case (snoc i "is")
    let ?f = "\<lambda>inp. inp\<lparr>inp_type := INP_BUTTON, inp_idx := int i,
      inp_val := (if bit ?ks i then 1 else 0)\<rparr> :: dev_input"
    let ?s = "fold ?step is sb"
    have f: "?f inp = button i (bit ?ks i)" for inp
      by (cases inp) (simp add: button_def)
    show ?case
    proof (cases "bit ?ks i = bit prev i")
      case True
      with snoc show ?thesis by (simp add: bit_xor_iff)
    next
      case False
      then have "fold ?step (is @ [i]) sb = evq_push ?f ?s"
        by (simp add: bit_xor_iff)
      moreover have "queues [button i (bit ?ks i)] ?s (evq_push ?f ?s)"
        using queues_push [OF queues_ok [OF snoc], of ?f] unfolding f .
      ultimately show ?thesis
        using queues_trans [OF assms snoc] False by simp
    qed
  qed
  then show ?thesis by (simp only: gen_button_events_def key_events_def)
qed

lemma evq_fold_frame:
  "sb_mot (fold (\<lambda>i s. if P i then evq_push (g i) s else s) is sb) = sb_mot sb"
  "sb_keystate (fold (\<lambda>i s. if P i then evq_push (g i) s else s) is sb) = sb_keystate sb"
  "sb_keymask (fold (\<lambda>i s. if P i then evq_push (g i) s else s) is sb) = sb_keymask sb"
  "sb_flags (fold (\<lambda>i s. if P i then evq_push (g i) s else s) is sb) = sb_flags sb"
  by (induction "is" arbitrary: sb) (simp_all add: evq_push_frame)

lemma gen_button_frame:
  "sb_mot (gen_button_events sb prev) = sb_mot sb" "sb_keystate (gen_button_events sb prev) = sb_keystate sb"
  "sb_keymask (gen_button_events sb prev) = sb_keymask sb" "sb_flags (gen_button_events sb prev) = sb_flags sb"
  unfolding gen_button_events_def by (rule evq_fold_frame)+

lemma set_keystate_queues:
  assumes "evq_ok sb"
  shows "queues (key_events (sb_keystate sb) ks) sb (set_keystate ks sb)"
    "sb_keystate (set_keystate ks sb) = ks" "sb_mot (set_keystate ks sb) = sb_mot sb"
proof -
  let ?sb = "sb\<lparr>sb_keystate := ks\<rparr>"
  have ok: "evq_ok ?sb" using assms by (simp add: evq_ok_def)
  have "queues (key_events (sb_keystate sb) ks) sb (gen_button_events ?sb (sb_keystate sb))"
    using gen_button_queues [OF ok, of "sb_keystate sb"]
    by (simp add: queues_def evq_entries_def evq_count_def)
  moreover have "key_events ks ks = []" by (simp add: key_events_def)
  ultimately show "queues (key_events (sb_keystate sb) ks) sb (set_keystate ks sb)"
    using queues_refl [OF ok]
    by (auto simp: set_keystate_def Let_def queues_def evq_entries_def evq_count_def)
  show "sb_keystate (set_keystate ks sb) = ks" "sb_mot (set_keystate ks sb) = sb_mot sb"
    by (simp_all add: set_keystate_def Let_def gen_button_frame)
qed

section \<open>What each packet does\<close>

definition sball_wf :: "sball \<Rightarrow> bool" where
  "sball_wf sb \<longleftrightarrow> evq_ok sb \<and> length (sb_buf sb) = INP_BUF_SZ \<and> length (sb_mot sb) = 6 \<and>
     sb_len sb < INP_BUF_SZ"

definition motion_events :: "int list \<Rightarrow> (nat \<Rightarrow> int) \<Rightarrow> dev_input \<Rightarrow> dev_input list" where
  "motion_events old new fl = (let ms = axis_events old new [0..<6] in if ms = [] then [] else ms @ [fl])"

lemma sball_wfD: "sball_wf sb \<Longrightarrow> evq_ok sb" "sball_wf sb \<Longrightarrow> length (sb_mot sb) = 6"
  "sball_wf sb \<Longrightarrow> length (sb_buf sb) = 256" "sball_wf sb \<Longrightarrow> sb_len sb < 256"
  by (simp_all add: sball_wf_def)

lemma queues_wf: "sball_wf a \<Longrightarrow> queues es a b \<Longrightarrow> length (sb_mot b) = 6 \<Longrightarrow> sball_wf b"
  by (simp add: sball_wf_def queues_def)

lemma calloc_sball_wf: "sball_wf calloc_sball"
  by (simp add: sball_wf_def calloc_sball_def evq_ok_def)

lemma sball_motion:
  "length (sball_decode raw) = 14 \<Longrightarrow>
   sball_parsepkt CHR ''D'' raw (dev, sb) = (0, (dev, motion_packet (sball_axis (sball_decode raw)) sb))"
  by (simp add: sball_parsepkt_def motion_packet_def Let_def)

lemma mag_motion:
  "length data = 24 \<Longrightarrow>
   mag_parsepkt CHR ''d'' data (dev, sb) = (0, (dev, motion_packet (mag_axis data) sb))"
  by (simp add: mag_parsepkt_def motion_packet_def)

lemma keystate_queues:
  assumes "sball_wf sb"
  shows "\<exists>es. queues es sb (set_keystate ks sb) \<and> length (sb_mot (set_keystate ks sb)) = 6"
  using set_keystate_queues [OF sball_wfD(1) [OF assms], of ks] sball_wfD(2) [OF assms] by auto

lemma motion_queues:
  assumes "sball_wf sb"
  shows "\<exists>es. queues es sb (motion_packet new sb) \<and> length (sb_mot (motion_packet new sb)) = 6"
proof -
  from motion_packet_queues [OF sball_wfD(1, 2) [OF assms], of new] obtain es where
    "queues es sb (motion_packet new sb)" "sb_mot (motion_packet new sb) = map new [0..<6]" by blast
  then show ?thesis by (intro exI [of _ es]) (simp del: upt_Suc)
qed

lemma motion_packet_events:
  assumes "sball_wf sb"
  shows "sb_mot (motion_packet new sb) = map new [0..<6]"
    "\<exists>fl. inp_type fl = INP_FLUSH \<and> queues (motion_events (sb_mot sb) new fl) sb (motion_packet new sb)"
  using motion_packet_queues [OF sball_wfD(1, 2) [OF assms], of new]
  unfolding motion_events_def by blast+

lemma none_queues: "sball_wf sb \<Longrightarrow> \<exists>es. queues es sb sb \<and> length (sb_mot sb) = 6"
  using queues_refl [of sb] by (auto simp: sball_wf_def)

lemma switch_wf: "sball_wf sb \<Longrightarrow> sball_wf (snd (sb4000_switch (dev, sb)))"
  by (simp add: sb4000_switch_def sball_wf_def evq_ok_def)

lemma switch_queues: "queues es (snd (sb4000_switch (dev, sb))) c \<Longrightarrow> queues es sb c"
  by (auto simp: sb4000_switch_def queues_def evq_entries_def evq_count_def split: if_splits)

lemma call_parse_queues:
  assumes wf: "sball_wf (snd ds)"
  shows "\<exists>es. queues es (snd ds) (snd (call_parse pid data ds)) \<and>
    length (sb_mot (snd (call_parse pid data ds))) = 6"
proof -
  obtain dev sb where ds: "ds = (dev, sb)" by fastforce
  have wf': "sball_wf sb" using wf ds by simp
  note q = none_queues [OF wf'] keystate_queues [OF wf'] motion_queues [OF wf']
  have mag: "\<exists>es. queues es sb (snd (snd (mag_parsepkt pid data ds))) \<and>
      length (sb_mot (snd (snd (mag_parsepkt pid data ds)))) = 6"
    using q by (simp add: mag_parsepkt_def ds motion_packet_def)
  obtain dev' sb' where sw: "sb4000_switch (dev, sb) = (dev', sb')" by fastforce
  then have "\<exists>es. queues es sb (set_keystate ks sb') \<and> length (sb_mot (set_keystate ks sb')) = 6" for ks
    using keystate_queues [of sb' ks] switch_wf [OF wf', of dev] switch_queues [of _ dev sb] by auto
  then have sball: "\<exists>es. queues es sb (snd (snd (sball_parsepkt pid data ds))) \<and>
      length (sb_mot (snd (snd (sball_parsepkt pid data ds)))) = 6"
    using q by (simp add: sball_parsepkt_def ds motion_packet_def Let_def sw)
  show ?thesis
    using q mag sball by (auto simp: call_parse_def ds split: option.split sb_proto.split)
qed

lemma call_parse_wf: "sball_wf (snd ds) \<Longrightarrow> sball_wf (snd (call_parse pid data ds))"
  using call_parse_queues [of ds pid data] queues_wf by blast

section \<open>The packets of the input\<close>

fun packets :: "char list \<Rightarrow> char list \<Rightarrow> char list list \<times> char list" where
  \<comment> \<open>the packets that a carriage return ends, and the characters after the last one\<close>
  "packets cur [] = ([], cur)"
| "packets cur (c # cs) =
     (if c = CR then (let (ps, rest) = packets [] cs in (cur # ps, rest)) else packets (cur @ [c]) cs)"

definition handle_packet :: "char list \<Rightarrow> sbdev \<Rightarrow> sbdev" where
  "handle_packet p ds = (case p of [] \<Rightarrow> call_parse NUL [] ds | pid # data \<Rightarrow> call_parse pid data ds)"

definition pending :: "sball \<Rightarrow> char list" where
  "pending sb = take (sb_len sb) (sb_buf sb)"

lemma packets_split: "packets cur cs = (ps, rest) \<Longrightarrow>
   cur @ cs = concat (map (\<lambda>p. p @ [CR]) ps) @ rest"
  by (induction cur cs arbitrary: ps rule: packets.induct) (auto simp: split_beta Let_def split: if_splits)

lemma scan_input_packets: "packets cur cs = (ps, rest) \<Longrightarrow>
   scan_input cs cur start ds = (start + (length cur + length cs - length rest), fold handle_packet ps ds)"
proof (induction cs cur start ds arbitrary: ps rule: scan_input.induct)
  case (1 cur start ds)
  then show ?case by simp
next
  case (2 c cs cur start ds)
  show ?case
  proof (cases "c = CR")
    case True
    then obtain ps' where p: "packets [] cs = (ps', rest)" "ps = cur # ps'"
      using 2 by (auto split: prod.splits)
    have "length rest \<le> length cs" using packets_split [OF p(1)] by (metis append_Nil length_append le_add2)
    with 2(1) [OF True p(1)] True show ?thesis by (simp add: p(2) handle_packet_def)
  next
    case False
    with 2 show ?thesis by simp
  qed
qed

lemma packets_rest: "packets [] cs = (ps, rest) \<Longrightarrow>
    length rest \<le> length cs \<and> drop (length cs - length rest) cs = rest"
  using packets_split [of "[]" cs ps rest] by simp

lemma handle_packet_queues: "sball_wf (snd ds) \<Longrightarrow>
    \<exists>es. queues es (snd ds) (snd (handle_packet p ds)) \<and> length (sb_mot (snd (handle_packet p ds))) = 6"
  unfolding handle_packet_def
  by (cases p; simp only: list.case) (rule call_parse_queues, assumption)+

lemma packets_queues: "sball_wf (snd ds) \<Longrightarrow>
    \<exists>es. queues es (snd ds) (snd (fold handle_packet ps ds)) \<and> sball_wf (snd (fold handle_packet ps ds))"
proof (induction ps arbitrary: ds)
  case Nil
  then show ?case using none_queues by fastforce
next
  case (Cons p ps)
  from handle_packet_queues [OF Cons.prems, of p] obtain es where
    es: "queues es (snd ds) (snd (handle_packet p ds))" "sball_wf (snd (handle_packet p ds))"
    using queues_wf [OF Cons.prems] by blast
  from Cons.IH [OF es(2)] obtain fs where
    "queues fs (snd (handle_packet p ds)) (snd (fold handle_packet ps (handle_packet p ds)))"
    "sball_wf (snd (fold handle_packet ps (handle_packet p ds)))" by blast
  with queues_trans [OF sball_wfD(1) [OF Cons.prems] es(1)] show ?case by auto
qed

lemma append_input_wf: "sball_wf sb \<Longrightarrow> sb_len sb + length cs < 256 \<Longrightarrow> sball_wf (append_input cs sb)"
  by (simp add: sball_wf_def append_input_def evq_ok_def)

lemma append_input_pending:
  "sball_wf sb \<Longrightarrow> sb_len sb + length cs < 256 \<Longrightarrow> pending (append_input cs sb) = pending sb @ cs"
  by (simp add: sball_wf_def append_input_def pending_def)

lemma evq_ok_move [simp]: "evq_ok (move_rest sz sb) = evq_ok sb"
  by (simp add: move_rest_def evq_ok_def)

lemma move_rest_wf: "sball_wf sb \<Longrightarrow> sz \<le> sb_len sb \<Longrightarrow> sball_wf (move_rest sz sb)"
  by (auto simp: sball_wf_def move_rest_def evq_ok_def min_def)

lemma sb_len_move [simp]: "sb_len (move_rest sz sb) = sb_len sb - sz"
  by (simp add: move_rest_def)

lemma proc_input_fold:
  assumes "packets [] (pending (snd ds)) = (ps, rest)"
  shows "proc_input ds = (fst (fold handle_packet ps ds),
    move_rest (length (pending (snd ds)) - length rest) (snd (fold handle_packet ps ds)))"
  using scan_input_packets [OF assms, of 0 ds]
  by (simp add: proc_input_def Let_def split_beta pending_def [symmetric])

lemma length_pending: "sball_wf sb \<Longrightarrow> length (pending sb) = sb_len sb"
  by (simp add: pending_def sball_wf_def)

lemma proc_input_wf:
  assumes wf: "sball_wf (snd ds)"
  shows "sball_wf (snd (proc_input ds)) \<and> sb_len (snd (proc_input ds)) \<le> sb_len (snd ds)"
proof -
  obtain ps rest where p: "packets [] (pending (snd ds)) = (ps, rest)" by fastforce
  from packets_queues [OF wf, of ps] have q:
    "sball_wf (snd (fold handle_packet ps ds))" "sb_len (snd (fold handle_packet ps ds)) = sb_len (snd ds)"
    by (auto simp: queues_def)
  then have "sball_wf (move_rest (length (pending (snd ds)) - length rest) (snd (fold handle_packet ps ds)))"
    by (intro move_rest_wf) (simp_all add: length_pending [OF wf])
  then show ?thesis by (simp add: proc_input_fold [OF p] q)
qed

lemma pending_move:
  assumes "sz \<le> sb_len sb" "sb_len sb \<le> length (sb_buf sb)"
  shows "pending (move_rest sz sb)
    = (let r = drop sz (pending sb) in take sz r @ take (length r - sz) r)"
proof (cases "sz = 0")
  case True
  then show ?thesis by (simp add: pending_def move_rest_def)
next
  case False
  define n and b where "n = sb_len sb - sz" and "b = drop sz (sb_buf sb)"
  have n: "n \<le> length b" using assms by (simp add: n_def b_def)
  have r: "drop sz (pending sb) = take n b" by (simp add: pending_def n_def b_def drop_take)
  define A where "A = take sz (b @ replicate sz NUL)"
  have A: "length A = sz" "take n A = take sz (take n b)"
    using n by (simp_all add: A_def min.commute take_take)
  have "pending (move_rest sz sb) = take n (A @ b)"
    using False by (simp add: pending_def move_rest_def n_def b_def A_def)
  also have "\<dots> = take sz (take n b) @ take (n - sz) b"
    by (simp only: take_append A)
  also have "take (n - sz) b = take (length (take n b) - sz) (take n b)"
    using n by (simp add: min_def)
  finally show ?thesis by (simp only: r Let_def)
qed

section \<open>Reading keeps the device well formed\<close>

lemma sys_read_bound: "length (fst (sys_read n chunks)) \<le> n"
  by (simp add: sys_read_def split: list.split)

lemma serial_read_loop_wf:
  "sball_wf (snd ds) \<Longrightarrow> sball_wf (snd (snd (serial_read_loop chunks ds)))"
proof (induction chunks ds rule: serial_read_loop.induct)
  case (1 chunks ds)
  obtain bs chunks' where r: "sys_read (256 - sb_len (snd ds) - 1) chunks = (bs, chunks')" by fastforce
  show ?case
  proof (cases "bs = []")
    case True
    with 1(2) r show ?thesis by (subst serial_read_loop.simps) simp
  next
    case False
    have "length bs \<le> 256 - sb_len (snd ds) - 1"
      using sys_read_bound [of "256 - sb_len (snd ds) - 1" chunks] unfolding r by simp
    with False have "sball_wf (append_input bs (snd ds))"
      by (intro append_input_wf 1) (cases bs, auto)
    then have "sball_wf (snd (proc_input (fst ds, append_input bs (snd ds))))"
      using proc_input_wf [of "(fst ds, append_input bs (snd ds))"] by simp
    with 1(1) [OF r [symmetric] refl False] r False show ?thesis
      by (subst serial_read_loop.simps) simp
  qed
qed

lemma evq_pop_wf: "sball_wf sb \<Longrightarrow> evq_pop sb = Some (inp, sb') \<Longrightarrow> sball_wf sb'"
  using evq_pop_Some(1) [of sb inp sb'] by (auto simp: sball_wf_def evq_pop_def split: if_splits)

definition serial_wf :: "device \<Rightarrow> bool" where
  "serial_wf dev \<longleftrightarrow> (case d_data dev of None \<Rightarrow> True | Some sb \<Rightarrow> sball_wf sb)"

definition serial_after :: "char list list \<Rightarrow> device \<Rightarrow> device" where
  "serial_after chunks dev = snd (fst (read_dev_serial chunks dev))"

lemma serial_overflow_wf: "sball_wf (snd ds) \<Longrightarrow> serial_overflow ds = ds"
  using sball_wfD(4) [of "snd ds"] by (simp add: serial_overflow_def)

interpretation serial_read: step_invariant serial_after serial_wf
proof
  fix dev chunks assume wf: "serial_wf dev"
  show "serial_wf (serial_after chunks dev)"
  proof (cases "d_data dev")
    case None
    with wf show ?thesis by (simp add: serial_after_def read_dev_serial_def serial_wf_def)
  next
    case (Some sb)
    with wf have "sball_wf sb" by (simp add: serial_wf_def)
    with serial_read_loop_wf [of "(dev, sb)" chunks]
    have "sball_wf (snd (snd (serial_read_loop chunks (dev, sb))))" by simp
    with Some evq_pop_wf [OF this] show ?thesis
      by (auto simp: serial_after_def read_dev_serial_def serial_wf_def serial_overflow_wf split_beta
          split: option.split)
  qed
qed

section \<open>Escapes\<close>

definition sball_escape :: "char \<Rightarrow> char list" where
  \<comment> \<open>how the device sends a character of a packet: never as CR, XON or XOFF\<close>
  "sball_escape c =
     (if c = CHR 0x11 then ''^Q'' else if c = CHR 0x13 then ''^S'' else if c = CR then ''^M''
      else if c = CHR ''^'' then ''^^'' else [c])"

lemma decode_escape: "sball_decode (sball_escape c @ cs) = c # sball_decode cs"
  by (simp add: sball_escape_def)

lemma decode_escapes: "sball_decode (concat (map sball_escape cs)) = cs"
  by (induction cs) (simp_all add: decode_escape)

lemma decode_length: "length (sball_decode cs) \<le> length cs"
proof (induction cs rule: length_induct)
  case (1 cs)
  then have IH: "length ds < length cs \<Longrightarrow> length (sball_decode ds) \<le> length ds" for ds by blast
  show ?case
  proof (cases cs)
    case (Cons c ds)
    with IH [of ds] IH [of "tl ds"] show ?thesis
      by (cases ds) (simp_all del: sball_decode.simps(2) add: sball_decode.simps(2) [of c])
  qed simp
qed

lemma escape_no_control: "{CR, CHR 0x11, CHR 0x13} \<inter> set (sball_escape c) = {}"
  by (auto simp: sball_escape_def split: if_splits)

lemma packets_no_cr: "CR \<notin> set cs \<Longrightarrow> packets cur (cs @ CR # ds) =
    ((cur @ cs) # fst (packets [] ds), snd (packets [] ds))"
  by (induction cs arbitrary: cur) (auto simp: split_beta Let_def)

definition sample_dev :: "int \<Rightarrow> device" where
  "sample_dev i = \<lparr>d_addr = 0, d_id = i, d_fd = 0, d_data = Some (calloc_sball\<lparr>sb_parse := Some Mag\<rparr>), d_dangling = False,
     d_name = ''Magellan SpaceMouse'', d_path = ''/dev/ttyS0'', d_type = DEV_SM, d_usbid = (0, 0),
     d_flags = 0, num_axes = 6, num_buttons = 11, bnbase = 0, minval = [], maxval = [], fuzz = [],
     d_close = Some Serial_driver, d_read = Some Serial_driver, d_set_led = None, d_bnhack = None\<rparr>"

section \<open>Properties\<close>

text \<open>
  C15: the event queue of a serial device is a first-in first-out queue of 63 events that drops
  its oldest ones: after any sequence of pushes it holds the last 63 of what it held and what was
  pushed, and a read takes the oldest of them.
\<close>

theorem serial_queue_fifo:
  assumes "evq_ok sb"
  shows "evq_entries (fold (\<lambda>e. evq_push (\<lambda>_. e)) es sb)
      = drop (length (evq_entries sb) + length es - 63) (evq_entries sb @ es) \<and>
    (case evq_pop sb of
       None \<Rightarrow> evq_entries sb = []
     | Some (e, sb') \<Rightarrow> evq_entries sb = e # evq_entries sb' \<and> evq_ok sb')"
  using evq.pushes [OF assms] evq.pop_None [OF assms] evq.pop_entries [OF assms] evq.ok_pop [OF assms]
  by (auto split: option.split)

theorem serial_queue_fifo_witness:
  "evq_entries (fold (\<lambda>e. evq_push (\<lambda>_. e)) [button 0 True, button 1 True] calloc_sball)
     = [button 0 True, button 1 True]"
proof -
  have "evq_ok calloc_sball" "evq_entries calloc_sball = []"
    by (simp_all add: evq_ok_def evq_entries_def evq_count_def calloc_sball_def)
  with serial_queue_fifo [of calloc_sball "[button 0 True, button 1 True]"] show ?thesis by simp
qed

text \<open>
  C16: a Spaceball \<open>D\<close> packet, escaped as the device sends it, stores the six big endian axis
  positions it carries and queues exactly one motion event for every axis whose position changed,
  in the order of the axes, then one flush event if any changed; a packet of another length is
  refused and changes nothing.
\<close>

theorem sball_motion_packet:
  assumes "sball_wf sb"
  shows "let (r, dev', sb') = sball_parsepkt CHR ''D'' (concat (map sball_escape data)) (dev, sb) in
    if length data = 14 then
      r = 0 \<and> dev' = dev \<and> sb_mot sb' = map (sball_axis data) [0..<6] \<and>
      (\<exists>fl. inp_type fl = INP_FLUSH \<and> queues (motion_events (sb_mot sb) (sball_axis data) fl) sb sb')
    else r = - 1 \<and> dev' = dev \<and> sb' = sb"
proof (cases "length data = 14")
  case True
  then have "length (sball_decode (concat (map sball_escape data))) = 14" by (simp add: decode_escapes)
  from sball_motion [OF this, of dev sb] motion_packet_events [OF assms] True show ?thesis
    by (simp add: decode_escapes del: upt_Suc)
next
  case False
  then show ?thesis by (simp add: sball_parsepkt_def Let_def decode_escapes)
qed

definition sample_D :: "char list" where
  "sample_D = [CHR 0x00, CHR 0x01, CHR 0x00, CHR 0x0d, CHR 0xff, CHR 0xfe, CHR 0x00, CHR 0x00, CHR 0x00, CHR 0x00,
     CHR 0x00, CHR 0x00, CHR 0x80, CHR 0x11]"

theorem sball_motion_packet_witness:
  "sb_mot (snd (snd (sball_parsepkt CHR ''D'' (concat (map sball_escape sample_D)) (sample_dev 0, calloc_sball))))
     = [13, -2, 0, 0, 0, -32751]"
proof -
  have "map (sball_axis sample_D) [0..<6] = [13, -2, 0, 0, 0, -32751]"
    by (simp add: sball_axis_def sample_D_def int16_def byte_def upt_rec)
  moreover have "length sample_D = 14" by (simp add: sample_D_def)
  ultimately show ?thesis
    using sball_motion_packet [OF calloc_sball_wf, of sample_D "sample_dev 0"] by (simp add: split_beta Let_def)
qed

text \<open>
  A Magellan \<open>d\<close> packet of 24 nibble characters stores its six positions, each in the range
  of a \<open>short\<close>, and queues exactly the changed axes and one flush; a packet of another length
  is refused and changes nothing.
\<close>

theorem mag_motion_packet:
  assumes "sball_wf sb"
  shows "let (r, dev', sb') = mag_parsepkt CHR ''d'' data (dev, sb) in
    if length data = 24 then
      r = 0 \<and> dev' = dev \<and> sb_mot sb' = map (mag_axis data) [0..<6] \<and>
      list_all (\<lambda>v. -(2 ^ 15) \<le> v \<and> v < 2 ^ 15) (sb_mot sb') \<and>
      (\<exists>fl. inp_type fl = INP_FLUSH \<and> queues (motion_events (sb_mot sb) (mag_axis data) fl) sb sb')
    else r = - 1 \<and> dev' = dev \<and> sb' = sb"
proof (cases "length data = 24")
  case True
  have range: "-(2 ^ 15) \<le> mag_axis data i \<and> mag_axis data i < 2 ^ 15" for i
    by (simp only: mag_axis_def Let_def int16_range split: if_split) simp
  from mag_motion [OF True, of dev sb] motion_packet_events [OF assms] True range
  show ?thesis by (simp add: list_all_iff del: upt_Suc)
next
  case False
  then show ?thesis by (simp add: mag_parsepkt_def)
qed

definition sample_d :: "char list" where
  "sample_d = ''H00AH00AGOOOH000H000H000''"

theorem mag_motion_packet_witness:
  "sb_mot (snd (snd (mag_parsepkt CHR ''d'' sample_d (sample_dev 0, calloc_sball)))) = [1, 1, 1, 0, 0, 0]"
proof -
  have "map (mag_axis sample_d) [0..<6] = [1, 1, 1, 0, 0, 0]"
    by (simp add: mag_axis_def sample_d_def int16_def nib_def byte_def upt_rec)
  moreover have "length sample_d = 24" by (simp add: sample_d_def)
  ultimately show ?thesis
    using mag_motion_packet [OF calloc_sball_wf, of sample_d "sample_dev 0"] by (simp add: split_beta Let_def)
qed

text \<open>
  Key packets. A Spaceball \<open>K\<close> packet of two bytes makes the buttons it names, as far as the
  key mask has them, the key state, and queues one button event for each of the sixteen buttons
  that changed, in order; it is ignored by a device that was recognised as a 4000FLX. A \<open>.\<close>
  packet turns the device into a 4000FLX with twelve buttons, the first time, and then does the
  same with its own layout of the buttons.
\<close>

theorem sball_key_packet:
  assumes "sball_wf sb" "length data = 2"
  shows "let raw = concat (map sball_escape data);
             (rK, devK, sbK) = sball_parsepkt CHR ''K'' raw (dev, sb);
             (rP, devP, sbP) = sball_parsepkt CHR ''.'' raw (dev, sb) in
    rK = 0 \<and> rP = 0 \<and> devK = dev \<and>
    (if sb_flags sb AND SB4000 \<noteq> 0 then sbK = sb \<and> devP = dev
     else sb_keystate sbK = sball_keys data (sb_keymask sb) \<and>
       queues (key_events (sb_keystate sb) (sball_keys data (sb_keymask sb))) sb sbK \<and>
       num_buttons devP = 12 \<and> d_type devP = DEV_SB4000 \<and> sb_keymask sbP = 0xfff) \<and>
    sb_flags sbP AND SB4000 \<noteq> 0 \<and>
    sb_keystate sbP = sb4000_keys data \<and>
    queues (key_events (sb_keystate sb) (sb4000_keys data)) sb sbP"
proof -
  obtain dev' sb' where sw: "sb4000_switch (dev, sb) = (dev', sb')" by fastforce
  have f: "(w OR 1) AND 1 \<noteq> (0 :: u32)" for w
  proof -
    have "(w OR 1) AND 1 = 1" by (rule bit_word_eqI) (auto simp: bit_simps)
    then show ?thesis by simp
  qed
  have sb': "sball_wf sb'" "sb_keystate sb' = sb_keystate sb" "sb_flags sb' AND SB4000 \<noteq> 0"
    "if sb_flags sb AND SB4000 \<noteq> 0 then dev' = dev else num_buttons dev' = 12 \<and> d_type dev' = DEV_SB4000 \<and>
       sb_keymask sb' = 0xfff"
    using sw assms(1) f [of "sb_flags sb"]
    by (auto simp: sb4000_switch_def sball_wf_def evq_ok_def split: if_splits)
  have fr: "sb_flags (set_keystate ks s) = sb_flags s" "sb_keymask (set_keystate ks s) = sb_keymask s" for ks s
    by (simp_all add: set_keystate_def Let_def gen_button_frame)
  note ev = set_keystate_queues [OF sball_wfD(1) [OF assms(1)]] set_keystate_queues [OF sball_wfD(1) [OF sb'(1)]]
  have "queues (key_events (sb_keystate sb) ks) sb (set_keystate ks sb')" for ks
    using ev(4) [of ks] switch_queues [of _ dev sb "set_keystate ks sb'"] by (simp add: sw sb'(2))
  then show ?thesis
    using ev sb' assms(2) by (auto simp: sball_parsepkt_def Let_def decode_escapes sw fr)
qed

theorem sball_key_packet_witness:
  "sb_keystate (snd (snd (sball_parsepkt CHR ''.'' (concat (map sball_escape ''A!'')) (sample_dev 0, calloc_sball)))) = 0xa1"
proof -
  have "sb4000_keys ''A!'' = 0xa1" by (simp add: sb4000_keys_def byte_def)
  with sball_key_packet [OF calloc_sball_wf, of "''A!''" "sample_dev 0"] show ?thesis
    by (simp add: split_beta Let_def)
qed

text \<open>
  The escapes of a Spaceball packet: decoding what the device sends for any characters
  gives them back, and no CR, XON or XOFF is ever sent inside a packet, so a CR ends one.
\<close>

theorem sball_escape_roundtrip:
  "sball_decode (concat (map sball_escape data)) = data \<and>
   {CR, CHR 0x11, CHR 0x13} \<inter> set (concat (map sball_escape data)) = {} \<and>
   packets [] (concat (map sball_escape data) @ CR # later)
     = (concat (map sball_escape data) # fst (packets [] later), snd (packets [] later))"
proof -
  have "{CR, CHR 0x11, CHR 0x13} \<inter> set (concat (map sball_escape data)) = {}"
    using escape_no_control by fastforce
  with packets_no_cr [of "concat (map sball_escape data)" "[]" later] show ?thesis
    by (simp add: decode_escapes)
qed

text \<open>
  C12: \<open>proc_input\<close> hands every packet that a carriage return ends to the packet handler, in
  order, and keeps the characters after the last one, if they are no more than the characters
  it consumed. If they are more, the call to \<open>memmove\<close> moves too few of them: the buffer then
  holds the first of them, as many as were consumed, followed by its own beginning again.
\<close>

theorem proc_input_packets:
  assumes "sball_wf sb" "packets [] (pending sb) = (ps, rest)"
  shows "let (dev', sb') = proc_input (dev, sb);
             (dev_p, sb_p) = fold handle_packet ps (dev, sb);
             sz = length (pending sb) - length rest in
    dev' = dev_p \<and> sball_wf sb' \<and> evq_entries sb' = evq_entries sb_p \<and> sb_mot sb' = sb_mot sb_p \<and>
    sb_keystate sb' = sb_keystate sb_p \<and>
    pending sb' = (if sz = 0 \<or> length rest \<le> sz then rest
                   else take sz rest @ take (length rest - sz) rest)"
proof -
  let ?sz = "length (pending sb) - length rest"
  obtain d s where f: "fold handle_packet ps (dev, sb) = (d, s)" by fastforce
  have p: "proc_input (dev, sb) = (d, move_rest ?sz s)"
    using proc_input_fold [of "(dev, sb)" ps rest] assms(2) f by simp
  have wf: "sball_wf s" "pending s = pending sb" "sb_len s = sb_len sb"
    using packets_queues [of "(dev, sb)" ps] assms(1) f by (auto simp: queues_def pending_def)
  have r: "length rest \<le> length (pending sb)" "drop ?sz (pending sb) = rest"
    using packets_rest [OF assms(2)] by simp_all
  have "pending (move_rest ?sz s) = take ?sz rest @ take (length rest - ?sz) rest"
    using pending_move [of ?sz s] sball_wfD(3, 4) [OF wf(1)] length_pending [OF assms(1)] wf r
    by (simp add: Let_def)
  moreover have "evq_entries (move_rest ?sz s) = evq_entries s" "sb_mot (move_rest ?sz s) = sb_mot s"
    "sb_keystate (move_rest ?sz s) = sb_keystate s"
    by (simp_all add: move_rest_def evq_entries_def evq_count_def)
  moreover have "sball_wf (move_rest ?sz s)"
    by (rule move_rest_wf [OF wf(1)]) (simp add: wf length_pending [OF assms(1)])
  ultimately show ?thesis by (auto simp: p f)
qed

theorem proc_input_packets_witness:
  "pending (snd (proc_input (sample_dev 0, append_input (''k'' @ [CR] @ ''dHHHH'') calloc_sball))) = ''dHdHH'' \<and>
   pending (snd (proc_input (sample_dev 0, append_input (''k000'' @ [CR] @ ''dHHHH'') calloc_sball))) = ''dHHHH''"
proof -
  have wf: "sball_wf (append_input (''k'' @ [CR] @ ''dHHHH'') calloc_sball)"
    "sball_wf (append_input (''k000'' @ [CR] @ ''dHHHH'') calloc_sball)"
    by (rule append_input_wf [OF calloc_sball_wf], simp add: calloc_sball_def)+
  have p: "pending (append_input (''k'' @ [CR] @ ''dHHHH'') calloc_sball) = ''k'' @ [CR] @ ''dHHHH''"
    "pending (append_input (''k000'' @ [CR] @ ''dHHHH'') calloc_sball) = ''k000'' @ [CR] @ ''dHHHH''"
    by (subst append_input_pending [OF calloc_sball_wf]; simp add: calloc_sball_def pending_def)+
  show ?thesis
    using proc_input_packets [OF wf(1), of "[''k'']" "''dHHHH''" "sample_dev 0"]
      proc_input_packets [OF wf(2), of "[''k000'']" "''dHHHH''" "sample_dev 0"]
    unfolding p by (simp add: split_beta Let_def)
qed

text \<open>
  C9: whatever bytes arrive, in whatever pieces, reading a serial device keeps the device well
  formed: the indices of its event queue, the size of its buffers, and the length of the input,
  which stays below the size of the buffer, so that no \<open>read\<close> is ever given room beyond it.
\<close>

theorem serial_read_keeps_wf:
  "serial_wf dev \<Longrightarrow> serial_wf (fold serial_after reads dev)"
  by (rule serial_read.run_inv)

theorem serial_read_keeps_wf_witness:
  "serial_wf (fold serial_after [[''k012'', [CR]], [''dHHHH'']] (sample_dev 0))"
  by (rule serial_read_keeps_wf)
    (use calloc_sball_wf in \<open>simp add: serial_wf_def sample_dev_def sball_wf_def evq_ok_def\<close>)

text \<open>
  The code that discards a full buffer is never reached: \<open>read\<close> is always asked for one byte
  less than there is room for, so the input never reaches the size of the buffer. A device whose
  buffer holds 255 bytes consumes no further byte, its buffer is never emptied, and a read gives
  what is left in the queue.
\<close>

theorem serial_full_buffer_stuck:
  assumes "d_data dev = Some sb" "sball_wf sb" "sb_len sb = INP_BUF_SZ - 1" "[] \<notin> set chunks"
  shows "read_dev_serial chunks dev =
    (case evq_pop sb of
       None \<Rightarrow> ((None, dev), chunks)
     | Some (inp, sb') \<Rightarrow> ((Some inp, dev\<lparr>d_data := Some sb'\<rparr>), chunks)) \<and>
    (\<forall>inp sb'. evq_pop sb = Some (inp, sb') \<longrightarrow> pending sb' = pending sb)"
proof -
  have "sys_read 0 chunks = ([], chunks)"
    using assms(4) by (auto simp: sys_read_def split: list.split)
  with assms(3) have "serial_read_loop chunks (dev, sb) = (chunks, (dev, sb))"
    by (subst serial_read_loop.simps) simp
  moreover have "dev\<lparr>d_data := Some sb\<rparr> = dev" using assms(1) by simp
  ultimately show ?thesis
    using assms(1, 2)
    by (auto simp: read_dev_serial_def serial_overflow_wf pending_def evq_pop_def split: if_splits)
qed

definition clogged :: sball where
  "clogged = append_input (replicate 255 CHR ''d'') calloc_sball"

theorem serial_full_buffer_stuck_witness:
  "read_dev_serial [[CR]] ((sample_dev 0)\<lparr>d_data := Some clogged\<rparr>)
     = ((None, (sample_dev 0)\<lparr>d_data := Some clogged\<rparr>), [[CR]])"
proof -
  have "sball_wf clogged"
    unfolding clogged_def by (rule append_input_wf [OF calloc_sball_wf]) (simp add: calloc_sball_def)
  moreover have "sb_len clogged = 255" "evq_pop clogged = None"
    by (simp_all add: clogged_def append_input_def calloc_sball_def evq_pop_def)
  ultimately show ?thesis
    using serial_full_buffer_stuck [of "(sample_dev 0)\<lparr>d_data := Some clogged\<rparr>" clogged "[[CR]]"] by simp
qed

text \<open>
  The buffer \<open>errbuf\<close> that \<open>sball_parsepkt\<close> allocates for its error messages is large enough for
  every packet that has at least one character, escapes only make it larger than needed; but for
  an empty packet, two carriage returns in a row, whose length is \<open>- 1\<close>, the fallback message is
  longer than the buffer.
\<close>

theorem errbuf_fits:
  "errbuf_written pid (sball_decode raw) \<le> errbuf_size (int (length raw)) \<and>
   errbuf_written NUL [] > errbuf_size (- 1)"
proof -
  let ?data = "sball_decode raw"
  have "length ?data \<le> length raw" by (rule decode_length)
  then have len: "int (length ?data) \<le> int (length raw)" by simp
  have e: "sum_list (map (\<lambda>c. if isprint c then 2 else hex_digits c + 2) xs) \<le> 16 * int (length xs)"
    and d: "sum_list (map (\<lambda>c. hex_digits c + 1) xs) \<le> 16 * int (length xs)" for xs
    by (induction xs) (auto simp: hex_digits_def)
  have "errbuf_written pid ?data \<le> errbuf_size (int (length raw))"
    using len e [of ?data] d [of ?data] unfolding errbuf_written_def errbuf_size_def by (simp split: if_split)
  moreover have "errbuf_written NUL [] > errbuf_size (- 1)"
    by (simp add: errbuf_written_def errbuf_size_def)
  ultimately show ?thesis by simp
qed

end
