(* ===== verification/Daemon.thy ===== *)
theory Daemon
  imports Serial StrProto CfgFile
begin

text \<open>
  The state of the daemon and its clients: every global variable that the modelled files share
  (the configuration, the list of devices, the list of clients and its iterator, the list of pending
  device events, the listening socket, the connection to the X server), the environment it talks
  to, and the functions of src/client.c.

  A pointer to a client or device is a natural number, its address, and the lists hold the nodes
  with their addresses in the order of the \<open>next\<close> pointers. An allocation takes the next number as
  its address, if \<open>mem\<close> says that it succeeds, so that the address of a freed node is never that
  of a later one. What the daemon writes (to sockets, devices, the X server and the virtual
  keyboard) is appended to \<open>out\<close>; what it reads comes from the fields that end in \<open>_in\<close>, and the
  n-th call of \<open>gettimeofday\<close> returns \<open>clock n\<close>. A use of a freed node, or of an array beyond its
  end, sets \<open>fault\<close>: C gives such a program no meaning.
\<close>

section \<open>Events\<close>

record timeval =
  tv_sec :: int
  tv_usec :: int

datatype spnav_event =
    EvMotion "int list" u32 \<comment> \<open>x, y, z, rx, ry, rz; period\<close>
  | EvButton int int \<comment> \<open>bnum, press\<close>
  | EvDev int int int "u32 \<times> u32" \<comment> \<open>op, id, devtype, usbid\<close>
  | EvCfg int "u32 list" \<comment> \<open>cfg, data\<close>
  | EvRawAxis int int \<comment> \<open>idx, value\<close>
  | EvRawButton int int \<comment> \<open>bnum, press\<close>

abbreviation (input) DEV_ADD :: int where "DEV_ADD \<equiv> 0"
abbreviation (input) DEV_RM :: int where "DEV_RM \<equiv> 1"

text \<open>
  \<open>struct dev_event\<close>: its event is always a motion event, whose \<open>data\<close> pointer points to its own
  six axes; \<open>de_dev\<close> is the address of the device.
\<close>

record dev_event =
  de_motion :: "int list"
  de_period :: u32
  de_time :: timeval
  de_dev :: nat
  de_pending :: bool
  de_hold :: "timeval list"

section \<open>Clients\<close>

datatype client_type = CLIENT_X11 | CLIENT_UNIX

abbreviation (input) EVMASK_MOTION :: u32 where "EVMASK_MOTION \<equiv> 0x01"
abbreviation (input) EVMASK_BUTTON :: u32 where "EVMASK_BUTTON \<equiv> 0x02"
abbreviation (input) EVMASK_DEV :: u32 where "EVMASK_DEV \<equiv> 0x04"
abbreviation (input) EVMASK_CFG :: u32 where "EVMASK_CFG \<equiv> 0x08"
abbreviation (input) EVMASK_RAWAXIS :: u32 where "EVMASK_RAWAXIS \<equiv> 0x10"
abbreviation (input) EVMASK_RAWBUTTON :: u32 where "EVMASK_RAWBUTTON \<equiv> 0x20"

record client =
  c_addr :: nat
  c_type :: client_type
  c_sock :: int
  c_proto :: int
  c_win :: u32
  c_sens :: f32
  c_dev :: "nat option"
  c_name :: "char list option"
  c_evmask :: u32
  c_reqbuf :: "char list"
  c_strbuf :: strbuf

text \<open>
  \<open>c_reqbuf\<close> holds the \<open>reqbytes\<close> bytes received so far.
\<close>

section \<open>What the daemon writes\<close>

text \<open>Terminal settings: the names of the flags, the special characters, the speed.\<close>

record termios =
  c_iflag :: "string list"
  c_oflag :: "string list"
  c_lflag :: "string list"
  c_cflag :: "string list"
  c_cc :: "(string \<times> int) list"
  c_speed :: int

datatype effect =
    Uevent int "u32 list" \<comment> \<open>an event: socket, the eight items\<close>
  | Reply int reqresp \<comment> \<open>a response of protocol version 1\<close>
  | ProtoReply int u32 \<comment> \<open>the answer to a request to change the protocol\<close>
  | XMotion u32 "int list" \<comment> \<open>\<open>XSendEvent\<close>: window, the first nine shorts of the message\<close>
  | XButton u32 bool int \<comment> \<open>\<open>XSendEvent\<close>: window, press, button\<close>
  | Led int int \<comment> \<open>an LED event: file descriptor of the device, state\<close>
  | UinputKey string int \<comment> \<open>\<open>EV_KEY\<close>: key code, value\<close>
  | UinputSyn \<comment> \<open>\<open>EV_SYN\<close>\<close>
  | UinputCmd string \<comment> \<open>an \<open>ioctl\<close> of the virtual keyboard\<close>
  | XKey nat bool \<comment> \<open>a key event through the X server: key code, press\<close>
  | XCreateWindow
  | XDestroyWindow
  | XSetCommand u32 \<comment> \<open>the property \<open>CommandEvent\<close> of a root window is set\<close>
  | XDeleteCommand u32 \<comment> \<open>it is deleted\<close>
  | XClose nat
  | SerialWrite int string
  | Tcsetattr int termios
  | Grab int
  | Alarm int
  | Close int
  | Unlink string

datatype kbemu = Kb_dummy | Kb_x11 | Kb_uinput

text \<open>
  The connection to the X server (\<open>dpy\<close> of src/proto_x11.c and the copy \<open>kb_dpy\<close> that src/kbemu_x11.c
  keeps) is the address of the \<open>Display\<close>; \<open>kb_send\<close> are the function pointers of src/kbemu.c, \<open>uinput_open\<close>
  is what opening \<open>/dev/uinput\<close> gives and whether its set-up succeeds, \<open>x_keycode\<close> is \<open>XKeysymToKeycode\<close>.
\<close>

section \<open>What the daemon finds\<close>

text \<open>
  What a read of an evdev device returns: an event (type, code, value), the end of file or an error.
  Without any, there is nothing to read at present (\<open>EAGAIN\<close>).
\<close>

datatype evdev_read = Iev int int int | Rd_eof | Rd_err

text \<open>
  A turn of the loop of \<open>read_timeout\<close>: the line has input, and \<open>read\<close> returns it or fails; or it has
  none, and the microseconds since the reference time are the given number; or \<open>select\<close> fails.
\<close>

datatype tty_poll = Ready "char list" | Read_fails | Idle int | Select_fails

record tty =
  t_stat :: "bool option" \<comment> \<open>\<open>stat\<close>: whether it is a character device\<close>
  t_open :: int \<comment> \<open>the file descriptor, -1 for none\<close>
  t_isatty :: bool
  t_saved :: termios \<comment> \<open>the settings found\<close>
  t_stty_sball :: bool \<comment> \<open>whether the settings can be changed\<close>
  t_stty_mag :: bool
  t_polls_sball :: "tty_poll list"
  t_polls_mag :: "tty_poll list"

text \<open>
  An evdev node: the file descriptor (-1: it cannot be opened), the answers to the requests for its
  name, its bits of absolute and relative axes and of keys (\<open>None\<close>: the request fails), and the range
  of each axis.
\<close>

record evnode =
  n_fd :: int
  n_chr :: bool \<comment> \<open>a character device\<close>
  n_usbid :: "(u32 \<times> u32) option"
  n_name :: "string option"
  n_abs :: "(nat \<Rightarrow> bool) option"
  n_rel :: "(nat \<Rightarrow> bool) option"
  n_key :: "(nat \<Rightarrow> bool) option"
  n_absinfo :: "nat \<Rightarrow> (int \<times> int \<times> int) option"

text \<open>A message for the window of the daemon: the first three shorts, and the first two as a float.\<close>

record xmsg =
  m_cmd :: bool \<comment> \<open>a client message of the type \<open>CommandEvent\<close>\<close>
  m_s0 :: int
  m_s1 :: int
  m_s2 :: int

text \<open>
  What Xlib finds on the connection: an event, an error (whether it is \<open>BadWindow\<close>, the resource), or that
  the server is gone.
\<close>

datatype x_input = Xmsg xmsg | Xerror bool u32 | Xlost

text \<open>The handler that is installed for \<open>SIGALRM\<close> (src/hotplug_linux.c).\<close>

datatype alarm_handler = No_alarm | Delay_timeout | Poll_timeout

text \<open>
  \<open>e_junk\<close> are the contents of uninitialised local variables, \<open>e_proc\<close> is \<open>/proc/bus/input/devices\<close>,
  \<open>e_dir\<close> the names in \<open>/dev/input\<close>; \<open>e_socket\<close>, \<open>e_bind\<close> and \<open>e_listen\<close> are the results of the calls
  of \<open>init_unix\<close>; \<open>e_roots\<close> are the root windows of the X server, \<open>e_keyname\<close> is \<open>XKeysymToString\<close>;
  \<open>e_netlink\<close> and \<open>e_netbind\<close> are the results of the calls of \<open>con_hotplug\<close>, \<open>e_pipe\<close> the file descriptors
  of its pipe, if there is one.
\<close>

record environment =
  e_junk :: "char list"
  e_tty :: "string \<Rightarrow> tty"
  e_node :: "string \<Rightarrow> evnode"
  e_proc :: "string option"
  e_dir :: "string list option"
  e_socket :: int
  e_bind :: bool
  e_listen :: bool
  e_roots :: "u32 list"
  e_keyname :: "u32 \<Rightarrow> string option"
  e_netlink :: int
  e_netbind :: bool
  e_pipe :: "(int \<times> int) option"

text \<open>
  \<open>cff\<close> is the state of src/cfgfile.c. \<open>sock_own\<close> says whether the pointer \<open>sockpath\<close> of src/proto_unix.c
  points to \<open>cfg.sockpath\<close>; \<open>hotplug_fd\<close> to \<open>delay_pipe\<close> are the variables of src/hotplug_linux.c, and
  \<open>pipe_in\<close> the number of bytes that wait in a pipe; \<open>sig_pipe\<close> is the read end of the pipe for signals.
  \<open>xdet_fd\<close> is \<open>fd\<close> of src/xdetect_linux.c. The results of the calls that can be made again, in their order: of
  \<open>XOpenDisplay\<close> (\<open>x_open\<close>: the display and the file descriptor of its connection), of \<open>inotify_init\<close>
  (\<open>ino_init\<close>), of \<open>inotify_add_watch\<close> (\<open>ino_watch\<close>); they fail when the list is empty. \<open>ino_in\<close> are the reads
  of an inotify descriptor, each the events (watch, name) it returns.
  A socket without input is one whose peer has hung up (or from which there is nothing to read, which
  the daemon does not distinguish); \<open>accept_in\<close> are the results of \<open>accept\<close>.
\<close>

record daemon =
  cfg :: cfg
  prev_cfg :: cfg
  dev_list :: "device list"
  last_id :: u16
  client_list :: "client list"
  client_iter :: "nat option"
  dev_ev_list :: "dev_event list"
  disable_translation :: bool
  disable_rotation :: bool
  dom_axis_mode :: bool
  cur_axis_mag :: "int list"
  cur_dom_axis :: nat
  lsock :: int
  sock_own :: bool
  dpy :: "nat option"
  x11_sens :: f32
  kb_send :: "kbemu option"
  kb_dpy :: "nat option"
  uinput_fd :: int
  uinput_open :: "int \<times> bool"
  x_keycode :: "u32 \<Rightarrow> nat"
  fresh :: nat
  mem :: "nat \<Rightarrow> bool"
  clock :: "nat \<Rightarrow> timeval"
  ticks :: nat
  cff :: cfgfile
  hotplug_fd :: int
  poll_time :: int
  poll_pipe :: int
  delay_pending :: bool
  delay_pipe :: "int \<times> int"
  on_alarm :: alarm_handler
  sig_pipe :: int
  x_fd :: int
  xdet_fd :: int
  watch_tmp :: int
  watch_x11 :: int
  display_env :: "string option"
  pidfile :: "string option"
  envt :: environment
  pipe_in :: "int \<Rightarrow> nat"
  accept_in :: "int list"
  x_open :: "(nat \<times> int) option list"
  x_in :: "x_input list"
  ino_init :: "int list"
  ino_watch :: "int list"
  ino_in :: "int \<Rightarrow> (int \<times> string) list list"
  sock_in :: "int \<Rightarrow> char list"
  evdev_in :: "int \<Rightarrow> evdev_read list"
  serial_in :: "int \<Rightarrow> char list list"
  out :: "effect list"
  fault :: bool

definition emit :: "effect \<Rightarrow> daemon \<Rightarrow> daemon" where
  "emit e d = d\<lparr>out := out d @ [e]\<rparr>"

definition calloc :: "daemon \<Rightarrow> nat option \<times> daemon" where
  "calloc d = (if mem d (fresh d) then Some (fresh d) else None, d\<lparr>fresh := fresh d + 1\<rparr>)"

definition gettimeofday :: "daemon \<Rightarrow> timeval \<times> daemon" where
  "gettimeofday d = (clock d (ticks d), d\<lparr>ticks := ticks d + 1\<rparr>)"

section \<open>The LEDs of the devices\<close>

definition set_led_evdev :: "device \<Rightarrow> int \<Rightarrow> daemon \<Rightarrow> daemon" where
  "set_led_evdev dev state d = (if d_fd dev < 0 then d else emit (Led (d_fd dev) state) d)"

definition set_device_led :: "device \<Rightarrow> int \<Rightarrow> daemon \<Rightarrow> daemon" where
  \<comment> \<open>only the evdev driver has a \<open>set_led\<close> function\<close>
  "set_device_led dev state d =
     (case d_set_led dev of
        Some Evdev_driver \<Rightarrow> set_led_evdev dev state d
      | _ \<Rightarrow> d)"

definition set_devices_led :: "int \<Rightarrow> daemon \<Rightarrow> daemon" where
  "set_devices_led state d = fold (\<lambda>dev. set_device_led dev state) (dev_list d) d"

section \<open>The list of clients\<close>

definition calloc_client :: "nat \<Rightarrow> client" where
  "calloc_client a = \<lparr>c_addr = a, c_type = CLIENT_X11, c_sock = 0, c_proto = 0, c_win = 0, c_sens = 0,
     c_dev = None, c_name = None, c_evmask = 0, c_reqbuf = [], c_strbuf = strbuf_init\<rparr>"

definition add_client :: "client_type \<Rightarrow> int \<Rightarrow> u32 \<Rightarrow> daemon \<Rightarrow> nat option \<times> daemon" where
  \<comment> \<open>the socket or the window, whichever the type asks for; \<open>cdata\<close> is never null\<close>
  "add_client ty sock win d =
     (let (a, d) = calloc d in
      case a of
        None \<Rightarrow> (None, d)
      | Some a \<Rightarrow>
          let c = (calloc_client a)\<lparr>c_type := ty\<rparr>;
              c = (if ty = CLIENT_UNIX then c\<lparr>c_sock := sock\<rparr> else c\<lparr>c_win := win\<rparr>);
              c = c\<lparr>c_proto := 0, c_evmask := EVMASK_MOTION OR EVMASK_BUTTON, c_sens := one_f32,
                    c_dev := None\<rparr>;
              d = (if client_list d = [] \<and> led (cfg d) = LED_AUTO then set_devices_led 1 d else d) in
          (Some a, d\<lparr>client_list := c # client_list d\<rparr>))"

definition unlink_client :: "nat \<Rightarrow> client list \<Rightarrow> client list" where
  \<comment> \<open>the loop that looks at the successors of a node\<close>
  "unlink_client a cs = (case cs of [] \<Rightarrow> [] | c # cs' \<Rightarrow> c # filter (\<lambda>c. c_addr c \<noteq> a) cs')"

definition remove_client :: "nat \<Rightarrow> daemon \<Rightarrow> daemon" where
  "remove_client a d =
     (case client_list d of
        [] \<Rightarrow> d
      | c # cs \<Rightarrow>
          if c_addr c = a then
            (if cs = [] then
               (let d = d\<lparr>client_list := []\<rparr> in
                if led (cfg d) = LED_AUTO then set_devices_led 0 d else d)
             else d\<lparr>client_list := unlink_client a cs\<rparr>)
          else d\<lparr>client_list := unlink_client a (c # cs)\<rparr>)"

definition get_device :: "nat \<Rightarrow> daemon \<Rightarrow> device option" where
  \<comment> \<open>the node at an address\<close>
  "get_device a d = search (\<lambda>dev. d_addr dev = a) (dev_list d)"

definition get_client_device :: "client \<Rightarrow> daemon \<Rightarrow> nat option" where
  "get_client_device c d =
     (case c_dev c of
        Some a \<Rightarrow> Some a
      | None \<Rightarrow> (case dev_list d of [] \<Rightarrow> None | dev # _ \<Rightarrow> Some (d_addr dev)))"

definition client_at :: "client list \<Rightarrow> nat option" where
  "client_at cs = (case cs of [] \<Rightarrow> None | c # _ \<Rightarrow> Some (c_addr c))"

definition first_client :: "daemon \<Rightarrow> nat option \<times> daemon" where
  "first_client d = (let p = client_at (client_list d) in (p, d\<lparr>client_iter := p\<rparr>))"

definition next_client :: "daemon \<Rightarrow> nat option \<times> daemon" where
  \<comment> \<open>reads the \<open>next\<close> pointer of the node the iterator points to, freed or not\<close>
  "next_client d =
     (case client_iter d of
        None \<Rightarrow> (None, d)
      | Some p \<Rightarrow>
          (case dropWhile (\<lambda>c. c_addr c \<noteq> p) (client_list d) of
             [] \<Rightarrow> (None, d\<lparr>fault := True\<rparr>)
           | c # cs \<Rightarrow> (let q = client_at cs in (q, d\<lparr>client_iter := q\<rparr>))))"

definition get_client :: "nat \<Rightarrow> daemon \<Rightarrow> client option" where
  "get_client a d = search (\<lambda>c. c_addr c = a) (client_list d)"

definition upd_client :: "nat \<Rightarrow> (client \<Rightarrow> client) \<Rightarrow> daemon \<Rightarrow> daemon" where
  "upd_client a f d = d\<lparr>client_list := map (\<lambda>c. if c_addr c = a then f c else c) (client_list d)\<rparr>"

section \<open>Well-formed lists of clients\<close>

definition clients_wf :: "daemon \<Rightarrow> bool" where
  "clients_wf d \<longleftrightarrow> distinct (map c_addr (client_list d)) \<and> list_all (\<lambda>c. c_addr c < fresh d) (client_list d)"

definition led_effects :: "int \<Rightarrow> device \<Rightarrow> effect list" where
  "led_effects state dev =
     (if d_set_led dev = Some Evdev_driver \<and> 0 \<le> d_fd dev then [Led (d_fd dev) state] else [])"

definition all_leds :: "int \<Rightarrow> daemon \<Rightarrow> effect list" where
  "all_leds state d = concat (map (led_effects state) (dev_list d))"

lemma set_device_led_out: "set_device_led dev state d = d\<lparr>out := out d @ led_effects state dev\<rparr>"
  by (simp add: set_device_led_def set_led_evdev_def led_effects_def emit_def
      split: option.split driver.split)

lemma set_devices_led_out: "set_devices_led state d = d\<lparr>out := out d @ all_leds state d\<rparr>"
proof -
  have "fold (\<lambda>dev. set_device_led dev state) devs d
      = d\<lparr>out := out d @ concat (map (led_effects state) devs)\<rparr>" for devs
    by (induction devs arbitrary: d) (simp_all add: set_device_led_out)
  then show ?thesis by (simp add: set_devices_led_def all_leds_def)
qed

lemma unlink_filter: "distinct (map c_addr (c # cs)) \<Longrightarrow> c_addr c \<noteq> a \<Longrightarrow>
    unlink_client a (c # cs) = filter (\<lambda>c. c_addr c \<noteq> a) (c # cs)"
  by (simp add: unlink_client_def)

lemma unlink_absent: "a \<notin> c_addr ` set cs \<Longrightarrow> unlink_client a cs = cs"
  by (cases cs) (auto simp: unlink_client_def intro!: filter_True)

lemma filter_absent: "a \<notin> c_addr ` set cs \<Longrightarrow> filter (\<lambda>c. c_addr c \<noteq> a) cs = cs"
  by (auto intro!: filter_True)

definition add_result :: "client_type \<Rightarrow> int \<Rightarrow> u32 \<Rightarrow> nat \<Rightarrow> client" where
  "add_result ty sock win a =
     (let c = (calloc_client a)\<lparr>c_type := ty, c_evmask := EVMASK_MOTION OR EVMASK_BUTTON, c_sens := one_f32\<rparr> in
      if ty = CLIENT_UNIX then c\<lparr>c_sock := sock\<rparr> else c\<lparr>c_win := win\<rparr>)"

lemma add_client_eq:
  "add_client ty sock win d =
     (if mem d (fresh d) then
        (Some (fresh d),
         d\<lparr>fresh := fresh d + 1, client_list := add_result ty sock win (fresh d) # client_list d,
           out := out d @ (if client_list d = [] \<and> led (cfg d) = LED_AUTO then all_leds 1 d else [])\<rparr>)
      else (None, d\<lparr>fresh := fresh d + 1\<rparr>))"
  by (simp add: add_client_def calloc_def add_result_def calloc_client_def set_devices_led_out all_leds_def Let_def)

lemma remove_client_eq:
  assumes "clients_wf d"
  shows "remove_client a d =
    (let cs = filter (\<lambda>c. c_addr c \<noteq> a) (client_list d) in
     d\<lparr>client_list := cs,
       out := out d @ (if client_list d \<noteq> [] \<and> cs = [] \<and> led (cfg d) = LED_AUTO then all_leds 0 d else [])\<rparr>)"
proof (cases "client_list d")
  case Nil
  then show ?thesis by (simp add: remove_client_def)
next
  case (Cons c cs)
  with assms have dist: "distinct (map c_addr (c # cs))" by (simp add: clients_wf_def)
  show ?thesis
  proof (cases "c_addr c = a")
    case True
    with dist have "a \<notin> c_addr ` set cs" by auto
    then have "unlink_client a cs = cs" "filter (\<lambda>c. c_addr c \<noteq> a) cs = cs"
      by (simp_all add: unlink_absent filter_absent)
    with True Cons show ?thesis
      by (simp add: remove_client_def set_devices_led_out all_leds_def Let_def)
  next
    case False
    with Cons unlink_filter [OF dist] show ?thesis by (simp add: remove_client_def Let_def)
  qed
qed

text \<open>
  The operations on the list of clients as steps, and what they keep: with the LEDs in automatic
  mode a device is lit exactly while there are clients.
\<close>

datatype client_op = Add client_type int u32 | Remove nat

fun client_step :: "client_op \<Rightarrow> daemon \<Rightarrow> daemon" where
  "client_step (Add ty sock win) d = snd (add_client ty sock win d)"
| "client_step (Remove a) d = remove_client a d"

definition led_lit :: "int \<Rightarrow> effect list \<Rightarrow> bool" where
  \<comment> \<open>the state of an LED after the daemon's output\<close>
  "led_lit fd es = fold (\<lambda>e s. case e of Led f st \<Rightarrow> if f = fd then st \<noteq> 0 else s | _ \<Rightarrow> s) es False"

definition auto_led_inv :: "daemon \<Rightarrow> bool" where
  "auto_led_inv d \<longleftrightarrow> clients_wf d \<and> led (cfg d) = LED_AUTO \<and>
     list_all (\<lambda>dev. led_effects 1 dev \<noteq> [] \<longrightarrow> led_lit (d_fd dev) (out d) = (client_list d \<noteq> [])) (dev_list d)"

lemma led_lit_leds:
  "led_lit fd (es @ all_leds st d) =
     (if \<exists>dev \<in> set (dev_list d). led_effects st dev \<noteq> [] \<and> d_fd dev = fd then st \<noteq> 0 else led_lit fd es)"
proof -
  let ?f = "\<lambda>e s. case e of Led f st \<Rightarrow> if f = fd then st \<noteq> 0 else s | _ \<Rightarrow> s"
  have "fold ?f (concat (map (led_effects st) devs)) b =
     (if \<exists>dev \<in> set devs. led_effects st dev \<noteq> [] \<and> d_fd dev = fd then st \<noteq> 0 else b)" for devs b
    by (induction devs arbitrary: b) (auto simp: led_effects_def)
  then show ?thesis unfolding led_lit_def all_leds_def fold_append comp_apply .
qed

lemma led_effects_state: "led_effects st dev = [] \<longleftrightarrow> led_effects 1 dev = []"
  by (simp add: led_effects_def)

lemma clients_wf_step: "clients_wf d \<Longrightarrow> clients_wf (client_step op d)"
proof (cases op)
  case (Add ty sock win)
  assume wf: "clients_wf d"
  have "c_addr (add_result ty sock win a) = a" for a
    by (simp add: add_result_def calloc_client_def Let_def)
  with wf Add show ?thesis
    by (auto simp: clients_wf_def add_client_eq list_all_iff)
next
  case (Remove a)
  assume wf: "clients_wf d"
  then have "distinct (map c_addr (filter (\<lambda>c. c_addr c \<noteq> a) (client_list d)))"
    by (simp add: clients_wf_def distinct_map_filter)
  with wf Remove show ?thesis
    by (auto simp: remove_client_eq clients_wf_def list_all_iff Let_def)
qed

interpretation client_ops: step_invariant client_step auto_led_inv
proof
  fix d op assume inv: "auto_led_inv d"
  then have wf: "clients_wf d" and auto: "led (cfg d) = LED_AUTO" by (simp_all add: auto_led_inv_def)
  have lit: "led_effects 1 dev \<noteq> [] \<Longrightarrow> dev \<in> set (dev_list d) \<Longrightarrow>
      led_lit (d_fd dev) (out d) = (client_list d \<noteq> [])" for dev
    using inv by (auto simp: auto_led_inv_def list_all_iff)
  have "list_all (\<lambda>dev. led_effects 1 dev \<noteq> [] \<longrightarrow>
      led_lit (d_fd dev) (out (client_step op d)) = (client_list (client_step op d) \<noteq> []))
      (dev_list (client_step op d)) \<and> led (cfg (client_step op d)) = LED_AUTO"
  proof (cases op)
    case (Add ty sock win)
    with lit auto show ?thesis
      by (auto simp: add_client_eq list_all_iff led_lit_leds)
  next
    case (Remove a)
    with lit auto show ?thesis
      by (auto simp: remove_client_eq [OF wf] list_all_iff Let_def led_lit_leds led_effects_state [of 0])
  qed
  with clients_wf_step [OF wf] show "auto_led_inv (client_step op d)" by (simp add: auto_led_inv_def)
qed

section \<open>Properties\<close>

text \<open>
  Removing a client takes exactly that node out of the list, at whatever position it is, and
  keeps the others in order; the LEDs are turned off if it was the last and they are automatic.
  Adding one puts a node at a new address in front, with the default sensitivity, event mask and
  protocol version, or changes nothing if there is no memory; both keep the list well formed.
\<close>

theorem client_list_operations:
  assumes "clients_wf d"
  shows "remove_client a d =
      (let cs = filter (\<lambda>c. c_addr c \<noteq> a) (client_list d) in
       d\<lparr>client_list := cs,
         out := out d @ (if client_list d \<noteq> [] \<and> cs = [] \<and> led (cfg d) = LED_AUTO then all_leds 0 d else [])\<rparr>) \<and>
    clients_wf (remove_client a d) \<and>
    (let (r, d') = add_client ty sock win d in
      clients_wf d' \<and>
      (if mem d (fresh d) then
         r = Some (fresh d) \<and> fresh d \<notin> c_addr ` set (client_list d) \<and>
       (\<exists>c. client_list d' = c # client_list d \<and> c_addr c = fresh d \<and> c_type c = ty \<and> c_proto c = 0 \<and>
            c_sens c = one_f32 \<and> c_evmask c = EVMASK_MOTION OR EVMASK_BUTTON \<and> c_dev c = None \<and> c_reqbuf c = [] \<and>
            (if ty = CLIENT_UNIX then c_sock c = sock else c_win c = win)) \<and>
         out d' = out d @ (if client_list d = [] \<and> led (cfg d) = LED_AUTO then all_leds 1 d else [])
       else r = None \<and> client_list d' = client_list d \<and> out d' = out d))"
proof (intro conjI)
  have "clients_wf (snd (add_client ty sock win d))"
    using clients_wf_step [OF assms, of "Add ty sock win"] by simp
  moreover have "fresh d \<notin> c_addr ` set (client_list d)"
    using assms by (auto simp: clients_wf_def list_all_iff)
  ultimately show "let (r, d') = add_client ty sock win d in
      clients_wf d' \<and>
      (if mem d (fresh d) then
         r = Some (fresh d) \<and> fresh d \<notin> c_addr ` set (client_list d) \<and>
       (\<exists>c. client_list d' = c # client_list d \<and> c_addr c = fresh d \<and> c_type c = ty \<and> c_proto c = 0 \<and>
            c_sens c = one_f32 \<and> c_evmask c = EVMASK_MOTION OR EVMASK_BUTTON \<and> c_dev c = None \<and> c_reqbuf c = [] \<and>
            (if ty = CLIENT_UNIX then c_sock c = sock else c_win c = win)) \<and>
         out d' = out d @ (if client_list d = [] \<and> led (cfg d) = LED_AUTO then all_leds 1 d else [])
       else r = None \<and> client_list d' = client_list d \<and> out d' = out d)"
    by (simp add: split_beta Let_def add_client_eq) (auto simp: add_result_def calloc_client_def Let_def)
  show "clients_wf (remove_client a d)" using clients_wf_step [OF assms, of "Remove a"] by simp
qed (rule remove_client_eq [OF assms])

definition no_tty :: tty where
  "no_tty = \<lparr>t_stat = None, t_open = - 1, t_isatty = False,
     t_saved = \<lparr>c_iflag = [], c_oflag = [], c_lflag = [], c_cflag = [], c_cc = [], c_speed = 9600\<rparr>, t_stty_sball = False, t_stty_mag = False,
     t_polls_sball = [], t_polls_mag = []\<rparr>"

definition no_node :: evnode where
  "no_node = \<lparr>n_fd = - 1, n_chr = False, n_usbid = None, n_name = None, n_abs = None, n_rel = None,
     n_key = None, n_absinfo = (\<lambda>_. None)\<rparr>"

definition bare_environment :: environment where
  \<comment> \<open>a machine without devices and without an X server\<close>
  "bare_environment = \<lparr>e_junk = replicate 256 (CHR ''?''), e_tty = (\<lambda>_. no_tty), e_node = (\<lambda>_. no_node),
     e_proc = None, e_dir = None, e_socket = 3, e_bind = True, e_listen = True,
     e_roots = [1], e_keyname = (\<lambda>_. None), e_netlink = - 1, e_netbind = True, e_pipe = Some (5, 6)\<rparr>"

definition start_state :: daemon where
  \<comment> \<open>the daemon after start-up with the default configuration\<close>
  "start_state = \<lparr>cfg = default_cfg, prev_cfg = default_cfg, dev_list = [], last_id = 0, client_list = [],
     client_iter = None, dev_ev_list = [], disable_translation = False, disable_rotation = False,
     dom_axis_mode = False, cur_axis_mag = replicate 6 0, cur_dom_axis = 0, lsock = 3, sock_own = False,
     dpy = None, x11_sens = one_f32, kb_send = Some Kb_dummy, kb_dpy = None, uinput_fd = - 1,
     uinput_open = (- 1, False), x_keycode = (\<lambda>_. 0), fresh = 0, mem = (\<lambda>_. True),
     clock = (\<lambda>n. \<lparr>tv_sec = int n, tv_usec = 0\<rparr>), ticks = 0, cff = sample_file [], hotplug_fd = - 1,
     poll_time = 0, poll_pipe = - 1, delay_pending = False, delay_pipe = (- 1, - 1), on_alarm = No_alarm,
     sig_pipe = 4, x_fd = - 1, xdet_fd = - 1, watch_tmp = - 1, watch_x11 = - 1, display_env = None,
     pidfile = None, envt = bare_environment,
     pipe_in = (\<lambda>_. 0), accept_in = [], x_open = [], x_in = [], ino_init = [], ino_watch = [], ino_in = (\<lambda>_. []), sock_in = (\<lambda>_. []), evdev_in = (\<lambda>_. []),
     serial_in = (\<lambda>_. []), out = [], fault = False\<rparr>"

lemma start_state_sel [simp]:
  "cfg start_state = default_cfg" "prev_cfg start_state = default_cfg" "dev_list start_state = []"
  "client_list start_state = []" "dev_ev_list start_state = []" "lsock start_state = 3"
  "fresh start_state = 0" "mem start_state n" "out start_state = []" "\<not> fault start_state"
  "dpy start_state = None" "client_iter start_state = None" "last_id start_state = 0"
  "cff start_state = sample_file []" "envt start_state = bare_environment" "\<not> delay_pending start_state"
  "hotplug_fd start_state = - 1" "poll_pipe start_state = - 1" "sig_pipe start_state = 4"
  "pipe_in start_state fd = 0" "sock_in start_state fd = []" "evdev_in start_state fd = []"
  "serial_in start_state fd = []" "accept_in start_state = []" "x_in start_state = []" "ticks start_state = 0"
  "x_open start_state = []" "ino_init start_state = []" "ino_watch start_state = []" "ino_in start_state fd = []"
  "xdet_fd start_state = - 1" "x_fd start_state = - 1" "on_alarm start_state = No_alarm" "delay_pipe start_state = (- 1, - 1)"
  "poll_time start_state = 0" "watch_x11 start_state = - 1" "watch_tmp start_state = - 1"
  by (simp_all add: start_state_def)

lemma start_state_clients: "clients_wf start_state"
  by (simp add: clients_wf_def start_state_def)

theorem client_list_operations_witness:
  "(let d = snd (add_client CLIENT_UNIX 7 0 start_state) in
    length (client_list d) = 1 \<and> client_list (remove_client 0 d) = [])"
proof -
  let ?d = "snd (add_client CLIENT_UNIX 7 0 start_state)"
  have d: "clients_wf ?d" "\<exists>c. client_list ?d = [c] \<and> c_addr c = 0"
    using client_list_operations [OF start_state_clients, where ty = CLIENT_UNIX and sock = 7 and win = 0]
    by (auto simp: split_beta Let_def)
  from client_list_operations [OF d(1), where a = 0] d(2) show ?thesis by (auto simp: Let_def)
qed

text \<open>
  C13: with the LEDs in automatic mode, through any sequence of clients that come and go, the LED
  of every device that has one is lit exactly while there is at least one client.
\<close>

theorem led_auto_tracks_clients:
  "auto_led_inv d \<Longrightarrow> auto_led_inv (fold client_step ops d)"
  by (rule client_ops.run_inv)

theorem led_auto_tracks_clients_witness:
  "auto_led_inv (fold client_step [Add CLIENT_UNIX 7 0, Add CLIENT_X11 0 5, Remove 0, Remove 1]
     (start_state\<lparr>cfg := default_cfg\<lparr>led := LED_AUTO\<rparr>,
        dev_list := [(sample_dev 0)\<lparr>d_set_led := Some Evdev_driver\<rparr>]\<rparr>))"
  by (rule led_auto_tracks_clients)
    (simp add: auto_led_inv_def clients_wf_def start_state_def led_lit_def)

end
