(* ===== verification/Dispatch.thy ===== *)
theory Dispatch
  imports Daemon
begin

text \<open>
  From an event to the clients: the packet a client of the socket gets (\<open>send_uevent\<close> of
  src/proto_unix.c), the message a client of the X server gets (\<open>send_xevent\<close> of src/proto_x11.c),
  and the choice of the clients (\<open>dispatch_event\<close>, \<open>broadcast_event\<close> and \<open>broadcast_cfg_event\<close> of
  src/event.c).
\<close>

abbreviation (input) UEV_MOTION :: u32 where "UEV_MOTION \<equiv> 0"
abbreviation (input) UEV_PRESS :: u32 where "UEV_PRESS \<equiv> 1"
abbreviation (input) UEV_RELEASE :: u32 where "UEV_RELEASE \<equiv> 2"
abbreviation (input) UEV_DEV :: u32 where "UEV_DEV \<equiv> 3"
abbreviation (input) UEV_CFG :: u32 where "UEV_CFG \<equiv> 4"
abbreviation (input) UEV_RAWAXIS :: u32 where "UEV_RAWAXIS \<equiv> 5"
abbreviation (input) UEV_RAWBUTTON :: u32 where "UEV_RAWBUTTON \<equiv> 6"

section \<open>Packets\<close>

definition scale :: "f32 \<Rightarrow> int \<Rightarrow> int" where
  \<comment> \<open>\<open>(int)((float)v * sens)\<close>\<close>
  "scale sens v = f32_to_int (f32_mul (f32_of_int v) sens)"

definition pad8 :: "u32 list \<Rightarrow> u32 list" where
  \<comment> \<open>the first items of \<open>data[8]\<close>, which starts as zeros\<close>
  "pad8 ws = ws @ replicate (8 - length ws) 0"

fun uevent_data :: "spnav_event \<Rightarrow> client \<Rightarrow> u32 list option" where
  "uevent_data (EvMotion ms period) c =
     (if c_evmask c AND EVMASK_MOTION = 0 then None
      else Some (UEV_MOTION # map (\<lambda>i. w32 (scale (c_sens c) (ms ! i))) [0..<6] @ [period]))"
| "uevent_data (EvRawAxis idx val) c =
     (if c_evmask c AND EVMASK_RAWAXIS = 0 then None else Some (pad8 [UEV_RAWAXIS, w32 idx, w32 val]))"
| "uevent_data (EvButton bnum press) c =
     (if c_evmask c AND EVMASK_BUTTON = 0 then None
      else Some (pad8 [if press \<noteq> 0 then UEV_PRESS else UEV_RELEASE, w32 bnum, w32 press]))"
| "uevent_data (EvRawButton bnum press) c =
     (if c_evmask c AND EVMASK_RAWBUTTON = 0 then None
      else Some (pad8 [UEV_RAWBUTTON, w32 bnum, w32 press]))"
| "uevent_data (EvDev op did devtype usbid) c =
     (if c_evmask c AND EVMASK_DEV = 0 then None
      else Some (pad8 [UEV_DEV, w32 op, w32 did, w32 devtype, fst usbid, snd usbid]))"
| "uevent_data (EvCfg opt data) c =
     (if c_evmask c AND EVMASK_CFG = 0 then None else Some (UEV_CFG # w32 opt # data))"

definition send_uevent :: "spnav_event \<Rightarrow> client \<Rightarrow> daemon \<Rightarrow> daemon" where
  "send_uevent ev c d =
     (if lsock d = - 1 then d
      else case uevent_data ev c of
        None \<Rightarrow> d
      | Some data \<Rightarrow> emit (Uevent (c_sock c) data) d)"

definition send_xevent :: "spnav_event \<Rightarrow> client \<Rightarrow> daemon \<Rightarrow> daemon" where
  \<comment> \<open>the shorts of a button message other than the button number are not set\<close>
  "send_xevent ev c d =
     (if dpy d = None then d
      else case ev of
        EvMotion ms period \<Rightarrow>
          emit (XMotion (c_win c)
            ([0, 0] @ map (\<lambda>i. int16 (scale (x11_sens d) (ms ! i))) [0..<6] @ [int16 (uint period)])) d
      | EvButton bnum press \<Rightarrow> emit (XButton (c_win c) (press \<noteq> 0) (int16 bnum)) d
      | _ \<Rightarrow> d)"

definition send_event :: "spnav_event \<Rightarrow> client \<Rightarrow> daemon \<Rightarrow> daemon" where
  "send_event ev c d =
     (case c_type c of CLIENT_X11 \<Rightarrow> send_xevent ev c d | CLIENT_UNIX \<Rightarrow> send_uevent ev c d)"

section \<open>The clients that get an event\<close>

fun dispatch_loop :: "nat \<Rightarrow> nat \<Rightarrow> spnav_event \<Rightarrow> nat option \<Rightarrow> daemon \<Rightarrow> daemon" where
  \<comment> \<open>the loop of \<open>dispatch_event\<close>; the first number bounds its rounds\<close>
  "dispatch_loop n dev ev None d = d"
| "dispatch_loop 0 dev ev (Some p) d = d"
| "dispatch_loop (Suc n) dev ev (Some p) d =
     (let (iter, d) = next_client d in
      case get_client p d of
        None \<Rightarrow> d\<lparr>fault := True\<rparr>
      | Some c \<Rightarrow>
          let client_dev = get_client_device c d;
              d = (if client_dev = None \<or> client_dev = Some dev then send_event ev c d else d) in
          dispatch_loop n dev ev iter d)"

definition dispatch_event :: "nat \<Rightarrow> spnav_event \<Rightarrow> daemon \<Rightarrow> daemon" where
  "dispatch_event dev ev d =
     (let (iter, d) = first_client d in dispatch_loop (length (client_list d)) dev ev iter d)"

definition broadcast_event :: "spnav_event \<Rightarrow> daemon \<Rightarrow> daemon" where
  \<comment> \<open>this loop follows the \<open>next\<close> pointers itself\<close>
  "broadcast_event ev d = (let (_, d) = first_client d in fold (send_event ev) (client_list d) d)"

definition broadcast_cfg_event :: "int \<Rightarrow> u32 \<Rightarrow> daemon \<Rightarrow> daemon" where
  "broadcast_cfg_event opt val d = broadcast_event (EvCfg opt [val, 0, 0, 0, 0, 0]) d"

section \<open>What is written for an event\<close>

definition deliver :: "daemon \<Rightarrow> spnav_event \<Rightarrow> client \<Rightarrow> effect list" where
  \<comment> \<open>the output of sending one event to one client\<close>
  "deliver d ev c =
     (case c_type c of
        CLIENT_X11 \<Rightarrow>
          if dpy d \<noteq> None then
            (case ev of
               EvMotion ms period \<Rightarrow>
                 [XMotion (c_win c) ([0, 0] @ map (\<lambda>i. int16 (scale (x11_sens d) (ms ! i))) [0..<6]
                    @ [int16 (uint period)])]
             | EvButton bnum press \<Rightarrow> [XButton (c_win c) (press \<noteq> 0) (int16 bnum)]
             | _ \<Rightarrow> [])
          else []
      | CLIENT_UNIX \<Rightarrow>
          if lsock d = - 1 then []
          else (case uevent_data ev c of None \<Rightarrow> [] | Some ws \<Rightarrow> [Uevent (c_sock c) ws]))"

definition deliver_all :: "daemon \<Rightarrow> spnav_event \<Rightarrow> client list \<Rightarrow> effect list" where
  "deliver_all d ev cs = concat (map (deliver d ev) cs)"

lemma send_event_out: "send_event ev c d = d\<lparr>out := out d @ deliver d ev c\<rparr>"
  by (simp add: send_event_def send_xevent_def send_uevent_def deliver_def emit_def
      split: client_type.split option.split spnav_event.split)

lemma deliver_cong:
  "lsock d' = lsock d \<Longrightarrow> dpy d' = dpy d \<Longrightarrow> x11_sens d' = x11_sens d \<Longrightarrow> deliver d' = deliver d"
  by (simp add: deliver_def fun_eq_iff split: client_type.split spnav_event.split)

lemma deliver_all_cong:
  "lsock d' = lsock d \<Longrightarrow> dpy d' = dpy d \<Longrightarrow> x11_sens d' = x11_sens d \<Longrightarrow> deliver_all d' = deliver_all d"
  by (simp add: deliver_all_def fun_eq_iff deliver_cong [of d' d])

lemma deliver_out [simp]: "deliver (d\<lparr>out := es\<rparr>) = deliver d" "deliver (d\<lparr>client_iter := p\<rparr>) = deliver d"
  "deliver_all (d\<lparr>out := es\<rparr>) = deliver_all d" "deliver_all (d\<lparr>client_iter := p\<rparr>) = deliver_all d"
  by (rule deliver_cong deliver_all_cong; simp)+

lemma broadcast_event_eq:
  "broadcast_event ev d =
     d\<lparr>client_iter := client_at (client_list d), out := out d @ deliver_all d ev (client_list d)\<rparr>"
proof -
  have "fold (send_event ev) cs d = d\<lparr>out := out d @ deliver_all d ev cs\<rparr>" for cs d
    by (induction cs arbitrary: d) (simp_all add: send_event_out deliver_all_def)
  then show ?thesis by (simp add: broadcast_event_def first_client_def Let_def)
qed

text \<open>
  The loop of \<open>dispatch_event\<close> from the node \<open>p\<close> on: it visits the rest of the list, since the
  iterator steps through the nodes and nothing the loop calls moves it.
\<close>

definition addressed :: "nat \<Rightarrow> daemon \<Rightarrow> client \<Rightarrow> bool" where
  "addressed dev d c \<longleftrightarrow> get_client_device c d = None \<or> get_client_device c d = Some dev"

lemma addressed_cong [simp]: "addressed dev (d\<lparr>out := es\<rparr>) = addressed dev d"
  "addressed dev (d\<lparr>client_iter := p\<rparr>) = addressed dev d"
  by (simp_all add: addressed_def get_client_device_def fun_eq_iff split: option.split list.split)

lemma next_client_at:
  assumes "client_list d = as @ c # cs" "distinct (map c_addr (client_list d))" "client_iter d = Some (c_addr c)"
  shows "next_client d = (client_at cs, d\<lparr>client_iter := client_at cs\<rparr>)" "get_client (c_addr c) d = Some c"
proof -
  have "\<forall>a \<in> set as. c_addr a \<noteq> c_addr c"
  proof
    fix a assume a: "a \<in> set as"
    from assms(1, 2) have "c_addr c \<notin> c_addr ` set as" by auto
    with a show "c_addr a \<noteq> c_addr c" by (metis image_eqI)
  qed
  then have "dropWhile (\<lambda>a. c_addr a \<noteq> c_addr c) (client_list d) = c # cs"
    unfolding assms(1) by (subst dropWhile_append2) auto
  with assms(3) show "next_client d = (client_at cs, d\<lparr>client_iter := client_at cs\<rparr>)"
    by (simp add: next_client_def Let_def)
  have "c \<in> set (client_list d)" using assms(1) by simp
  from search_key_distinct [OF assms(2) this refl] show "get_client (c_addr c) d = Some c"
    by (simp add: get_client_def)
qed

lemma dispatch_loop_visits:
  "client_list d = as @ cs \<Longrightarrow> distinct (map c_addr (client_list d)) \<Longrightarrow> client_iter d = client_at cs \<Longrightarrow>
   length cs \<le> n \<Longrightarrow>
   dispatch_loop n dev ev (client_at cs) d =
     d\<lparr>client_iter := None, out := out d @ deliver_all d ev (filter (addressed dev d) cs)\<rparr>"
proof (induction cs arbitrary: as d n)
  case Nil
  then show ?case by (simp add: client_at_def deliver_all_def)
next
  case (Cons c cs)
  then obtain m where n: "n = Suc m" by (cases n) auto
  have at: "client_at (c # cs) = Some (c_addr c)" by (simp add: client_at_def)
  from Cons.prems have iter: "client_iter d = Some (c_addr c)" by (simp add: at)
  note nx = next_client_at [OF Cons.prems(1, 2) iter]
  let ?d = "d\<lparr>client_iter := client_at cs\<rparr>"
  let ?e = "if addressed dev d c then send_event ev c ?d else ?d"
  have gc: "get_client (c_addr c) ?d = Some c" using nx(2) by (simp add: get_client_def)
  have ad: "get_client_device c ?d = get_client_device c d"
    by (simp add: get_client_device_def split: option.split list.split)
  have step: "dispatch_loop n dev ev (Some (c_addr c)) d = dispatch_loop m dev ev (client_at cs) ?e"
    unfolding n by (simp add: nx gc ad addressed_def Let_def)
  have e: "?e = ?d\<lparr>out := out d @ (if addressed dev d c then deliver d ev c else [])\<rparr>"
    by (simp add: send_event_out)
  have "dispatch_loop m dev ev (client_at cs) ?e
      = ?e\<lparr>client_iter := None, out := out ?e @ deliver_all ?e ev (filter (addressed dev ?e) cs)\<rparr>"
    by (rule Cons.IH [of _ "as @ [c]"]) (use Cons.prems n in \<open>simp_all add: e\<close>)
  then show ?case unfolding at step by (simp add: e deliver_all_def)
qed

lemma dispatch_event_eq:
  assumes "clients_wf d"
  shows "dispatch_event dev ev d =
    d\<lparr>client_iter := None, out := out d @ deliver_all d ev (filter (addressed dev d) (client_list d))\<rparr>"
proof -
  let ?d = "d\<lparr>client_iter := client_at (client_list d)\<rparr>"
  have "dispatch_loop (length (client_list d)) dev ev (client_at (client_list d)) ?d
    = ?d\<lparr>client_iter := None, out := out ?d @ deliver_all ?d ev (filter (addressed dev ?d) (client_list d))\<rparr>"
    by (rule dispatch_loop_visits [of _ "[]"]) (use assms in \<open>simp_all add: clients_wf_def\<close>)
  then show ?thesis by (simp add: dispatch_event_def first_client_def Let_def)
qed

section \<open>Properties\<close>

text \<open>
  C7: \<open>dispatch_event\<close> sends the event once, in the order of the list, to exactly the clients that
  listen to the device it comes from, and nothing else happens: every other field of the state is
  as before. \<open>broadcast_event\<close> does the same for all clients.
\<close>

theorem dispatch_and_broadcast:
  assumes "clients_wf d"
  shows "dispatch_event dev ev d =
      d\<lparr>client_iter := None,
        out := out d @ concat (map (deliver d ev) [c \<leftarrow> client_list d. get_client_device c d \<in> {None, Some dev}])\<rparr> \<and>
    broadcast_event ev d =
      d\<lparr>client_iter := client_at (client_list d), out := out d @ concat (map (deliver d ev) (client_list d))\<rparr>"
proof -
  have "addressed dev d = (\<lambda>c. get_client_device c d \<in> {None, Some dev})"
    by (auto simp: addressed_def)
  with dispatch_event_eq [OF assms, of dev ev] broadcast_event_eq [of ev d] show ?thesis
    by (simp add: deliver_all_def)
qed

definition two_clients :: daemon where
  "two_clients = snd (add_client CLIENT_UNIX 8 0 (snd (add_client CLIENT_UNIX 7 0 start_state)))"

lemma two_clients_eq: "two_clients =
    start_state\<lparr>fresh := 2, client_list := [add_result CLIENT_UNIX 8 0 1, add_result CLIENT_UNIX 7 0 0]\<rparr>"
  by (simp add: two_clients_def add_client_eq default_cfg_def)

lemma two_clients_wf: "clients_wf two_clients"
  by (simp add: two_clients_eq clients_wf_def add_result_def calloc_client_def)

theorem dispatch_and_broadcast_witness:
  "out (dispatch_event 5 (EvButton 3 1) two_clients) =
     [Uevent 8 [UEV_PRESS, 3, 1, 0, 0, 0, 0, 0], Uevent 7 [UEV_PRESS, 3, 1, 0, 0, 0, 0, 0]]"
  using dispatch_and_broadcast [OF two_clients_wf, of 5 "EvButton 3 1"]
  by (simp add: two_clients_eq deliver_def pad8_def add_result_def calloc_client_def get_client_device_def
      w32_def numeral_eq_Suc)

text \<open>
  Since no client ever selects a device, every client listens to the first device of the list,
  which is the one added last: the motion and the buttons of every other device reach nobody.
\<close>

theorem other_devices_unheard:
  assumes "clients_wf d" "\<forall>c \<in> set (client_list d). c_dev c = None"
    and "dev_list d = first # others" "d_addr first \<noteq> dev"
  shows "dispatch_event dev ev d = d\<lparr>client_iter := None\<rparr>"
proof -
  have "filter (addressed dev d) (client_list d) = []"
    using assms(2-4) by (auto simp: addressed_def get_client_device_def filter_empty_conv)
  with dispatch_event_eq [OF assms(1), of dev ev] show ?thesis by (simp add: deliver_all_def)
qed

theorem other_devices_unheard_witness:
  "out (dispatch_event 1 (EvButton 3 1)
     (two_clients\<lparr>dev_list := [(sample_dev 1)\<lparr>d_addr := 2\<rparr>, (sample_dev 0)\<lparr>d_addr := 1\<rparr>]\<rparr>)) = []"
proof -
  let ?d = "two_clients\<lparr>dev_list := [(sample_dev 1)\<lparr>d_addr := 2\<rparr>, (sample_dev 0)\<lparr>d_addr := 1\<rparr>]\<rparr>"
  have "clients_wf ?d" using two_clients_wf by (simp add: clients_wf_def)
  moreover have "\<forall>c \<in> set (client_list ?d). c_dev c = None"
    by (simp add: two_clients_eq add_result_def calloc_client_def)
  moreover have "out ?d = []" by (simp add: two_clients_eq)
  ultimately show ?thesis
    using other_devices_unheard [of ?d "(sample_dev 1)\<lparr>d_addr := 2\<rparr>" "[(sample_dev 0)\<lparr>d_addr := 1\<rparr>]" 1]
    by simp
qed

definition kind_mask :: "spnav_event \<Rightarrow> u32 \<times> u32 set" where
  \<comment> \<open>the mask bit that selects an event, and the kinds its packets have\<close>
  "kind_mask ev =
     (case ev of
        EvMotion _ _ \<Rightarrow> (EVMASK_MOTION, {UEV_MOTION})
      | EvButton _ _ \<Rightarrow> (EVMASK_BUTTON, {UEV_PRESS, UEV_RELEASE})
      | EvDev _ _ _ _ \<Rightarrow> (EVMASK_DEV, {UEV_DEV})
      | EvCfg _ _ \<Rightarrow> (EVMASK_CFG, {UEV_CFG})
      | EvRawAxis _ _ \<Rightarrow> (EVMASK_RAWAXIS, {UEV_RAWAXIS})
      | EvRawButton _ _ \<Rightarrow> (EVMASK_RAWBUTTON, {UEV_RAWBUTTON}))"



end
