(* ===== verification/Kbemu.thy ===== *)
theory Kbemu
  imports Daemon
begin

text \<open>
  Keyboard emulation: the table from X key symbols to Linux key codes (src/keymap.c), the virtual
  keyboard (src/kbemu_uinput.c), keys through the X server (src/kbemu_x11.c) and the choice between
  them (src/kbemu.c). The key codes are constants of a kernel header; the model has their names.
\<close>

section \<open>The key map\<close>

definition keymap :: "(u32 \<times> string) list" where
  "keymap = [
      (0x0061, ''KEY_A''), (0x0062, ''KEY_B''), (0x0063, ''KEY_C''), (0x0064, ''KEY_D''),
      (0x0065, ''KEY_E''), (0x0066, ''KEY_F''), (0x0067, ''KEY_G''), (0x0068, ''KEY_H''),
      (0x0069, ''KEY_I''), (0x006a, ''KEY_J''), (0x006b, ''KEY_K''), (0x006c, ''KEY_L''),
      (0x006d, ''KEY_M''), (0x006e, ''KEY_N''), (0x006f, ''KEY_O''), (0x0070, ''KEY_P''),
      (0x0071, ''KEY_Q''), (0x0072, ''KEY_R''), (0x0073, ''KEY_S''), (0x0074, ''KEY_T''),
      (0x0075, ''KEY_U''), (0x0076, ''KEY_V''), (0x0077, ''KEY_W''), (0x0078, ''KEY_X''),
      (0x0079, ''KEY_Y''), (0x007a, ''KEY_Z''), (0x0030, ''KEY_0''), (0x0031, ''KEY_1''),
      (0x0032, ''KEY_2''), (0x0033, ''KEY_3''), (0x0034, ''KEY_4''), (0x0035, ''KEY_5''),
      (0x0036, ''KEY_6''), (0x0037, ''KEY_7''), (0x0038, ''KEY_8''), (0x0039, ''KEY_9''),
      (0xffbe, ''KEY_F1''), (0xffbf, ''KEY_F2''), (0xffc0, ''KEY_F3''), (0xffc1, ''KEY_F4''),
      (0xffc2, ''KEY_F5''), (0xffc3, ''KEY_F6''), (0xffc4, ''KEY_F7''), (0xffc5, ''KEY_F8''),
      (0xffc6, ''KEY_F9''), (0xffc7, ''KEY_F10''), (0xffc8, ''KEY_F11''), (0xffc9, ''KEY_F12''),
      (0xffe1, ''KEY_LEFTSHIFT''), (0xffe2, ''KEY_RIGHTSHIFT''), (0xffe3, ''KEY_LEFTCTRL''), (0xffe4, ''KEY_RIGHTCTRL''),
      (0xffe5, ''KEY_CAPSLOCK''), (0xffe7, ''KEY_LEFTMETA''), (0xffe8, ''KEY_RIGHTMETA''), (0xffe9, ''KEY_LEFTALT''),
      (0xffea, ''KEY_RIGHTALT''), (0xffeb, ''KEY_LEFTMETA''), (0xffec, ''KEY_RIGHTMETA''), (0xff1b, ''KEY_ESC''),
      (0xff08, ''KEY_BACKSPACE''), (0xff09, ''KEY_TAB''), (0xff0d, ''KEY_ENTER''), (0x0020, ''KEY_SPACE''),
      (0xffff, ''KEY_DELETE''), (0xff63, ''KEY_INSERT''), (0xff50, ''KEY_HOME''), (0xff57, ''KEY_END''),
      (0xff55, ''KEY_PAGEUP''), (0xff56, ''KEY_PAGEDOWN''), (0xff51, ''KEY_LEFT''), (0xff52, ''KEY_UP''),
      (0xff53, ''KEY_RIGHT''), (0xff54, ''KEY_DOWN''), (0x0027, ''KEY_APOSTROPHE''), (0x002c, ''KEY_COMMA''),
      (0x002d, ''KEY_MINUS''), (0x002e, ''KEY_DOT''), (0x002f, ''KEY_SLASH''), (0x003b, ''KEY_SEMICOLON''),
      (0x003d, ''KEY_EQUAL''), (0x005b, ''KEY_LEFTBRACE''), (0x005c, ''KEY_BACKSLASH''), (0x005d, ''KEY_RIGHTBRACE''),
      (0x0060, ''KEY_GRAVE'')]"

definition keysym_to_linux_keycode :: "u32 \<Rightarrow> string option" where
  \<comment> \<open>\<open>None\<close>: the code 0, not found\<close>
  "keysym_to_linux_keycode ks = map_option snd (search (\<lambda>e. fst e = ks) keymap)"

section \<open>The virtual keyboard\<close>

definition emit_key :: "u32 \<Rightarrow> int \<Rightarrow> daemon \<Rightarrow> daemon" where
  \<comment> \<open>convert a key symbol and write the event, if there is a code for it\<close>
  "emit_key ks val d =
     (case keysym_to_linux_keycode ks of None \<Rightarrow> d | Some code \<Rightarrow> emit (UinputKey code val) d)"

definition send_key_uinput :: "u32 \<Rightarrow> int \<Rightarrow> daemon \<Rightarrow> daemon" where
  "send_key_uinput ks press d =
     (if uinput_fd d < 0 then d
      else case keysym_to_linux_keycode ks of
        None \<Rightarrow> d
      | Some code \<Rightarrow> emit UinputSyn (emit (UinputKey code (if press \<noteq> 0 then 1 else 0)) d))"

definition send_combo_uinput :: "u32 list \<Rightarrow> int \<Rightarrow> int \<Rightarrow> daemon \<Rightarrow> daemon" where
  "send_combo_uinput keys count press d =
     (if uinput_fd d < 0 \<or> count \<le> 0 then d
      else if press \<noteq> 0 then d
      else
        let d = fold (\<lambda>i. emit_key (keys ! i) 1) [0..<nat count] d;
            d = emit UinputSyn d;
            d = fold (\<lambda>i. emit_key (keys ! (nat count - 1 - i)) 0) [0..<nat count] d in
        emit UinputSyn d)"

definition kbemu_uinput_init :: "daemon \<Rightarrow> int \<times> daemon" where
  \<comment> \<open>the two \<open>goto err_close\<close> after \<open>UI_SET_EVBIT\<close> and the set-up are one case\<close>
  "kbemu_uinput_init d =
     (if 0 \<le> uinput_fd d then (0, d)
      else
        let (fd, ok) = uinput_open d in
        if fd = - 1 then (- 1, d\<lparr>uinput_fd := - 1\<rparr>)
        else if \<not> ok then (- 1, (emit (Close fd) d)\<lparr>uinput_fd := - 1\<rparr>)
        else (0, (emit (UinputCmd ''UI_DEV_CREATE'') d)\<lparr>uinput_fd := fd, kb_send := Some Kb_uinput\<rparr>))"

definition kbemu_uinput_cleanup :: "daemon \<Rightarrow> daemon" where
  "kbemu_uinput_cleanup d =
     (if 0 \<le> uinput_fd d
      then (emit (Close (uinput_fd d)) (emit (UinputCmd ''UI_DEV_DESTROY'') d))\<lparr>uinput_fd := - 1\<rparr>
      else d)"

section \<open>Keys through the X server\<close>

definition kbemu_x11_init :: "daemon \<Rightarrow> daemon" where
  "kbemu_x11_init d = d\<lparr>kb_send := Some Kb_x11\<rparr>"

definition kbemu_active :: "daemon \<Rightarrow> bool" where
  "kbemu_active d \<longleftrightarrow> kb_send d \<noteq> None \<and> kb_send d \<noteq> Some Kb_dummy"

definition kbemu_set_display :: "nat option \<Rightarrow> daemon \<Rightarrow> daemon" where
  "kbemu_set_display disp d =
     (if disp = None then d
      else if kbemu_active d then d
      else kbemu_x11_init (d\<lparr>kb_dpy := disp\<rparr>))"

definition send_kbevent :: "u32 \<Rightarrow> bool \<Rightarrow> daemon \<Rightarrow> daemon" where
  \<comment> \<open>with the XTEST extension or without; a display that was closed is not one\<close>
  "send_kbevent ks press d =
     (if kb_dpy d = None then d
      else if kb_dpy d \<noteq> dpy d then d\<lparr>fault := True\<rparr>
      else if x_keycode d ks = 0 then d
      else emit (XKey (x_keycode d ks) press) d)"

definition send_kbcombo :: "u32 list \<Rightarrow> int \<Rightarrow> int \<Rightarrow> daemon \<Rightarrow> daemon" where
  "send_kbcombo keys count press d =
     (if kb_dpy d = None \<or> count \<le> 0 then d
      else if press \<noteq> 0 then d
      else
        let d = fold (\<lambda>i. send_kbevent (keys ! i) True) [0..<nat count] d in
        fold (\<lambda>i. send_kbevent (keys ! (nat count - 1 - i)) False) [0..<nat count] d)"

section \<open>The choice\<close>

definition kbemu_init :: "daemon \<Rightarrow> daemon" where
  "kbemu_init d =
     (let d = d\<lparr>kb_send := Some Kb_dummy\<rparr>;
          d = kbemu_x11_init d in
      if kbemu_use_x11 (cfg d) = 0 then snd (kbemu_uinput_init d) else d)"

definition kbemu_cleanup :: "daemon \<Rightarrow> daemon" where
  "kbemu_cleanup d = kbemu_uinput_cleanup d"

definition kbemu_send_key :: "u32 \<Rightarrow> int \<Rightarrow> daemon \<Rightarrow> daemon" where
  \<comment> \<open>the call through the function pointer\<close>
  "kbemu_send_key ks press d =
     (case kb_send d of
        None \<Rightarrow> d\<lparr>fault := True\<rparr>
      | Some Kb_dummy \<Rightarrow> d
      | Some Kb_x11 \<Rightarrow> send_kbevent ks (press \<noteq> 0) d
      | Some Kb_uinput \<Rightarrow> send_key_uinput ks press d)"

definition kbemu_send_combo :: "u32 list \<Rightarrow> int \<Rightarrow> int \<Rightarrow> daemon \<Rightarrow> daemon" where
  "kbemu_send_combo keys count press d =
     (case kb_send d of
        None \<Rightarrow> d\<lparr>fault := True\<rparr>
      | Some Kb_dummy \<Rightarrow> d
      | Some Kb_x11 \<Rightarrow> send_kbcombo keys count press d
      | Some Kb_uinput \<Rightarrow> send_combo_uinput keys count press d)"

interpretation keysyms: first_match keymap fst "\<lambda>ks. search (\<lambda>e. fst e = ks) keymap"
  by unfold_locales (simp_all add: keymap_def)

section \<open>What the backends write\<close>

definition key_effects :: "int \<Rightarrow> u32 list \<Rightarrow> effect list" where
  "key_effects val kss = [UinputKey code val. ks \<leftarrow> kss, code \<leftarrow> (case keysym_to_linux_keycode ks of None \<Rightarrow> [] | Some c \<Rightarrow> [c])]"

lemma emit_key_out: "emit_key ks val d = d\<lparr>out := out d @ key_effects val [ks]\<rparr>"
  by (simp add: emit_key_def key_effects_def emit_def split: option.split)

lemma emit_keys_out:
  "fold (\<lambda>i. emit_key (f i) val) is d = d\<lparr>out := out d @ key_effects val (map f is)\<rparr>"
  by (induction "is" arbitrary: d) (simp_all add: emit_key_out, simp_all add: key_effects_def)

lemma map_nth_take: "n \<le> length xs \<Longrightarrow> map (\<lambda>i. xs ! i) [0..<n] = take n xs"
  by (simp add: list_eq_iff_nth_eq)

lemma map_nth_rev: "n \<le> length xs \<Longrightarrow> map (\<lambda>i. xs ! (n - 1 - i)) [0..<n] = rev (take n xs)"
  by (simp add: list_eq_iff_nth_eq rev_nth)

lemma key_effects_rev: "rev (key_effects val kss) = key_effects val (rev kss)"
  by (induction kss) (auto simp: key_effects_def split: option.split)

lemma send_combo_uinput_out:
  assumes "0 \<le> uinput_fd d" "0 < count" "nat count \<le> length keys"
  shows "send_combo_uinput keys count 0 d =
    d\<lparr>out := out d @ key_effects 1 (take (nat count) keys) @ [UinputSyn]
        @ rev (key_effects 0 (take (nat count) keys)) @ [UinputSyn]\<rparr>"
  using assms map_nth_take [OF assms(3)] map_nth_rev [OF assms(3)]
  by (simp add: send_combo_uinput_def Let_def emit_keys_out emit_def key_effects_rev)

section \<open>Properties\<close>

definition held :: "effect list \<Rightarrow> string \<Rightarrow> bool" where
  \<comment> \<open>the keys of the virtual keyboard that are down after some output\<close>
  "held es = fold (\<lambda>e f. case e of UinputKey code val \<Rightarrow> f(code := val \<noteq> 0) | _ \<Rightarrow> f) es (\<lambda>_. False)"

lemma held_fold: "fold (\<lambda>e f. case e of UinputKey code val \<Rightarrow> f(code := val \<noteq> 0) | _ \<Rightarrow> f) es f code =
   (case search (\<lambda>e. \<exists>v. e = UinputKey code v) (rev es) of Some (UinputKey _ v) \<Rightarrow> v \<noteq> 0 | _ \<Rightarrow> f code)"
proof (induction es rule: rev_induct)
  case (snoc e es)
  show ?case by (cases e) (auto simp: snoc split: if_splits)
qed simp

lemma held_append: "held (es @ fs) code =
   (case search (\<lambda>e. \<exists>v. e = UinputKey code v) (rev fs) of Some (UinputKey _ v) \<Rightarrow> v \<noteq> 0 | _ \<Rightarrow> held es code)"
  by (simp only: held_def fold_append comp_apply held_fold [of fs])

lemma key_effects_set: "UinputKey code v \<in> set (key_effects val kss) \<longleftrightarrow>
    v = val \<and> (\<exists>ks \<in> set kss. keysym_to_linux_keycode ks = Some code)"
  by (force simp: key_effects_def split: option.splits)

lemma key_effects_only: "e \<in> set (key_effects val kss) \<Longrightarrow> \<exists>code. e = UinputKey code val"
  by (auto simp: key_effects_def split: option.splits)

text \<open>
  Releasing a button that is bound to a combination of keys writes to the virtual keyboard a
  press of each of its keys in order, a synchronisation, their releases in the opposite order, and
  a synchronisation; pressing the button writes nothing. So whatever keys were down before, none
  of the combination is left down, and the others are as before.
\<close>

theorem combo_balanced:
  assumes "0 \<le> uinput_fd d" "0 < count" "nat count \<le> length keys"
  shows "send_combo_uinput keys count 1 d = d \<and>
    send_combo_uinput keys count 0 d =
      d\<lparr>out := out d @ key_effects 1 (take (nat count) keys) @ [UinputSyn]
          @ rev (key_effects 0 (take (nat count) keys)) @ [UinputSyn]\<rparr> \<and>
    held (out (send_combo_uinput keys count 0 d)) code =
      (held (out d) code \<and> (\<forall>ks \<in> set (take (nat count) keys). keysym_to_linux_keycode ks \<noteq> Some code))"
proof (intro conjI)
  note eq = send_combo_uinput_out [OF assms]
  show "send_combo_uinput keys count 1 d = d" by (simp add: send_combo_uinput_def)
  show "send_combo_uinput keys count 0 d =
      d\<lparr>out := out d @ key_effects 1 (take (nat count) keys) @ [UinputSyn]
          @ rev (key_effects 0 (take (nat count) keys)) @ [UinputSyn]\<rparr>" by (rule eq)
  let ?kss = "take (nat count) keys"
  let ?fs = "key_effects 1 ?kss @ [UinputSyn] @ rev (key_effects 0 ?kss) @ [UinputSyn]"
  have append: "search p (xs @ ys) = (case search p xs of None \<Rightarrow> search p ys | Some x \<Rightarrow> Some x)"
    for p and xs ys :: "effect list" by (induction xs) auto
  let ?p = "\<lambda>e. \<exists>v. e = UinputKey code v"
  show "held (out (send_combo_uinput keys count 0 d)) code =
      (held (out d) code \<and> (\<forall>ks \<in> set ?kss. keysym_to_linux_keycode ks \<noteq> Some code))"
  proof (cases "\<exists>ks \<in> set ?kss. keysym_to_linux_keycode ks = Some code")
    case True
    then have "UinputKey code 0 \<in> set (key_effects 0 ?kss)" by (simp add: key_effects_set)
    then obtain e where e: "search ?p (key_effects 0 ?kss) = Some e"
      using search_None_iff [of ?p "key_effects 0 ?kss"] by auto
    then have "e = UinputKey code 0"
      using search_SomeD [OF e] key_effects_only [of e 0 ?kss] by auto
    with e True show ?thesis by (simp add: eq held_append append)
  next
    case False
    then have "search ?p (rev ?fs) = None"
      by (auto simp: search_None_iff key_effects_set)
    with False show ?thesis by (auto simp: eq held_append)
  qed
qed

definition with_uinput :: daemon where
  "with_uinput = start_state\<lparr>uinput_fd := 5, kb_send := Some Kb_uinput\<rparr>"

theorem combo_balanced_witness:
  "out (send_combo_uinput [0xffe3, 0x0063] 2 0 with_uinput) =
     [UinputKey ''KEY_LEFTCTRL'' 1, UinputKey ''KEY_C'' 1, UinputSyn,
      UinputKey ''KEY_C'' 0, UinputKey ''KEY_LEFTCTRL'' 0, UinputSyn]"
proof -
  have "keysym_to_linux_keycode 0xffe3 = Some ''KEY_LEFTCTRL''" "keysym_to_linux_keycode 0x0063 = Some ''KEY_C''"
    by (simp_all add: keysym_to_linux_keycode_def keymap_def)
  with combo_balanced [of with_uinput 2 "[0xffe3, 0x0063]" "[]"] show ?thesis
    by (simp add: with_uinput_def key_effects_def)
qed

text \<open>
  The key map gives every key symbol of the table its own entry, and nothing to any other
  symbol.
\<close>

theorem keymap_lookup:
  "((ks, code) \<in> set keymap \<longleftrightarrow> keysym_to_linux_keycode ks = Some code) \<and>
   (keysym_to_linux_keycode ks = None \<longleftrightarrow> ks \<notin> fst ` set keymap)"
proof (intro conjI)
  show "((ks, code) \<in> set keymap \<longleftrightarrow> keysym_to_linux_keycode ks = Some code)"
  proof
    assume "(ks, code) \<in> set keymap"
    from keysyms.find_entry [OF this] show "keysym_to_linux_keycode ks = Some code"
      by (simp add: keysym_to_linux_keycode_def)
  next
    assume "keysym_to_linux_keycode ks = Some code"
    then obtain e where e: "search (\<lambda>e. fst e = ks) keymap = Some e" "snd e = code"
      by (auto simp: keysym_to_linux_keycode_def)
    from keysyms.find_key [OF e(1)] e(2) show "(ks, code) \<in> set keymap" by (cases e) simp
  qed
  show "(keysym_to_linux_keycode ks = None \<longleftrightarrow> ks \<notin> fst ` set keymap)"
    using keysyms.find_none [of ks] by (auto simp: keysym_to_linux_keycode_def)
qed

text \<open>
  C17: once the emulation is initialised, the display it uses for keys never changes: a later
  connection to the X server is not taken over, since the emulation counts as active, and a closed
  one is not given up, since a null display is ignored. A daemon that starts before the X server
  sends no key through it; after the server is gone, the next key uses the closed connection.
\<close>

theorem kbemu_display_fixed:
  "let d = fold kbemu_set_display disps (kbemu_init d0) in
   kb_dpy d = kb_dpy d0 \<and>
   (kb_dpy d0 = None \<longrightarrow> send_kbevent ks press d = d) \<and>
   (kb_dpy d0 \<noteq> None \<and> dpy d = None \<longrightarrow> fault (send_kbevent ks press d))"
proof -
  have active: "kbemu_active (kbemu_init d0)"
    by (auto simp: kbemu_init_def kbemu_x11_init_def kbemu_uinput_init_def kbemu_active_def emit_def Let_def split_beta)
  have "fold kbemu_set_display disps d = d" if "kbemu_active d" for d
    using that by (induction disps) (simp_all add: kbemu_set_display_def)
  moreover have "kb_dpy (kbemu_init d0) = kb_dpy d0"
    by (auto simp: kbemu_init_def kbemu_x11_init_def kbemu_uinput_init_def emit_def Let_def split_beta)
  ultimately show ?thesis using active by (simp add: send_kbevent_def Let_def)
qed

theorem kbemu_display_fixed_witness:
  "kb_dpy (fold kbemu_set_display [Some 1] (kbemu_init start_state)) = None"
  using kbemu_display_fixed [of "[Some 1]" start_state] by (simp add: Let_def) (simp add: start_state_def)

end
