(* ===== verification/Events.thy ===== *)
theory Events
  imports Dispatch Kbemu "HOL-Library.Signed_Division"
begin

text \<open>
  The processing of input events (src/event.c): a record of pending motion and button timeouts per
  device, the mapping and scaling of axes, dead zones, the dominant-axis mode, buttons that are
  bound to actions, keys or other buttons, buttons with a second meaning when held, and the
  repetition of motion events. A device is referred to by its address.
\<close>

section \<open>Pending events of the devices\<close>

abbreviation (input) time_zero :: timeval where "time_zero \<equiv> \<lparr>tv_sec = 0, tv_usec = 0\<rparr>"

definition time_unset :: "timeval \<Rightarrow> bool" where
  "time_unset tv \<longleftrightarrow> tv_sec tv = 0 \<and> tv_usec tv = 0"

definition new_dev_event :: "nat \<Rightarrow> timeval \<Rightarrow> dev_event" where
  "new_dev_event dev tv = \<lparr>de_motion = replicate 6 0, de_period = 0, de_time = tv, de_dev = dev,
     de_pending = False, de_hold = replicate MAX_BUTTONS time_zero\<rparr>"

definition add_dev_event :: "nat \<Rightarrow> daemon \<Rightarrow> bool \<times> daemon" where
  "add_dev_event dev d =
     (let (a, d) = calloc d in
      case a of
        None \<Rightarrow> (False, d)
      | Some _ \<Rightarrow>
          let (now, d) = gettimeofday d in
          (True, d\<lparr>dev_ev_list := dev_ev_list d @ [new_dev_event dev now]\<rparr>))"

definition remove_dev_event :: "nat \<Rightarrow> daemon \<Rightarrow> daemon" where
  "remove_dev_event dev d = d\<lparr>dev_ev_list := filter (\<lambda>e. de_dev e \<noteq> dev) (dev_ev_list d)\<rparr>"

definition get_dev_event :: "nat \<Rightarrow> daemon \<Rightarrow> dev_event option" where
  "get_dev_event dev d = search (\<lambda>e. de_dev e = dev) (dev_ev_list d)"

fun upd_first :: "('a \<Rightarrow> bool) \<Rightarrow> ('a \<Rightarrow> 'a) \<Rightarrow> 'a list \<Rightarrow> 'a list" where
  "upd_first p f [] = []"
| "upd_first p f (x # xs) = (if p x then f x # xs else x # upd_first p f xs)"

definition upd_dev_event :: "nat \<Rightarrow> (dev_event \<Rightarrow> dev_event) \<Rightarrow> daemon \<Rightarrow> daemon" where
  \<comment> \<open>a write through the pointer that \<open>get_dev_event\<close> returned\<close>
  "upd_dev_event dev f d = d\<lparr>dev_ev_list := upd_first (\<lambda>e. de_dev e = dev) f (dev_ev_list d)\<rparr>"

section \<open>Axes and times\<close>

definition map_axis_of :: "int \<Rightarrow> daemon \<Rightarrow> int" where
  "map_axis_of devaxis d =
     (let axis = map_axis (cfg d) ! nat devaxis in
      if axis < 0 \<or> axis \<ge> 6 then - 1
      else if swapyz (cfg d) \<noteq> 0 then [0, 2, 1, 3, 5, 4] ! nat axis
      else axis)"

definition msec_dif :: "timeval \<Rightarrow> timeval \<Rightarrow> u32" where
  "msec_dif tv1 tv2 =
     (let ms1 = w32 (tv_sec tv1 * 1000 + tv_usec tv1 sdiv 1000);
          ms2 = w32 (tv_sec tv2 * 1000 + tv_usec tv2 sdiv 1000) in
      ms1 - ms2)"

definition timer_le :: "timeval \<Rightarrow> timeval \<Rightarrow> bool" where
  \<comment> \<open>\<open>TIMERCMP(a, <=, b)\<close>\<close>
  "timer_le a b = (if tv_sec a = tv_sec b then tv_usec a \<le> tv_usec b else tv_sec a \<le> tv_sec b)"

definition timer_less :: "timeval \<Rightarrow> timeval \<Rightarrow> bool" where
  "timer_less a b = (if tv_sec a = tv_sec b then tv_usec a < tv_usec b else tv_sec a < tv_sec b)"

definition update_motion_period :: "nat \<Rightarrow> daemon \<Rightarrow> daemon" where
  "update_motion_period dev d =
     (let (now, d) = gettimeofday d in
      upd_dev_event dev (\<lambda>e. e\<lparr>de_period := msec_dif now (de_time e), de_time := now\<rparr>) d)"

section \<open>Buttons\<close>

definition handle_button_action :: "int \<Rightarrow> int \<Rightarrow> daemon \<Rightarrow> daemon" where
  "handle_button_action act pressed d =
     (if pressed \<noteq> 0 then d
      else if act = BNACT_SENS_INC then
        (let s = f32_mul (sensitivity (cfg d)) f32_1_1; d = d\<lparr>cfg := (cfg d)\<lparr>sensitivity := s\<rparr>\<rparr> in
         broadcast_cfg_event 0x3001 s d)
      else if act = BNACT_SENS_DEC then
        (let s = f32_mul (sensitivity (cfg d)) f32_0_9; d = d\<lparr>cfg := (cfg d)\<lparr>sensitivity := s\<rparr>\<rparr> in
         broadcast_cfg_event 0x3001 s d)
      else if act = BNACT_SENS_RESET then
        (let d = d\<lparr>cfg := (cfg d)\<lparr>sensitivity := one_f32\<rparr>\<rparr> in
         broadcast_cfg_event 0x3001 one_f32 d)
      else if act = BNACT_DISABLE_ROTATION then
        (let d = d\<lparr>disable_rotation := \<not> disable_rotation d\<rparr> in
         if disable_rotation d then d\<lparr>disable_translation := False\<rparr> else d)
      else if act = BNACT_DISABLE_TRANSLATION then
        (let d = d\<lparr>disable_translation := \<not> disable_translation d\<rparr> in
         if disable_translation d then d\<lparr>disable_rotation := False\<rparr> else d)
      else if act = BNACT_DOMINANT_AXIS then d\<lparr>dom_axis_mode := \<not> dom_axis_mode d\<rparr>
      else d)"

definition emit_button :: "nat \<Rightarrow> int \<Rightarrow> int \<Rightarrow> bool \<Rightarrow> daemon \<Rightarrow> daemon" where
  "emit_button dev idx val hold d =
     (if \<not> bn_valid idx then d\<lparr>fault := True\<rparr>
      else
        let i = nat idx in
        if 0 < bnact (cfg d) ! i then handle_button_action (bnact (cfg d) ! i) val d
        else if kbmap_count (cfg d) ! i = 1 then kbemu_send_key (kbmap (cfg d) ! i ! 0) val d
        else if 1 < kbmap_count (cfg d) ! i then
          kbemu_send_combo (kbmap (cfg d) ! i) (kbmap_count (cfg d) ! i) val d
        else
          let bnum = (if hold then map_hold (cfg d) ! i else map_button (cfg d) ! i) in
          dispatch_event dev (EvButton bnum val) d)"

section \<open>Input\<close>

definition flush_motion :: "nat \<Rightarrow> daemon \<Rightarrow> daemon" where
  \<comment> \<open>dispatch the pending motion of a device, if there is any\<close>
  "flush_motion dev d =
     (case get_dev_event dev d of
        None \<Rightarrow> d
      | Some e \<Rightarrow>
          if de_pending e then
            (let d = update_motion_period dev d in
             case get_dev_event dev d of
               None \<Rightarrow> d
             | Some e \<Rightarrow>
                 let d = dispatch_event dev (EvMotion (de_motion e) (de_period e)) d in
                 upd_dev_event dev (\<lambda>e. e\<lparr>de_pending := False\<rparr>) d)
          else d)"

definition dominant :: "nat \<Rightarrow> int \<Rightarrow> int \<Rightarrow> daemon \<Rightarrow> int \<times> daemon" where
  \<comment> \<open>the dominant-axis mode: the value that is left, and the new state\<close>
  "dominant axis abs_val val d =
     (if dom_axis_mode d then
        (let (val, d) =
           (if abs_val > cur_axis_mag d ! cur_dom_axis d then (val, d\<lparr>cur_dom_axis := axis\<rparr>)
            else (0, d)) in
         (val, d\<lparr>cur_axis_mag := (cur_axis_mag d)[axis := abs_val]\<rparr>))
      else (val, d))"

definition axis_sens :: "nat \<Rightarrow> daemon \<Rightarrow> f32" where
  "axis_sens axis d =
     (if axis < 3 then (if disable_translation d then zero_f32 else sens_trans (cfg d) ! axis)
      else (if disable_rotation d then zero_f32 else sens_rot (cfg d) ! (axis - 3)))"

definition process_motion :: "nat \<Rightarrow> int \<Rightarrow> int \<Rightarrow> daemon \<Rightarrow> daemon" where
  "process_motion dev idx val d =
     (let d = broadcast_event (EvRawAxis idx val) d in
      if \<not> axis_valid idx then d\<lparr>fault := True\<rparr>
      else
        let abs_val = int32 \<bar>val\<bar>;
            val = (if abs_val < dead_threshold (cfg d) ! nat idx then 0 else val);
            axis = map_axis_of idx d in
        if axis = - 1 then d
        else
          let sign = (if invert (cfg d) ! nat axis \<noteq> 0 then - 1 else 1);
              sens = axis_sens (nat axis) d;
              (val, d) = dominant (nat axis) abs_val val d;
              val = f32_to_int (f32_mul (f32_mul (f32_of_int val) (sensitivity (cfg d))) sens) in
          upd_dev_event dev
            (\<lambda>e. e\<lparr>de_motion := (de_motion e)[nat axis := int32 (sign * val)], de_pending := True\<rparr>) d)"

definition hold_deadline :: "timeval \<Rightarrow> int \<Rightarrow> timeval" where
  \<comment> \<open>the time at which a press becomes a hold\<close>
  "hold_deadline now ms =
     (let sec = tv_sec now + ms sdiv 1000;
          usec = tv_usec now + ms smod 1000 * 1000 in
      \<lparr>tv_sec = sec + usec sdiv 1000000, tv_usec = usec smod 1000000\<rparr>)"

definition set_hold :: "nat \<Rightarrow> nat \<Rightarrow> timeval \<Rightarrow> daemon \<Rightarrow> daemon" where
  "set_hold dev i tv d = upd_dev_event dev (\<lambda>e. e\<lparr>de_hold := (de_hold e)[i := tv]\<rparr>) d"

definition get_hold :: "nat \<Rightarrow> nat \<Rightarrow> daemon \<Rightarrow> timeval" where
  "get_hold dev i d = (case get_dev_event dev d of None \<Rightarrow> time_zero | Some e \<Rightarrow> de_hold e ! i)"

definition process_button :: "nat \<Rightarrow> int \<Rightarrow> int \<Rightarrow> daemon \<Rightarrow> daemon" where
  "process_button dev idx val d =
     (let d = broadcast_event (EvRawButton idx val) d;
          d = flush_motion dev d in
      if \<not> bn_valid idx then d\<lparr>fault := True\<rparr>
      else if map_hold (cfg d) ! nat idx = - 1 then emit_button dev idx val False d
      else
        let (now, d) = gettimeofday d;
            timeout = get_hold dev (nat idx) d in
        if val \<noteq> 0 then set_hold dev (nat idx) (hold_deadline now (hold_timeout (cfg d))) d
        else if \<not> time_unset timeout then
          (let hold = timer_le timeout now;
               d = emit_button dev idx 1 hold d;
               d = emit_button dev idx 0 hold d in
           set_hold dev (nat idx) time_zero d)
        else d)"

definition process_input :: "nat \<Rightarrow> dev_input \<Rightarrow> daemon \<Rightarrow> daemon" where
  "process_input dev inp d =
     (let (ok, d) = (case get_dev_event dev d of None \<Rightarrow> add_dev_event dev d | Some _ \<Rightarrow> (True, d)) in
      if \<not> ok then d
      else case inp_type inp of
        INP_MOTION \<Rightarrow> process_motion dev (inp_idx inp) (inp_val inp) d
      | INP_BUTTON \<Rightarrow> process_button dev (inp_idx inp) (inp_val inp) d
      | INP_FLUSH \<Rightarrow> flush_motion dev d)"

section \<open>Timeouts and repetition\<close>

definition in_deadzone :: "nat \<Rightarrow> daemon \<Rightarrow> int" where
  "in_deadzone dev d =
     (case get_dev_event dev d of
        None \<Rightarrow> - 1
      | Some e \<Rightarrow> if \<exists>i \<in> set [0..<6]. de_motion e ! i \<noteq> 0 then 0 else 1)"

definition repeat_last_motion_event :: "nat \<Rightarrow> daemon \<Rightarrow> daemon" where
  "repeat_last_motion_event dev d =
     (case get_dev_event dev d of
        None \<Rightarrow> d
      | Some _ \<Rightarrow>
          let d = update_motion_period dev d in
          case get_dev_event dev d of
            None \<Rightarrow> d
          | Some e \<Rightarrow> dispatch_event dev (EvMotion (de_motion e) (de_period e)) d)"

definition earlier :: "timeval \<Rightarrow> timeval option \<Rightarrow> timeval option" where
  \<comment> \<open>one round of the search for the earliest timeout that is set\<close>
  "earlier tv m =
     (if time_unset tv then m
      else case m of None \<Rightarrow> Some tv | Some m' \<Rightarrow> if timer_less tv m' then Some tv else m)"

definition earliest_timeout :: "device list \<Rightarrow> daemon \<Rightarrow> timeval option" where
  "earliest_timeout devs d =
     fold (\<lambda>dev m.
        if \<not> is_device_valid (Some dev) then m
        else case get_dev_event (d_addr dev) d of
          None \<Rightarrow> m
        | Some e \<Rightarrow> fold (\<lambda>i. earlier (de_hold e ! i)) [0..<MAX_BUTTONS] m) devs None"

definition next_button_timeout :: "device list \<Rightarrow> daemon \<Rightarrow> timeval option \<times> daemon" where
  \<comment> \<open>\<open>None\<close>: the result 1, no timeout is set\<close>
  "next_button_timeout devs d =
     (case earliest_timeout devs d of
        None \<Rightarrow> (None, d)
      | Some m \<Rightarrow>
          let (now, d) = gettimeofday d;
              sec = tv_sec m - tv_sec now;
              usec = tv_usec m - tv_usec now;
              (sec, usec) = (if usec < 0 then (sec - 1, usec + 1000000) else (sec, usec));
              (sec, usec) = (if sec < 0 then (0, 0) else (sec, usec)) in
          (Some \<lparr>tv_sec = sec, tv_usec = usec\<rparr>, d))"

definition expire_button :: "timeval \<Rightarrow> nat \<Rightarrow> nat \<Rightarrow> daemon \<Rightarrow> daemon" where
  "expire_button now dev i d =
     (if time_unset (get_hold dev i d) then d
      else if timer_le (get_hold dev i d) now then
        set_hold dev i time_zero (emit_button dev (int i) 0 True (emit_button dev (int i) 1 True d))
      else d)"

definition emit_button_timeouts :: "device list \<Rightarrow> daemon \<Rightarrow> daemon" where
  "emit_button_timeouts devs d =
     (let (now, d) = gettimeofday d in
      fold (\<lambda>dev d.
        case get_dev_event (d_addr dev) d of
          None \<Rightarrow> d
        | Some _ \<Rightarrow> fold (expire_button now (d_addr dev)) [0..<MAX_BUTTONS] d) devs d)"

section \<open>The invariant of event processing\<close>

definition kb_ok :: "daemon \<Rightarrow> bool" where
  \<comment> \<open>the keyboard emulation is initialised, and its display is not one that was closed\<close>
  "kb_ok d \<longleftrightarrow> kb_send d \<noteq> None \<and> (kb_dpy d \<noteq> None \<longrightarrow> kb_dpy d = dpy d)"

definition dev_event_wf :: "dev_event \<Rightarrow> bool" where
  "dev_event_wf e \<longleftrightarrow> length (de_motion e) = 6 \<and> length (de_hold e) = MAX_BUTTONS"

definition steady :: "daemon \<Rightarrow> daemon" where
  \<comment> \<open>without what the processing of input may change\<close>
  "steady d = d\<lparr>cfg := (cfg d)\<lparr>sensitivity := 0\<rparr>, dev_ev_list := [], disable_translation := False, disable_rotation := False,
     dom_axis_mode := False, cur_axis_mag := [], cur_dom_axis := 0, client_iter := None, fresh := 0, ticks := 0,
     out := [], fault := False\<rparr>"

definition tables_wf :: "daemon \<Rightarrow> bool" where
  "tables_wf d \<longleftrightarrow> length (cur_axis_mag d) = 6 \<and> cur_dom_axis d < 6 \<and>
     distinct (map de_dev (dev_ev_list d)) \<and> list_all dev_event_wf (dev_ev_list d) \<and>
     \<not> (disable_translation d \<and> disable_rotation d)"

definition events_wf :: "daemon \<Rightarrow> bool" where
  "events_wf d \<longleftrightarrow> clients_wf d \<and> cfg_wf (cfg d) \<and> tables_wf d \<and> kb_ok d \<and> \<not> fault d"

text \<open>
  \<open>events_inv s z d\<close>: \<open>d\<close> is well formed and differs from \<open>z\<close> only in what the processing of input may change; with
  \<open>s\<close>, also the keyboard is in order and nothing undefined has happened.
\<close>

definition events_inv :: "bool \<Rightarrow> daemon \<Rightarrow> daemon \<Rightarrow> bool" where
  "events_inv s z d \<longleftrightarrow> clients_wf d \<and> cfg_wf (cfg d) \<and> tables_wf d \<and> steady d = steady z \<and> fresh z \<le> fresh d \<and>
     (s \<longrightarrow> kb_ok d \<and> \<not> fault d)"

lemma events_wf_inv: "events_wf d \<longleftrightarrow> events_inv True d d"
  by (auto simp: events_wf_def events_inv_def)

lemma events_invD:
  "events_inv s z d \<Longrightarrow> clients_wf d" "events_inv s z d \<Longrightarrow> cfg_wf (cfg d)" "events_inv s z d \<Longrightarrow> s \<Longrightarrow> kb_ok d"
  "events_inv True z d \<Longrightarrow> events_wf d"
  by (simp_all add: events_inv_def events_wf_def)

lemma events_wfI: "(\<And>s z. events_inv s z d \<Longrightarrow> events_inv s z d') \<Longrightarrow> events_wf d \<Longrightarrow> events_wf d'"
  using events_invD(4) events_wf_inv by blast

lemma steady_fields:
  "steady (d\<lparr>dev_ev_list := es\<rparr>) = steady d" "steady (d\<lparr>disable_translation := b\<rparr>) = steady d"
  "steady (d\<lparr>disable_rotation := b\<rparr>) = steady d" "steady (d\<lparr>dom_axis_mode := b\<rparr>) = steady d"
  "steady (d\<lparr>cur_axis_mag := ms\<rparr>) = steady d" "steady (d\<lparr>cur_dom_axis := n\<rparr>) = steady d"
  "steady (d\<lparr>client_iter := p\<rparr>) = steady d" "steady (d\<lparr>fresh := n\<rparr>) = steady d" "steady (d\<lparr>ticks := n\<rparr>) = steady d"
  "steady (d\<lparr>out := os\<rparr>) = steady d" "steady (d\<lparr>fault := b\<rparr>) = steady d"
  "steady (d\<lparr>cfg := (cfg d)\<lparr>sensitivity := w\<rparr>\<rparr>) = steady d"
  by (simp_all add: steady_def)

lemma tables_wf_fields:
  "tables_wf (d\<lparr>dev_list := ds\<rparr>) = tables_wf d" "tables_wf (d\<lparr>last_id := i\<rparr>) = tables_wf d"
  "tables_wf (d\<lparr>fresh := n\<rparr>) = tables_wf d" "tables_wf (d\<lparr>fault := b\<rparr>) = tables_wf d"
  "tables_wf (d\<lparr>out := os\<rparr>) = tables_wf d" "tables_wf (d\<lparr>client_iter := p\<rparr>) = tables_wf d"
  "tables_wf (d\<lparr>cfg := c\<rparr>) = tables_wf d" "tables_wf (d\<lparr>prev_cfg := c\<rparr>) = tables_wf d"
  "tables_wf (d\<lparr>client_list := cs\<rparr>) = tables_wf d" "tables_wf (d\<lparr>cff := f\<rparr>) = tables_wf d"
  "tables_wf (d\<lparr>serial_in := si\<rparr>) = tables_wf d" "tables_wf (d\<lparr>evdev_in := ei\<rparr>) = tables_wf d"
  "tables_wf (d\<lparr>sock_in := ki\<rparr>) = tables_wf d"
  by (simp_all add: tables_wf_def)

lemma tables_wf_filter: "tables_wf d \<Longrightarrow> tables_wf (d\<lparr>dev_ev_list := filter P (dev_ev_list d)\<rparr>)"
  by (auto simp: tables_wf_def distinct_map_filter list_all_iff)

lemmas events_inv_defs = events_inv_def tables_wf_def clients_wf_def kb_ok_def steady_fields

lemma events_wfD:
  "events_wf d \<Longrightarrow> clients_wf d" "events_wf d \<Longrightarrow> cfg_wf (cfg d)" "events_wf d \<Longrightarrow> kb_ok d"
  "events_wf d \<Longrightarrow> \<not> fault d"
  by (simp_all add: events_wf_def)

definition inp_ok :: "dev_input \<Rightarrow> bool" where
  \<comment> \<open>the index is inside the tables of the configuration\<close>
  "inp_ok inp \<longleftrightarrow>
     (case inp_type inp of
        INP_MOTION \<Rightarrow> axis_valid (inp_idx inp) | INP_BUTTON \<Rightarrow> bn_valid (inp_idx inp) | INP_FLUSH \<Rightarrow> True)"

lemma events_inv_out [inv_intros]: "events_inv s z d \<Longrightarrow> events_inv s z (d\<lparr>out := es\<rparr>)"
  by (simp add: events_inv_defs)

lemma events_inv_iter [inv_intros]: "events_inv s z d \<Longrightarrow> events_inv s z (d\<lparr>client_iter := p\<rparr>)"
  by (simp add: events_inv_defs)

lemma events_inv_fault [inv_intros]: "events_inv s z d \<Longrightarrow> \<not> s \<Longrightarrow> events_inv s z (d\<lparr>fault := b\<rparr>)"
  by (simp add: events_inv_defs)

lemma gettimeofday_inv [inv_intros]: "events_inv s z d \<Longrightarrow> events_inv s z (snd (gettimeofday d))"
  by (simp add: gettimeofday_def events_inv_defs)

lemma broadcast_inv [inv_intros]: "events_inv s z d \<Longrightarrow> events_inv s z (broadcast_event ev d)"
  by (simp add: broadcast_event_eq events_inv_defs)

lemma dispatch_inv [inv_intros]: "events_inv s z d \<Longrightarrow> events_inv s z (dispatch_event dev ev d)"
  by (simp add: dispatch_event_eq events_invD) (simp add: events_inv_defs)

lemma emit_inv [inv_intros]: "events_inv s z d \<Longrightarrow> events_inv s z (emit e d)"
  by (simp add: emit_def events_inv_out)

lemma upd_first_de_dev: "(\<And>e. de_dev (f e) = de_dev e) \<Longrightarrow>
    map de_dev (upd_first p f es) = map de_dev es"
  by (induction es) auto

lemma upd_first_all: "list_all P es \<Longrightarrow> (\<And>e. P e \<Longrightarrow> P (f e)) \<Longrightarrow> list_all P (upd_first p f es)"
  by (induction es) auto

lemma search_upd_first: "(\<And>e. p (f e) = p e) \<Longrightarrow> search p (upd_first p f es) = map_option f (search p es)"
  by (induction es) auto

lemma upd_dev_event_inv [inv_intros]:
  assumes "events_inv s z d" "\<And>e. de_dev (f e) = de_dev e" "\<And>e. dev_event_wf e \<Longrightarrow> dev_event_wf (f e)"
  shows "events_inv s z (upd_dev_event dev f d)"
  using assms upd_first_de_dev [of f] upd_first_all [of dev_event_wf _ f]
  by (simp add: upd_dev_event_def events_inv_defs)

lemma get_upd_dev_event [simp]:
  "(\<And>e. de_dev (f e) = de_dev e) \<Longrightarrow>
   get_dev_event dev (upd_dev_event dev f d) = map_option f (get_dev_event dev d)"
  by (simp add: get_dev_event_def upd_dev_event_def search_upd_first)

lemma update_motion_period_inv [inv_intros]: "events_inv s z d \<Longrightarrow> events_inv s z (update_motion_period dev d)"
  unfolding update_motion_period_def
  by (auto simp: split_beta Let_def dev_event_wf_def intro!: inv_intros)

lemma send_kbevent_inv [inv_intros]: "events_inv s z d \<Longrightarrow> events_inv s z (send_kbevent ks press d)"
  by (auto simp: send_kbevent_def kb_ok_def dest: events_invD(3) intro!: inv_intros)

lemma emit_key_inv [inv_intros]: "events_inv s z d \<Longrightarrow> events_inv s z (emit_key ks val d)"
  by (auto simp: emit_key_def split: option.split intro!: inv_intros)

lemma fold_inv: "(\<And>x d. events_inv s z d \<Longrightarrow> events_inv s z (f x d)) \<Longrightarrow> events_inv s z d \<Longrightarrow> events_inv s z (fold f xs d)"
  by (induction xs arbitrary: d) auto

lemma kbemu_send_key_inv [inv_intros]: "events_inv s z d \<Longrightarrow> events_inv s z (kbemu_send_key ks press d)"
  by (auto simp: kbemu_send_key_def send_key_uinput_def kb_ok_def dest: events_invD(3)
      split: option.split kbemu.split intro!: inv_intros)

lemma kbemu_send_combo_inv [inv_intros]: "events_inv s z d \<Longrightarrow> events_inv s z (kbemu_send_combo keys count press d)"
  by (auto simp: kbemu_send_combo_def send_combo_uinput_def send_kbcombo_def kb_ok_def Let_def dest: events_invD(3)
      split: option.split kbemu.split intro!: inv_intros fold_inv)

lemma cfg_wf_sensitivity: "cfg_wf c \<Longrightarrow> cfg_wf (c\<lparr>sensitivity := s\<rparr>)"
  by (simp add: cfg_wf_def)

lemma set_sensitivity_inv [inv_intros]: "events_inv s z d \<Longrightarrow> events_inv s z (d\<lparr>cfg := (cfg d)\<lparr>sensitivity := w\<rparr>\<rparr>)"
  by (simp add: events_inv_defs cfg_wf_sensitivity)

lemma handle_button_action_inv [inv_intros]: "events_inv s z d \<Longrightarrow> events_inv s z (handle_button_action act pressed d)"
  unfolding handle_button_action_def broadcast_cfg_event_def Let_def
  by (auto intro!: inv_intros) (auto simp: events_inv_defs)

lemma emit_button_inv [inv_intros]: "events_inv s z d \<Longrightarrow> (s \<Longrightarrow> bn_valid idx) \<Longrightarrow> events_inv s z (emit_button dev idx val hold d)"
  by (auto simp: emit_button_def Let_def intro!: inv_intros)

lemma flush_motion_inv [inv_intros]: "events_inv s z d \<Longrightarrow> events_inv s z (flush_motion dev d)"
  unfolding flush_motion_def Let_def
  by (auto simp: dev_event_wf_def split: option.split intro!: inv_intros)

lemma set_hold_inv [inv_intros]: "events_inv s z d \<Longrightarrow> events_inv s z (set_hold dev i tv d)"
  unfolding set_hold_def by (auto simp: dev_event_wf_def intro!: inv_intros)

lemma dominant_inv [inv_intros]: "events_inv s z d \<Longrightarrow> axis < 6 \<Longrightarrow> events_inv s z (snd (dominant axis a v d))"
  by (auto simp: dominant_def events_inv_defs Let_def)

lemma map_axis_range: "map_axis_of idx d \<noteq> - 1 \<Longrightarrow> 0 \<le> map_axis_of idx d \<and> map_axis_of idx d < 6"
proof -
  have "\<forall>a < 6. (0 :: int) \<le> [0, 2, 1, 3, 5, 4] ! a \<and> [0, 2, 1, 3, 5, 4 :: int] ! a < 6"
    by (simp add: less_Suc_eq numeral_eq_Suc)
  then show "map_axis_of idx d \<noteq> - 1 \<Longrightarrow> 0 \<le> map_axis_of idx d \<and> map_axis_of idx d < 6"
    by (auto simp: map_axis_of_def Let_def)
qed

lemma process_motion_inv [inv_intros]:
  "events_inv s z d \<Longrightarrow> (s \<Longrightarrow> axis_valid idx) \<Longrightarrow> events_inv s z (process_motion dev idx val d)"
  unfolding process_motion_def Let_def
  using map_axis_range [of idx "broadcast_event (EvRawAxis idx val) d"]
  by (auto simp: split_beta dev_event_wf_def intro!: inv_intros)

lemma process_button_inv [inv_intros]:
  "events_inv s z d \<Longrightarrow> (s \<Longrightarrow> bn_valid idx) \<Longrightarrow> events_inv s z (process_button dev idx val d)"
  unfolding process_button_def Let_def
  by (auto simp: split_beta intro!: inv_intros)

lemma get_dev_event_None: "get_dev_event dev d = None \<longleftrightarrow> dev \<notin> de_dev ` set (dev_ev_list d)"
  by (auto simp: get_dev_event_def search_None_iff)

lemma add_dev_event_inv:
  "events_inv s z d \<Longrightarrow> get_dev_event dev d = None \<Longrightarrow> events_inv s z (snd (add_dev_event dev d))"
  by (auto simp: add_dev_event_def calloc_def gettimeofday_def new_dev_event_def get_dev_event_None
      events_inv_defs dev_event_wf_def list_all_iff)

lemma process_input_inv [inv_intros]:
  assumes "events_inv s z d" "s \<Longrightarrow> inp_ok inp"
  shows "events_inv s z (process_input dev inp d)"
proof -
  have "events_inv s z (snd (case get_dev_event dev d of None \<Rightarrow> add_dev_event dev d | Some _ \<Rightarrow> (True, d)))"
    using assms(1) add_dev_event_inv [OF assms(1)] by (simp split: option.split)
  with assms(2) show ?thesis
    unfolding process_input_def Let_def
    by (auto simp: split_beta inp_ok_def split: inp_type.split intro!: inv_intros)
qed

lemma repeat_inv [inv_intros]: "events_inv s z d \<Longrightarrow> events_inv s z (repeat_last_motion_event dev d)"
  unfolding repeat_last_motion_event_def Let_def by (auto split: option.split intro!: inv_intros)

lemma expire_button_inv: "events_inv s z d \<Longrightarrow> i < MAX_BUTTONS \<Longrightarrow> events_inv s z (expire_button now dev i d)"
  by (auto simp: expire_button_def bn_valid_def intro!: inv_intros)

lemma fold_inv_set: "(\<And>x d. x \<in> set xs \<Longrightarrow> events_inv s z d \<Longrightarrow> events_inv s z (f x d)) \<Longrightarrow> events_inv s z d \<Longrightarrow> events_inv s z (fold f xs d)"
  by (induction xs arbitrary: d) auto

lemma emit_button_timeouts_inv [inv_intros]: "events_inv s z d \<Longrightarrow> events_inv s z (emit_button_timeouts devs d)"
  unfolding emit_button_timeouts_def Let_def
  by (auto simp: split_beta split: option.split intro!: inv_intros fold_inv fold_inv_set expire_button_inv)

lemma next_button_timeout_inv [inv_intros]: "events_inv s z d \<Longrightarrow> events_inv s z (snd (next_button_timeout devs d))"
  by (auto simp: next_button_timeout_def split_beta Let_def split: option.split intro!: inv_intros)

lemma gettimeofday_wf: "events_wf d \<Longrightarrow> events_wf (snd (gettimeofday d))"
  by (rule events_wfI [OF gettimeofday_inv])

lemma broadcast_wf: "events_wf d \<Longrightarrow> events_wf (broadcast_event ev d)"
  by (rule events_wfI [OF broadcast_inv])

lemma update_motion_period_wf: "events_wf d \<Longrightarrow> events_wf (update_motion_period dev d)"
  by (rule events_wfI [OF update_motion_period_inv])

lemma set_hold_wf: "events_wf d \<Longrightarrow> events_wf (set_hold dev i tv d)"
  by (rule events_wfI [OF set_hold_inv])

lemma emit_button_wf: "events_wf d \<Longrightarrow> bn_valid idx \<Longrightarrow> events_wf (emit_button dev idx val hold d)"
  by (rule events_wfI [OF emit_button_inv])

lemma process_input_wf: "events_wf d \<Longrightarrow> inp_ok inp \<Longrightarrow> events_wf (process_input dev inp d)"
  by (rule events_wfI [OF process_input_inv])

text \<open>The events of the main loop that concern input: one of a device, the repetition, the timeouts.\<close>

datatype input_step = Input nat dev_input | Repeat nat | Timeouts

fun input_do :: "input_step \<Rightarrow> daemon \<Rightarrow> daemon" where
  "input_do (Input dev inp) d = process_input dev inp d"
| "input_do (Repeat dev) d = repeat_last_motion_event dev d"
| "input_do Timeouts d = emit_button_timeouts (dev_list d) d"

lemma input_do_Input: "input_do (Input dev inp) = process_input dev inp"
  by (rule ext) simp

definition step_ok :: "input_step \<Rightarrow> bool" where
  "step_ok st \<longleftrightarrow> (case st of Input _ inp \<Rightarrow> inp_ok inp | _ \<Rightarrow> True)"

interpretation input_run: guarded_invariant input_do step_ok events_wf
  by unfold_locales
    (auto simp: step_ok_def process_input_wf intro: events_wfI [OF repeat_inv] events_wfI [OF emit_button_timeouts_inv]
      split: input_step.splits)

section \<open>What an input event does to the output and to the pending motion\<close>

lemma addressed_dev_list: "dev_list d' = dev_list d \<Longrightarrow> addressed dev d' = addressed dev d"
  by (simp add: addressed_def fun_eq_iff get_client_device_def split: option.split)

lemma get_dev_event_list: "dev_ev_list d' = dev_ev_list d \<Longrightarrow> get_dev_event dev d' = get_dev_event dev d"
  by (simp add: get_dev_event_def)

lemma broadcast_sel:
  "dev_ev_list (broadcast_event ev d) = dev_ev_list d" "cfg (broadcast_event ev d) = cfg d"
  "client_list (broadcast_event ev d) = client_list d" "dev_list (broadcast_event ev d) = dev_list d"
  "clock (broadcast_event ev d) = clock d" "ticks (broadcast_event ev d) = ticks d"
  "dom_axis_mode (broadcast_event ev d) = dom_axis_mode d"
  "disable_translation (broadcast_event ev d) = disable_translation d"
  "disable_rotation (broadcast_event ev d) = disable_rotation d"
  "get_dev_event dev (broadcast_event ev d) = get_dev_event dev d"
  "out (broadcast_event ev d) = out d @ deliver_all d ev (client_list d)"
  by (simp_all add: broadcast_event_eq get_dev_event_def)

lemma broadcast_deliver:
  "deliver_all (broadcast_event ev d) = deliver_all d" "addressed dev (broadcast_event ev d) = addressed dev d"
  unfolding broadcast_event_eq by (rule deliver_all_cong addressed_dev_list; simp)+

lemma upd_dev_sel:
  "cfg (upd_dev_event dev f d) = cfg d" "client_list (upd_dev_event dev f d) = client_list d"
  "dev_list (upd_dev_event dev f d) = dev_list d" "clock (upd_dev_event dev f d) = clock d"
  "ticks (upd_dev_event dev f d) = ticks d" "out (upd_dev_event dev f d) = out d"
  "dom_axis_mode (upd_dev_event dev f d) = dom_axis_mode d"
  "disable_translation (upd_dev_event dev f d) = disable_translation d"
  "disable_rotation (upd_dev_event dev f d) = disable_rotation d"
  by (simp_all add: upd_dev_event_def)

lemma upd_dev_deliver:
  "deliver_all (upd_dev_event dev f d) = deliver_all d" "addressed dv (upd_dev_event dev f d) = addressed dv d"
  unfolding upd_dev_event_def by (rule deliver_all_cong addressed_dev_list; simp)+

lemma dispatch_sel:
  assumes "clients_wf d"
  shows "dev_ev_list (dispatch_event dev ev d) = dev_ev_list d" "cfg (dispatch_event dev ev d) = cfg d"
    "client_list (dispatch_event dev ev d) = client_list d" "dev_list (dispatch_event dev ev d) = dev_list d"
    "clock (dispatch_event dev ev d) = clock d" "ticks (dispatch_event dev ev d) = ticks d"
    "get_dev_event dv (dispatch_event dev ev d) = get_dev_event dv d"
    "out (dispatch_event dev ev d) = out d @ deliver_all d ev (filter (addressed dev d) (client_list d))"
  by (simp_all add: dispatch_event_eq [OF assms] get_dev_event_def)

lemma dispatch_deliver:
  assumes "clients_wf d"
  shows "deliver_all (dispatch_event dev ev d) = deliver_all d" "addressed dv (dispatch_event dev ev d) = addressed dv d"
  unfolding dispatch_event_eq [OF assms] by (rule deliver_all_cong addressed_dev_list; simp)+

text \<open>The configuration leaves values as they are: unit sensitivity, no axis moved or disabled.\<close>

definition plain_axes :: "daemon \<Rightarrow> bool" where
  "plain_axes d \<longleftrightarrow> sensitivity (cfg d) = one_f32 \<and> sens_trans (cfg d) = replicate 3 one_f32 \<and>
     sens_rot (cfg d) = replicate 3 one_f32 \<and> swapyz (cfg d) = 0 \<and>
     (\<forall>i < 6. map_axis (cfg d) ! i = int i) \<and>
     \<not> dom_axis_mode d \<and> \<not> disable_translation d \<and> \<not> disable_rotation d"

definition reported :: "cfg \<Rightarrow> nat \<Rightarrow> int \<Rightarrow> int" where
  \<comment> \<open>the value reported for a displacement of an axis: dead zone and inversion\<close>
  "reported c i v =
     (let v' = (if \<bar>v\<bar> < dead_threshold c ! i then 0 else v) in if invert c ! i \<noteq> 0 then - v' else v')"

abbreviation (input) motion_input :: "nat \<Rightarrow> int \<Rightarrow> dev_input" where
  "motion_input i v \<equiv> \<lparr>inp_type = INP_MOTION, inp_idx = int i, inp_val = v\<rparr>"

lemma process_motion_plain:
  assumes "plain_axes d" "i < 6" "\<bar>v\<bar> < 2 ^ 24"
  shows "process_motion dev (int i) v d =
    upd_dev_event dev (\<lambda>e. e\<lparr>de_motion := (de_motion e)[i := reported (cfg d) i v], de_pending := True\<rparr>)
      (broadcast_event (EvRawAxis (int i) v) d)"
proof -
  let ?d = "broadcast_event (EvRawAxis (int i) v) d"
  let ?w = "if \<bar>v\<bar> < dead_threshold (cfg d) ! i then 0 else v"
  have w: "\<bar>?w\<bar> < 2 ^ 24" using assms(3) by simp
  have ax: "axis_valid (int i)" using assms(2) by (simp add: axis_valid_def)
  have abs: "int32 \<bar>v\<bar> = \<bar>v\<bar>" using assms(3) by (intro int32_id) (simp add: cint_def)
  have m: "map_axis_of (int i) ?d = int i"
    using assms(1, 2) by (simp add: map_axis_of_def plain_axes_def broadcast_sel Let_def)
  have s: "axis_sens i ?d = one_f32"
    using assms(1, 2) by (auto simp: axis_sens_def plain_axes_def broadcast_sel)
  have dom: "dominant i \<bar>v\<bar> ?w ?d = (?w, ?d)"
    using assms(1) by (simp add: dominant_def plain_axes_def broadcast_sel)
  have val: "f32_to_int (f32_mul (f32_mul (f32_of_int ?w) one_f32) one_f32) = ?w"
    using w by (simp add: f32_of_int_finite)
  have sign: "int32 ((if invert (cfg d) ! i \<noteq> 0 then - 1 else 1) * ?w) = reported (cfg d) i v"
    using w by (subst int32_id) (auto simp: cint_def reported_def Let_def)
  have sens: "sensitivity (cfg ?d) = one_f32" using assms(1) by (simp add: plain_axes_def broadcast_sel)
  show ?thesis
    unfolding process_motion_def Let_def
    using ax m s dom val sign sens by (simp add: abs broadcast_sel)
qed

lemma update_period_sel:
  "cfg (update_motion_period dev d) = cfg d" "client_list (update_motion_period dev d) = client_list d"
  "dev_list (update_motion_period dev d) = dev_list d" "clock (update_motion_period dev d) = clock d"
  "ticks (update_motion_period dev d) = ticks d + 1" "out (update_motion_period dev d) = out d"
  "get_dev_event dev (update_motion_period dev d) =
     map_option (\<lambda>e. e\<lparr>de_period := msec_dif (clock d (ticks d)) (de_time e), de_time := clock d (ticks d)\<rparr>)
       (get_dev_event dev d)"
  by (simp_all add: update_motion_period_def gettimeofday_def upd_dev_sel) (simp add: get_dev_event_def)

lemma update_period_deliver:
  "deliver_all (update_motion_period dev d) = deliver_all d"
  "addressed dv (update_motion_period dev d) = addressed dv d"
  unfolding update_motion_period_def gettimeofday_def upd_dev_event_def
  by (rule deliver_all_cong addressed_dev_list; simp)+

definition motion_report :: "nat \<Rightarrow> dev_event \<Rightarrow> daemon \<Rightarrow> effect list" where
  \<comment> \<open>what the listeners of a device get for its pending motion\<close>
  "motion_report dev e d =
     deliver_all d (EvMotion (de_motion e) (msec_dif (clock d (ticks d)) (de_time e)))
       (filter (addressed dev d) (client_list d))"

lemma flush_motion_effect:
  assumes "events_wf d" "get_dev_event dev d = Some e" "de_pending e"
  shows "out (flush_motion dev d) = out d @ motion_report dev e d"
    "get_dev_event dev (flush_motion dev d) = Some (e\<lparr>de_period := msec_dif (clock d (ticks d)) (de_time e),
       de_time := clock d (ticks d), de_pending := False\<rparr>)"
    "cfg (flush_motion dev d) = cfg d" "client_list (flush_motion dev d) = client_list d"
    "dev_list (flush_motion dev d) = dev_list d" "clock (flush_motion dev d) = clock d"
    "ticks (flush_motion dev d) = ticks d + 1"
proof -
  have "clients_wf (update_motion_period dev d)"
    using update_motion_period_wf [OF assms(1)] by (rule events_wfD(1))
  note dispatch_sel [OF this] update_period_sel update_period_deliver upd_dev_sel
  then show "out (flush_motion dev d) = out d @ motion_report dev e d"
    "get_dev_event dev (flush_motion dev d) = Some (e\<lparr>de_period := msec_dif (clock d (ticks d)) (de_time e),
       de_time := clock d (ticks d), de_pending := False\<rparr>)"
    "cfg (flush_motion dev d) = cfg d" "client_list (flush_motion dev d) = client_list d"
    "dev_list (flush_motion dev d) = dev_list d" "clock (flush_motion dev d) = clock d"
    "ticks (flush_motion dev d) = ticks d + 1"
    using assms(2, 3) by (simp_all add: flush_motion_def motion_report_def Let_def)
qed

lemma flush_motion_idle:
  "get_dev_event dev d = Some e \<Longrightarrow> \<not> de_pending e \<Longrightarrow> flush_motion dev d = d"
  "get_dev_event dev d = None \<Longrightarrow> flush_motion dev d = d"
  by (simp_all add: flush_motion_def)

lemma process_input_known:
  "get_dev_event dev d = Some e \<Longrightarrow>
   process_input dev inp d =
     (case inp_type inp of
        INP_MOTION \<Rightarrow> process_motion dev (inp_idx inp) (inp_val inp) d
      | INP_BUTTON \<Rightarrow> process_button dev (inp_idx inp) (inp_val inp) d
      | INP_FLUSH \<Rightarrow> flush_motion dev d)"
  by (simp add: process_input_def)

definition raw_axes :: "daemon \<Rightarrow> (nat \<Rightarrow> int) \<Rightarrow> nat \<Rightarrow> effect list" where
  \<comment> \<open>the raw events of the first axes\<close>
  "raw_axes d v n = concat (map (\<lambda>i. deliver_all d (EvRawAxis (int i) (v i)) (client_list d)) [0..<n])"

lemma plain_axes_cong:
  "cfg d' = cfg d \<Longrightarrow> dom_axis_mode d' = dom_axis_mode d \<Longrightarrow> disable_translation d' = disable_translation d \<Longrightarrow>
   disable_rotation d' = disable_rotation d \<Longrightarrow> plain_axes d' = plain_axes d"
  by (simp add: plain_axes_def)

lemma motions_effect:
  assumes "plain_axes d" "get_dev_event dev d = Some e" "length (de_motion e) = 6"
    and "n \<le> 6" "\<forall>i < n. \<bar>v i\<bar> < 2 ^ 24"
  defines "d' \<equiv> fold (\<lambda>i. process_input dev (motion_input i (v i))) [0..<n] d"
  shows "plain_axes d' \<and> out d' = out d @ raw_axes d v n \<and>
    get_dev_event dev d' = Some (e\<lparr>de_motion := map (\<lambda>i. reported (cfg d) i (v i)) [0..<n] @ drop n (de_motion e),
      de_pending := (0 < n \<or> de_pending e)\<rparr>) \<and>
    cfg d' = cfg d \<and> client_list d' = client_list d \<and> dev_list d' = dev_list d \<and> clock d' = clock d \<and>
    ticks d' = ticks d \<and> deliver_all d' = deliver_all d \<and> addressed dev d' = addressed dev d"
  using assms(4, 5) unfolding d'_def
proof (induction n)
  case 0
  then show ?case using assms(1-3) by (simp add: raw_axes_def)
next
  case (Suc n)
  let ?d = "fold (\<lambda>i. process_input dev (motion_input i (v i))) [0..<n] d"
  let ?e = "e\<lparr>de_motion := map (\<lambda>i. reported (cfg d) i (v i)) [0..<n] @ drop n (de_motion e),
      de_pending := (0 < n \<or> de_pending e)\<rparr>"
  let ?b = "broadcast_event (EvRawAxis (int n) (v n)) ?d"
  have IH: "plain_axes ?d" "out ?d = out d @ raw_axes d v n" "get_dev_event dev ?d = Some ?e"
    "cfg ?d = cfg d" "client_list ?d = client_list d" "dev_list ?d = dev_list d" "clock ?d = clock d"
    "ticks ?d = ticks d" "deliver_all ?d = deliver_all d" "addressed dev ?d = addressed dev d"
    using Suc by simp_all
  have n: "n < 6" "\<bar>v n\<bar> < 2 ^ 24" using Suc.prems by simp_all
  have step: "fold (\<lambda>i. process_input dev (motion_input i (v i))) [0..<Suc n] d =
      upd_dev_event dev (\<lambda>e. e\<lparr>de_motion := (de_motion e)[n := reported (cfg d) n (v n)], de_pending := True\<rparr>) ?b"
    using process_motion_plain [OF IH(1) n, of dev] by (simp add: process_input_known [OF IH(3)] IH(4))
  have upd: "(map f [0..<n] @ drop n xs)[n := y] = map f [0..<n] @ y # drop (Suc n) xs"
    if "length xs = 6" for f :: "nat \<Rightarrow> int" and xs y
    using that n(1) by (simp add: list_update_append drop_update_cancel Cons_nth_drop_Suc [symmetric])
  have "plain_axes (upd_dev_event dev g ?b) = plain_axes ?d" for g
    by (rule plain_axes_cong) (simp_all add: upd_dev_sel broadcast_sel)
  with IH show ?case
    unfolding step
    by (simp add: upd_dev_sel upd_dev_deliver broadcast_sel broadcast_deliver raw_axes_def upd [OF assms(3)])
qed

lemma flush_motion_once:
  assumes "events_wf d"
  shows "flush_motion dev (flush_motion dev d) = flush_motion dev d"
proof (cases "get_dev_event dev d")
  case None
  then show ?thesis by (simp add: flush_motion_idle)
next
  case (Some e)
  then show ?thesis
    using flush_motion_effect(2) [OF assms Some] flush_motion_idle [of dev _] by (cases "de_pending e") simp_all
qed

section \<open>Buttons with a second meaning when held\<close>

definition hold_button :: "cfg \<Rightarrow> nat \<Rightarrow> bool" where
  \<comment> \<open>a button that is mapped to another one when held, and bound to no action and no key\<close>
  "hold_button c i \<longleftrightarrow> i < MAX_BUTTONS \<and> map_hold c ! i \<noteq> - 1 \<and> bnact c ! i \<le> 0 \<and> kbmap_count c ! i \<le> 0"

definition listeners :: "nat \<Rightarrow> daemon \<Rightarrow> spnav_event \<Rightarrow> effect list" where
  "listeners dev d ev = deliver_all d ev (filter (addressed dev d) (client_list d))"

definition raw_button :: "daemon \<Rightarrow> nat \<Rightarrow> int \<Rightarrow> effect list" where
  "raw_button d i val = deliver_all d (EvRawButton (int i) val) (client_list d)"

text \<open>What two states must share for clients to get the same events in both.\<close>

definition same_clients :: "daemon \<Rightarrow> daemon \<Rightarrow> bool" where
  "same_clients d d' \<longleftrightarrow> cfg d' = cfg d \<and> client_list d' = client_list d \<and> dev_list d' = dev_list d \<and>
     clock d' = clock d \<and> lsock d' = lsock d \<and> dpy d' = dpy d \<and> x11_sens d' = x11_sens d"

lemma same_clients_refl [simp]: "same_clients d d"
  by (simp add: same_clients_def)

lemma same_clients_trans: "same_clients a b \<Longrightarrow> same_clients b c \<Longrightarrow> same_clients a c"
  by (simp add: same_clients_def)

lemma same_clientsD:
  assumes "same_clients d d'"
  shows "cfg d' = cfg d" "client_list d' = client_list d" "clock d' = clock d"
    "listeners dev d' = listeners dev d" "raw_button d' = raw_button d"
proof -
  have "deliver_all d' = deliver_all d" "addressed dev d' = addressed dev d"
    using assms by (auto simp: same_clients_def intro: deliver_all_cong addressed_dev_list)
  note eq = this
  show "cfg d' = cfg d" "client_list d' = client_list d" "clock d' = clock d"
    using assms by (simp_all add: same_clients_def)
  with eq show "listeners dev d' = listeners dev d" "raw_button d' = raw_button d"
    by (simp_all only: listeners_def [abs_def] raw_button_def [abs_def])
qed

lemma same_clients_steps [daemon_frame]:
  "same_clients d x \<Longrightarrow> same_clients d (broadcast_event ev x)"
  "same_clients d x \<Longrightarrow> same_clients d (upd_dev_event dev f x)"
  "same_clients d x \<Longrightarrow> same_clients d (x\<lparr>ticks := t\<rparr>)"
  "same_clients d x \<Longrightarrow> clients_wf x \<Longrightarrow> same_clients d (dispatch_event dev ev x)"
  "same_clients d x \<Longrightarrow> same_clients d (set_hold dev i tv x)"
  by (simp_all add: same_clients_def broadcast_event_eq upd_dev_event_def dispatch_event_eq set_hold_def)

lemma emit_hold_button:
  assumes "events_wf d" "hold_button (cfg d) i"
  shows "emit_button dev (int i) val hold d =
    dispatch_event dev (EvButton (if hold then map_hold (cfg d) ! i else map_button (cfg d) ! i) val) d"
  using assms(2) by (simp add: emit_button_def hold_button_def bn_valid_def)

lemma emit_hold_button_effect:
  assumes "events_wf d" "hold_button (cfg d) i"
  shows "out (emit_button dev (int i) val hold d) =
      out d @ listeners dev d (EvButton (if hold then map_hold (cfg d) ! i else map_button (cfg d) ! i) val)"
    "same_clients d (emit_button dev (int i) val hold d)"
    "dev_ev_list (emit_button dev (int i) val hold d) = dev_ev_list d"
    "ticks (emit_button dev (int i) val hold d) = ticks d"
  unfolding emit_hold_button [OF assms]
  by (simp_all add: dispatch_sel events_wfD(1) [OF assms(1)] daemon_frame listeners_def)

definition click :: "nat \<Rightarrow> daemon \<Rightarrow> int \<Rightarrow> effect list" where
  \<comment> \<open>a press and a release of a button, to the listeners of a device\<close>
  "click dev d bnum = listeners dev d (EvButton bnum 1) @ listeners dev d (EvButton bnum 0)"

definition held_as :: "cfg \<Rightarrow> nat \<Rightarrow> bool \<Rightarrow> int" where
  "held_as c i hold = (if hold then map_hold c ! i else map_button c ! i)"

lemma emit_click:
  fixes dev :: nat and hold :: bool
  assumes "events_wf d" "hold_button (cfg d) i"
  defines "d' \<equiv> emit_button dev (int i) 0 hold (emit_button dev (int i) 1 hold d)"
  shows "out d' = out d @ click dev d (held_as (cfg d) i hold)" "same_clients d d'"
    "dev_ev_list d' = dev_ev_list d" "ticks d' = ticks d" "events_wf d'"
proof -
  note a = emit_hold_button_effect [OF assms(1, 2), of dev 1 hold]
  have i: "bn_valid (int i)" using assms(2) by (simp add: hold_button_def bn_valid_def)
  have wf: "events_wf (emit_button dev (int i) 1 hold d)" by (rule emit_button_wf [OF assms(1) i])
  have hb: "hold_button (cfg (emit_button dev (int i) 1 hold d)) i"
    using assms(2) same_clientsD(1) [OF a(2)] by simp
  note b = emit_hold_button_effect [OF wf hb, of dev 0 hold]
  show "out d' = out d @ click dev d (held_as (cfg d) i hold)"
    unfolding d'_def b(1) a(1) same_clientsD [OF a(2)] by (simp add: click_def held_as_def)
  show "same_clients d d'" unfolding d'_def by (rule same_clients_trans [OF a(2) b(2)])
  show "dev_ev_list d' = dev_ev_list d" "ticks d' = ticks d" unfolding d'_def by (simp_all add: a b)
  show "events_wf d'" unfolding d'_def by (rule emit_button_wf [OF wf i])
qed

lemma get_hold_set [simp]:
  "get_dev_event dev d = Some e \<Longrightarrow> length (de_hold e) = 64 \<Longrightarrow> i < 64 \<Longrightarrow>
   get_hold dev i (set_hold dev i tv d) = tv"
  by (simp add: get_hold_def set_hold_def)

lemma get_dev_event_wf: "events_wf d \<Longrightarrow> get_dev_event dev d = Some e \<Longrightarrow> dev_event_wf e"
  by (auto simp: events_wf_def tables_wf_def get_dev_event_def list_all_iff dest: search_SomeD)

lemma press_hold_button:
  fixes dev :: nat
  assumes "events_wf d" "hold_button (cfg d) i" "get_dev_event dev d = Some e" "\<not> de_pending e"
  defines "d' \<equiv> process_input dev (button i True) d"
  shows "out d' = out d @ raw_button d i 1"
    "get_dev_event dev d' = Some (e\<lparr>de_hold := (de_hold e)[i := hold_deadline (clock d (ticks d)) (hold_timeout (cfg d))]\<rparr>)"
    "same_clients d d'" "ticks d' = ticks d + 1" "events_wf d'"
proof -
  let ?b = "broadcast_event (EvRawButton (int i) 1) d"
  have i: "bn_valid (int i)" using assms(2) by (simp add: hold_button_def bn_valid_def)
  have ge: "get_dev_event dev ?b = Some e" using assms(3) by (simp add: broadcast_sel)
  have d': "d' = set_hold dev i (hold_deadline (clock d (ticks d)) (hold_timeout (cfg d))) (?b\<lparr>ticks := ticks d + 1\<rparr>)"
    unfolding d'_def process_input_known [OF assms(3)] using i assms(2)
    by (simp add: button_def process_button_def flush_motion_idle(1) [OF ge assms(4)] gettimeofday_def
        broadcast_sel hold_button_def Let_def)
  show "out d' = out d @ raw_button d i 1"
    by (simp add: d' set_hold_def upd_dev_sel broadcast_sel raw_button_def)
  have "get_dev_event dev (?b\<lparr>ticks := ticks d + 1\<rparr>) = Some e" using ge by (simp add: get_dev_event_def)
  then show "get_dev_event dev d' = Some (e\<lparr>de_hold := (de_hold e)[i := hold_deadline (clock d (ticks d)) (hold_timeout (cfg d))]\<rparr>)"
    by (simp add: d' set_hold_def)
  show "same_clients d d'"
    unfolding d' by (intro daemon_frame same_clients_refl)
  show "ticks d' = ticks d + 1" by (simp add: d' set_hold_def upd_dev_sel)
  show "events_wf d'"
    unfolding d'_def by (rule process_input_wf [OF assms(1)]) (simp add: inp_ok_def button_def i)
qed

lemma release_hold_button:
  fixes dev :: nat
  assumes "events_wf d" "hold_button (cfg d) i" "get_dev_event dev d = Some e" "\<not> de_pending e"
  defines "d' \<equiv> process_input dev (button i False) d"
  shows "out d' = out d @ raw_button d i 0 @
    (if time_unset (de_hold e ! i) then []
     else click dev d (held_as (cfg d) i (timer_le (de_hold e ! i) (clock d (ticks d)))))"
proof -
  let ?b = "broadcast_event (EvRawButton (int i) 0) d"
  let ?t = "?b\<lparr>ticks := Suc (ticks d)\<rparr>"
  have i: "bn_valid (int i)" using assms(2) by (simp add: hold_button_def bn_valid_def)
  have ge: "get_dev_event dev ?b = Some e" using assms(3) by (simp add: broadcast_sel)
  have gt: "get_hold dev i ?t = de_hold e ! i"
    using ge by (simp add: get_hold_def get_dev_event_def)
  have t: "same_clients d ?t" by (intro daemon_frame same_clients_refl)
  have wf: "events_wf ?t"
    using gettimeofday_wf [OF broadcast_wf [OF assms(1), of "EvRawButton (int i) 0"]]
    by (simp add: gettimeofday_def broadcast_sel)
  have hb: "hold_button (cfg ?t) i" using assms(2) by (simp add: broadcast_sel)
  note c = emit_click [OF wf hb, of dev]
  have "d' = (if time_unset (de_hold e ! i) then ?t
      else (let hold = timer_le (de_hold e ! i) (clock d (ticks d)) in
            set_hold dev i time_zero (emit_button dev (int i) 0 hold (emit_button dev (int i) 1 hold ?t))))"
    unfolding d'_def process_input_known [OF assms(3)] using i assms(2)
    by (simp add: button_def process_button_def flush_motion_idle(1) [OF ge assms(4)] gettimeofday_def gt
        broadcast_sel hold_button_def Let_def)
  moreover have "click dev ?t = click dev d"
    using same_clientsD(4) [OF t, of dev] by (simp add: click_def fun_eq_iff)
  ultimately show ?thesis
    by (simp add: Let_def set_hold_def upd_dev_sel c(1) broadcast_sel raw_button_def)
qed

lemma expire_hold_button:
  fixes dev :: nat
  assumes "events_wf d" "hold_button (cfg d) i" "get_dev_event dev d = Some e"
    and "\<not> time_unset (de_hold e ! i)" "timer_le (de_hold e ! i) now"
  defines "d' \<equiv> expire_button now dev i d"
  shows "out d' = out d @ click dev d (map_hold (cfg d) ! i)"
    "get_dev_event dev d' = Some (e\<lparr>de_hold := (de_hold e)[i := time_zero]\<rparr>)" "same_clients d d'" "events_wf d'"
proof -
  note c = emit_click [OF assms(1, 2), of dev True]
  have d': "d' = set_hold dev i time_zero (emit_button dev (int i) 0 True (emit_button dev (int i) 1 True d))"
    using assms(3-5) by (simp add: d'_def expire_button_def get_hold_def)
  show "out d' = out d @ click dev d (map_hold (cfg d) ! i)"
    by (simp add: d' set_hold_def upd_dev_sel c(1) held_as_def)
  show "get_dev_event dev d' = Some (e\<lparr>de_hold := (de_hold e)[i := time_zero]\<rparr>)"
    using assms(3) get_dev_event_list [OF c(3), of dev] by (simp add: d' set_hold_def)
  show "same_clients d d'" unfolding d' by (intro daemon_frame c)
  show "events_wf d'" unfolding d' by (intro set_hold_wf c)
qed

lemma time_unset_zero [simp]: "time_unset time_zero"
  by (simp add: time_unset_def)

section \<open>Deadlines\<close>

definition usecs :: "timeval \<Rightarrow> int" where
  "usecs tv = tv_sec tv * 1000000 + tv_usec tv"

definition normal :: "timeval \<Rightarrow> bool" where
  "normal tv \<longleftrightarrow> 0 \<le> tv_usec tv \<and> tv_usec tv < 1000000"

lemma usecs_le: "normal a \<Longrightarrow> normal b \<Longrightarrow> timer_le a b \<longleftrightarrow> usecs a \<le> usecs b"
  by (auto simp: timer_le_def usecs_def normal_def)

lemma usecs_less: "normal a \<Longrightarrow> normal b \<Longrightarrow> timer_less a b \<longleftrightarrow> usecs a < usecs b"
  by (auto simp: timer_less_def usecs_def normal_def)

lemma hold_deadline_usecs:
  assumes "normal now" "0 \<le> ms"
  shows "usecs (hold_deadline now ms) = usecs now + ms * 1000" "normal (hold_deadline now ms)"
proof -
  let ?u = "tv_usec now + ms mod 1000 * 1000"
  have u: "0 \<le> ?u" using assms by (simp add: normal_def)
  have div: "ms sdiv 1000 = ms div 1000" "ms smod 1000 = ms mod 1000"
    "?u sdiv 1000000 = ?u div 1000000" "?u smod 1000000 = ?u mod 1000000"
    using assms(2) u by (simp_all add: signed_divide_int_def signed_modulo_int_def sgn_if)
  have lin: "1000 * a + b = m \<Longrightarrow> 1000000 * q + r = u + b * 1000 \<Longrightarrow>
      (s + a + q) * 1000000 + r = s * 1000000 + u + m * 1000" for a b m q r u s :: int
    by (simp add: algebra_simps)
  show "usecs (hold_deadline now ms) = usecs now + ms * 1000"
    unfolding hold_deadline_def Let_def div usecs_def timeval.simps by (rule lin) simp_all
  show "normal (hold_deadline now ms)" by (simp add: hold_deadline_def div normal_def Let_def)
qed

definition set_timeouts :: "device list \<Rightarrow> daemon \<Rightarrow> timeval list" where
  \<comment> \<open>the button timeouts of the open devices\<close>
  "set_timeouts devs d = concat (map (\<lambda>dev.
     if is_device_valid (Some dev) then
       (case get_dev_event (d_addr dev) d of
          None \<Rightarrow> []
        | Some e \<Rightarrow> map (\<lambda>i. de_hold e ! i) [0..<MAX_BUTTONS])
     else []) devs)"

lemma earliest_fold: "earliest_timeout devs d = fold earlier (set_timeouts devs d) None"
proof -
  have "fold (\<lambda>dev m.
        if \<not> is_device_valid (Some dev) then m
        else case get_dev_event (d_addr dev) d of
          None \<Rightarrow> m
        | Some e \<Rightarrow> fold (\<lambda>i. earlier (de_hold e ! i)) [0..<MAX_BUTTONS] m) devs m
      = fold earlier (set_timeouts devs d) m" for m
    by (induction devs arbitrary: m)
      (auto simp: set_timeouts_def fold_map comp_def simp del: upt_Suc split: option.split)
  then show ?thesis by (simp add: earliest_timeout_def)
qed

lemma earlier_fold_spec:
  "list_all normal ts \<Longrightarrow> (\<forall>y. m = Some y \<longrightarrow> normal y) \<Longrightarrow>
   (case fold earlier ts m of
      None \<Rightarrow> m = None \<and> list_all time_unset ts
    | Some x \<Rightarrow> normal x \<and> (m = Some x \<or> x \<in> set ts \<and> \<not> time_unset x) \<and>
        (\<forall>t \<in> set ts. \<not> time_unset t \<longrightarrow> usecs x \<le> usecs t) \<and> (\<forall>y. m = Some y \<longrightarrow> usecs x \<le> usecs y))"
proof (induction ts arbitrary: m)
  case Nil
  then show ?case by (simp split: option.split)
next
  case (Cons t ts)
  have e: "earlier t m = (if time_unset t then m else if m = None then Some t
      else if usecs t < usecs (the m) then Some t else m)"
    using Cons.prems usecs_less [of t] by (auto simp: earlier_def split: option.split)
  have "\<forall>y. earlier t m = Some y \<longrightarrow> normal y" using Cons.prems by (auto simp: e)
  from Cons.IH [OF _ this] Cons.prems show ?case
    by (cases "fold earlier ts (earlier t m)") (auto simp: e split: if_splits)
qed

section \<open>Properties\<close>


lemma start_state_wf: "events_wf start_state"
proof -
  have "clients_wf start_state" "cfg_wf default_cfg"
    using start_state_clients by (simp_all add: cfg_wf_def default_cfg_def list_all_iff bn_valid_def bnact_valid_def)
  then show ?thesis by (simp add: events_wf_def tables_wf_def kb_ok_def) (simp add: start_state_def)
qed


text \<open>
  C5: with unit sensitivity, six motion events and a flush of a device tell every client the raw
  values of the axes, as they come, and then the listeners of the device all six axes in one
  motion event, each as it was except for its dead zone and inversion, with the time since the
  last one; after it nothing is pending, and another flush does nothing.
\<close>

theorem motion_reported:
  assumes "events_wf d" "plain_axes d" "get_dev_event dev d = Some e" "\<forall>i < 6. \<bar>v i\<bar> < 2 ^ 24"
  shows "let d1 = fold (\<lambda>i. process_input dev (motion_input i (v i))) [0..<6] d;
             d2 = process_input dev \<lparr>inp_type = INP_FLUSH, inp_idx = 0, inp_val = 0\<rparr> d1 in
    out d1 = out d @ raw_axes d v 6 \<and>
    out d2 = out d1 @ deliver_all d
        (EvMotion (map (\<lambda>i. reported (cfg d) i (v i)) [0..<6]) (msec_dif (clock d (ticks d)) (de_time e)))
        [c \<leftarrow> client_list d. get_client_device c d \<in> {None, Some dev}] \<and>
    process_input dev \<lparr>inp_type = INP_FLUSH, inp_idx = 0, inp_val = 0\<rparr> d2 = d2"
proof -
  let ?d1 = "fold (\<lambda>i. process_input dev (motion_input i (v i))) [0..<6] d"
  let ?e = "e\<lparr>de_motion := map (\<lambda>i. reported (cfg d) i (v i)) [0..<6], de_pending := True\<rparr>"
  let ?flush = "\<lparr>inp_type = INP_FLUSH, inp_idx = 0, inp_val = 0\<rparr> :: dev_input"
  have len: "length (de_motion e) = 6"
    using assms(1, 3) by (auto simp: events_wf_def tables_wf_def get_dev_event_def list_all_iff dev_event_wf_def dest: search_SomeD)
  note m = motions_effect [OF assms(2, 3) len, of 6 v, simplified]
  have m: "out ?d1 = out d @ raw_axes d v 6" "get_dev_event dev ?d1 = Some ?e" "client_list ?d1 = client_list d"
    "clock ?d1 = clock d" "ticks ?d1 = ticks d" "deliver_all ?d1 = deliver_all d" "addressed dev ?d1 = addressed dev d"
    using motions_effect [OF assms(2, 3) len, of 6 v] assms(4) len by (simp_all del: upt_Suc)
  have "events_wf ?d1"
  proof -
    have "list_all step_ok (map (\<lambda>i. Input dev (motion_input i (v i))) [0..<6])"
      by (simp add: list_all_iff step_ok_def inp_ok_def axis_valid_def)
    from input_run.run_guarded [OF this assms(1)] show ?thesis by (simp add: fold_map comp_def input_do_Input del: upt_Suc)
  qed
  note f = flush_motion_effect [OF this m(2)] flush_motion_once [OF this, of dev]
  have ad: "addressed dev d = (\<lambda>c. get_client_device c d \<in> {None, Some dev})" by (auto simp: addressed_def)
  have "process_input dev ?flush ?d1 = flush_motion dev ?d1"
    by (simp add: process_input_known [OF m(2)])
  moreover have "process_input dev ?flush (flush_motion dev ?d1) = flush_motion dev ?d1"
    using f by (simp add: process_input_known [OF f(2)])
  ultimately show ?thesis
    using f(1) m ad by (simp add: Let_def motion_report_def del: upt_Suc)
qed

definition watched :: daemon where
  \<comment> \<open>two clients, a device at address 9 whose last event is known, the default configuration\<close>
  "watched = two_clients\<lparr>dev_list := [(sample_dev 0)\<lparr>d_addr := 9\<rparr>],
     dev_ev_list := [new_dev_event 9 time_zero]\<rparr>"

lemma watched_wf: "events_wf watched" "plain_axes watched"
  "get_dev_event 9 watched = Some (new_dev_event 9 time_zero)"
proof -
  show "events_wf watched"
    using start_state_wf two_clients_wf
    by (simp add: watched_def events_wf_def tables_wf_def clients_wf_def kb_ok_def dev_event_wf_def new_dev_event_def two_clients_eq)
  show "plain_axes watched"
    by (simp add: watched_def two_clients_eq plain_axes_def default_cfg_def) (simp add: start_state_def)
  show "get_dev_event 9 watched = Some (new_dev_event 9 time_zero)"
    by (simp add: watched_def get_dev_event_def new_dev_event_def)
qed

theorem motion_reported_witness:
  "let d1 = fold (\<lambda>i. process_input 9 (motion_input i (int i * 100))) [0..<6] watched;
       d2 = process_input 9 \<lparr>inp_type = INP_FLUSH, inp_idx = 0, inp_val = 0\<rparr> d1 in
   out d2 = out d1 @ [Uevent 8 [0, 0, 100, 200, 300, 400, 500, 0], Uevent 7 [0, 0, 100, 200, 300, 400, 500, 0]]"
proof -
  let ?v = "\<lambda>i. int i * 100"
  have "\<forall>i < 6. \<bar>?v i\<bar> < 2 ^ 24" by auto
  note t = motion_reported [OF watched_wf this]
  have r: "map (\<lambda>i. reported (cfg watched) i (?v i)) [0..<6] = [0, 100, 200, 300, 400, 500]"
    by (simp add: upt_rec reported_def watched_def two_clients_eq default_cfg_def nth_append)
  have p: "msec_dif (clock watched (ticks watched)) (de_time (new_dev_event 9 time_zero)) = 0"
    by (simp add: watched_def two_clients_eq start_state_def new_dev_event_def msec_dif_def)
  have c: "[c \<leftarrow> client_list watched. get_client_device c watched \<in> {None, Some 9}]
      = [add_result CLIENT_UNIX 8 0 1, add_result CLIENT_UNIX 7 0 0]"
    by (simp add: watched_def two_clients_eq get_client_device_def add_result_def calloc_client_def)
  have one: "scale one_f32 k = k" if "\<bar>k\<bar> < 2 ^ 24" for k
    using that by (simp add: scale_def f32_of_int_finite)
  have "deliver_all watched (EvMotion [0, 100, 200, 300, 400, 500] 0)
      [add_result CLIENT_UNIX 8 0 1, add_result CLIENT_UNIX 7 0 0]
    = [Uevent 8 [0, 0, 100, 200, 300, 400, 500, 0], Uevent 7 [0, 0, 100, 200, 300, 400, 500, 0]]"
    by (simp add: deliver_all_def deliver_def watched_def two_clients_eq add_result_def calloc_client_def
        upt_rec one w32_def)
  with t show ?thesis by (simp only: r p c Let_def simp_thms)
qed

text \<open>
  C6: a button with a second meaning. Pressing it tells the clients only the raw event; releasing
  it gives the listeners one press and one release, of the button it is mapped to when held if the
  hold timeout has passed since the press, and of the ordinary one before. If a check of the
  timeouts comes first after the deadline, the held button is given then, and the release adds
  nothing.
\<close>

theorem hold_button_protocol:
  assumes "events_wf d" "hold_button (cfg d) i" "get_dev_event dev d = Some e" "\<not> de_pending e"
    and "normal (clock d (ticks d))" "normal (clock d (Suc (ticks d)))"
    and "0 \<le> hold_timeout (cfg d)" "0 < usecs (clock d (ticks d))"
  shows "let d1 = process_input dev (button i True) d;
             d2 = process_input dev (button i False) d1;
             deadline = usecs (clock d (ticks d)) + hold_timeout (cfg d) * 1000;
             held = (deadline \<le> usecs (clock d (Suc (ticks d)))) in
    out d1 = out d @ raw_button d i 1 \<and>
    out d2 = out d1 @ raw_button d i 0 @ click dev d (if held then map_hold (cfg d) ! i else map_button (cfg d) ! i) \<and>
    (\<forall>now. normal now \<and> deadline \<le> usecs now \<longrightarrow>
      (let d3 = expire_button now dev i d1 in
       out d3 = out d1 @ click dev d (map_hold (cfg d) ! i) \<and>
       out (process_input dev (button i False) d3) = out d3 @ raw_button d i 0 \<and>
       expire_button now dev i d3 = d3))"
proof -
  let ?d1 = "process_input dev (button i True) d"
  let ?t = "hold_deadline (clock d (ticks d)) (hold_timeout (cfg d))"
  let ?e = "e\<lparr>de_hold := (de_hold e)[i := ?t]\<rparr>"
  have i: "i < 64" using assms(2) by (simp add: hold_button_def)
  have len: "length (de_hold e) = 64" using get_dev_event_wf [OF assms(1, 3)] by (simp add: dev_event_wf_def)
  note t = hold_deadline_usecs [OF assms(5, 7)]
  have set: "\<not> time_unset ?t"
  proof
    assume "time_unset ?t"
    then have "usecs ?t = 0" by (simp add: time_unset_def usecs_def)
    with t(1) assms(7, 8) show False by simp
  qed
  note p = press_hold_button [OF assms(1-4)]
  note same = same_clientsD [OF p(3)]
  have hb: "hold_button (cfg ?d1) i" using assms(2) same(1) by simp
  have e: "\<not> de_pending ?e" "de_hold ?e ! i = ?t" using assms(4) i len by simp_all
  have click1: "click dev ?d1 = click dev d" using same(4) [of dev] by (simp add: click_def fun_eq_iff)
  have out2: "out (process_input dev (button i False) ?d1) = out ?d1 @ raw_button d i 0 @
      click dev d (held_as (cfg d) i (timer_le ?t (clock d (Suc (ticks d)))))"
    using release_hold_button [OF p(5) hb p(2) e(1)] set i len by (simp add: same p(4) click1)
  have exp: "out (expire_button now dev i ?d1) = out ?d1 @ click dev d (map_hold (cfg d) ! i) \<and>
      out (process_input dev (button i False) (expire_button now dev i ?d1))
        = out (expire_button now dev i ?d1) @ raw_button d i 0 \<and>
      expire_button now dev i (expire_button now dev i ?d1) = expire_button now dev i ?d1"
    if now: "normal now" "usecs ?t \<le> usecs now" for now
  proof -
    have le: "timer_le (de_hold ?e ! i) now" using usecs_le [OF t(2) now(1)] now(2) e(2) by simp
    note x = expire_hold_button [OF p(5) hb p(2) _ le]
    let ?d3 = "expire_button now dev i ?d1"
    have d3: "get_dev_event dev ?d3 = Some (?e\<lparr>de_hold := (de_hold ?e)[i := time_zero]\<rparr>)"
      "same_clients ?d1 ?d3" "events_wf ?d3" "out ?d3 = out ?d1 @ click dev ?d1 (map_hold (cfg ?d1) ! i)"
      using x set e(2) by simp_all
    note same3 = same_clientsD [OF d3(2)]
    have "hold_button (cfg ?d3) i" using hb same3(1) by simp
    from release_hold_button [OF d3(3) this d3(1)] assms(4) i len
    have "out (process_input dev (button i False) ?d3) = out ?d3 @ raw_button d i 0"
      by (simp add: same3 same)
    moreover have "expire_button now dev i ?d3 = ?d3"
      using d3(1) i len by (simp add: expire_button_def get_hold_def)
    ultimately show ?thesis using d3(4) by (simp add: same click1)
  qed
  show ?thesis
    using p(1) out2 exp usecs_le [OF t(2) assms(6)] by (simp add: Let_def t(1) held_as_def)
qed

definition holding :: daemon where
  \<comment> \<open>\<open>watched\<close>, with button 2 mapped to button 5 when held for 350 ms, after ten seconds\<close>
  "holding = watched\<lparr>cfg := default_cfg\<lparr>map_hold := (map_hold default_cfg)[2 := 5]\<rparr>, ticks := 10\<rparr>"

lemma holding_wf: "events_wf holding" "hold_button (cfg holding) 2"
  "get_dev_event 9 holding = Some (new_dev_event 9 time_zero)"
proof -
  have "list_all (\<lambda>b. b = - 1 \<or> bn_valid b) ((map_hold default_cfg)[2 := 5])"
    by (intro list_all_update) (simp_all add: default_cfg_def list_all_iff bn_valid_def)
  moreover have "cfg_wf default_cfg" using start_state_wf by (simp add: events_wf_def tables_wf_def)
  ultimately have "cfg_wf (cfg holding)" by (simp add: holding_def cfg_wf_def)
  with watched_wf(1) show "events_wf holding"
    by (simp add: holding_def events_wf_def tables_wf_def clients_wf_def kb_ok_def)
  show "hold_button (cfg holding) 2" by (simp add: holding_def hold_button_def default_cfg_def)
  show "get_dev_event 9 holding = Some (new_dev_event 9 time_zero)"
    using watched_wf(3) by (simp add: holding_def get_dev_event_def)
qed

theorem hold_button_protocol_witness:
  "let d1 = process_input 9 (button 2 True) holding in
   out (process_input 9 (button 2 False) d1) = out d1 @ raw_button holding 2 0 @ click 9 holding 5 \<and>
   out (expire_button \<lparr>tv_sec = 11, tv_usec = 0\<rparr> 9 2 d1) = out d1 @ click 9 holding 5"
proof -
  have c: "clock holding n = \<lparr>tv_sec = int n, tv_usec = 0\<rparr>" "ticks holding = 10"
    "hold_timeout (cfg holding) = 350" "map_hold (cfg holding) ! 2 = 5" for n
    by (simp_all add: holding_def watched_def two_clients_eq start_state_def default_cfg_def)
  have "\<not> de_pending (new_dev_event 9 time_zero)" by (simp add: new_dev_event_def)
  from hold_button_protocol [OF holding_wf this] show ?thesis
    by (simp add: c normal_def usecs_def Let_def)
qed

text \<open>
  C14: the time the main loop may wait for a button: none is given exactly if no timeout is set on
  an open device; otherwise it is the time that is left until the earliest of them, nothing if it
  has passed, in seconds and fewer than a million microseconds.
\<close>

theorem next_timeout_exact:
  assumes "list_all normal (set_timeouts devs d)" "normal (clock d (ticks d))"
  shows "case fst (next_button_timeout devs d) of
      None \<Rightarrow> list_all time_unset (set_timeouts devs d)
    | Some tv \<Rightarrow> normal tv \<and>
        (\<exists>m \<in> set (set_timeouts devs d). \<not> time_unset m \<and>
          (\<forall>t \<in> set (set_timeouts devs d). \<not> time_unset t \<longrightarrow> usecs m \<le> usecs t) \<and>
          usecs tv = max 0 (usecs m - usecs (clock d (ticks d))))"
proof (cases "earliest_timeout devs d")
  case None
  then show ?thesis
    using earlier_fold_spec [OF assms(1), of None] by (simp add: next_button_timeout_def earliest_fold)
next
  case (Some m)
  then have m: "normal m" "m \<in> set (set_timeouts devs d)" "\<not> time_unset m"
    "\<forall>t \<in> set (set_timeouts devs d). \<not> time_unset t \<longrightarrow> usecs m \<le> usecs t"
    using earlier_fold_spec [OF assms(1), of None] by (simp_all add: earliest_fold)
  let ?now = "clock d (ticks d)"
  define neg where "neg \<longleftrightarrow> tv_usec m < tv_usec ?now"
  define sec where "sec = (if neg then tv_sec m - tv_sec ?now - 1 else tv_sec m - tv_sec ?now)"
  define usec where "usec = (if neg then tv_usec m - tv_usec ?now + 1000000 else tv_usec m - tv_usec ?now)"
  have "fst (next_button_timeout devs d) =
      Some (if sec < 0 then time_zero else \<lparr>tv_sec = sec, tv_usec = usec\<rparr>)"
    unfolding sec_def usec_def neg_def
    by (simp add: next_button_timeout_def Some gettimeofday_def Let_def)
  moreover have "0 \<le> usec" "usec < 1000000" "sec * 1000000 + usec = usecs m - usecs ?now"
    using m(1) assms(2) by (auto simp: sec_def usec_def neg_def normal_def usecs_def)
  moreover from this have "usecs (if sec < 0 then time_zero else \<lparr>tv_sec = sec, tv_usec = usec\<rparr>)
      = max 0 (usecs m - usecs ?now)"
    by (auto simp: usecs_def)
  ultimately show ?thesis using m(2-4) by (auto simp: normal_def)
qed

definition waiting :: daemon where
  \<comment> \<open>three seconds after the start, with a timeout of button 2 after 5.25 seconds\<close>
  "waiting = watched\<lparr>ticks := 3, dev_ev_list :=
     [(new_dev_event 9 time_zero)\<lparr>de_hold := (replicate MAX_BUTTONS time_zero)[2 := \<lparr>tv_sec = 5, tv_usec = 250000\<rparr>]\<rparr>]\<rparr>"

lemma waiting_timeouts: "set_timeouts (dev_list waiting) waiting =
    (replicate MAX_BUTTONS time_zero)[2 := \<lparr>tv_sec = 5, tv_usec = 250000\<rparr>]"
proof -
  have "map (\<lambda>i. xs ! i) [0..<64] = xs" if "length xs = 64" for xs :: "timeval list"
    using that map_nth [of xs] by simp
  then show ?thesis
    by (simp add: set_timeouts_def waiting_def watched_def get_dev_event_def new_dev_event_def is_device_valid_def
        get_device_fd_def sample_dev_def del: upt_Suc)
qed

theorem next_timeout_exact_witness:
  "\<exists>tv. fst (next_button_timeout (dev_list waiting) waiting) = Some tv \<and> usecs tv = 2250000"
proof -
  let ?t = "\<lparr>tv_sec = 5, tv_usec = 250000\<rparr>"
  have all: "x = time_zero \<or> x = ?t" if "x \<in> set ((replicate 64 time_zero)[2 := ?t])" for x
    using that set_update_subset_insert [of "replicate 64 time_zero" 2 ?t] by auto
  have only: "x \<in> set ((replicate 64 time_zero)[2 := ?t]) \<Longrightarrow> \<not> time_unset x \<Longrightarrow> x = ?t" for x
    using all [of x] by auto
  have "?t \<in> set ((replicate 64 time_zero)[2 := ?t])" by (rule set_update_memI) simp
  moreover have "\<not> time_unset ?t" by (simp add: time_unset_def)
  moreover have "list_all normal (set_timeouts (dev_list waiting) waiting)"
    unfolding waiting_timeouts list_all_iff
  proof
    fix x assume "x \<in> set ((replicate 64 time_zero)[2 := ?t])"
    from all [OF this] show "normal x" by (auto simp: normal_def)
  qed
  moreover have now: "clock waiting (ticks waiting) = \<lparr>tv_sec = 3, tv_usec = 0\<rparr>"
    by (simp add: waiting_def watched_def two_clients_eq start_state_def)
  ultimately show ?thesis
    using next_timeout_exact [of "dev_list waiting" waiting]
    unfolding waiting_timeouts list_all_iff now
    by (auto simp: normal_def usecs_def split: option.splits dest!: only)
qed

text \<open>
  The dominant-axis mode zeroes every axis whose displacement is not larger than the last one
  of the dominant axis, the dominant axis itself included: an axis that is held at a constant
  displacement, alone, is reported as zero from its second event on.
\<close>

theorem dominant_axis_steady_zero:
  assumes "dom_axis_mode d" "axis < 6" "length (cur_axis_mag d) = 6"
  shows "let (v1, d1) = dominant axis a v d; (v2, d2) = dominant axis a v d1 in
    (a > cur_axis_mag d ! cur_dom_axis d \<longrightarrow> v1 = v \<and> cur_dom_axis d1 = axis \<and> v2 = 0) \<and>
    (a \<le> cur_axis_mag d ! cur_dom_axis d \<longrightarrow> v1 = 0)"
  using assms by (auto simp: dominant_def Let_def)

theorem dominant_axis_steady_zero_witness:
  "let (v1, d1) = dominant 0 300 300 (start_state\<lparr>dom_axis_mode := True\<rparr>);
       (v2, d2) = dominant 0 300 300 d1 in v1 = 300 \<and> v2 = 0"
  using dominant_axis_steady_zero [of "start_state\<lparr>dom_axis_mode := True\<rparr>" 0 300 300]
  by (simp add: split_beta Let_def) (simp add: start_state_def)

end
