(* ===== verification/SerialOpen.thy ===== *)
theory SerialOpen
  imports Daemon
begin

text \<open>
  Opening and closing a serial device (src/dev_serial.c): the terminal settings, the two probes that
  tell a Spaceball from a Magellan SpaceMouse, the answer to a probe with its timeout, and the guess of
  the number of buttons from it. What the line does during the probes is the field \<open>e_tty\<close> of the
  environment. An access outside a buffer sets \<open>fault\<close>.
\<close>

section \<open>Terminal settings\<close>

definition stty_sball :: "int \<Rightarrow> tty \<Rightarrow> daemon \<Rightarrow> bool \<times> daemon" where
  "stty_sball fd t d =
     (t_stty_sball t,
      emit (Tcsetattr fd ((t_saved t)\<lparr>c_oflag := [], c_lflag := [],
        c_cc := [(''VMIN'', 0), (''VTIME'', 1)] @ c_cc (t_saved t),
        c_cflag := [''CLOCAL'', ''CREAD'', ''CS8'', ''HUPCL''],
        c_iflag := [''IGNBRK'', ''IGNPAR'', ''IXON'', ''IXOFF''], c_speed := 9600\<rparr>)) d)"

definition stty_mag :: "int \<Rightarrow> tty \<Rightarrow> daemon \<Rightarrow> bool \<times> daemon" where
  "stty_mag fd t d =
     (t_stty_mag t,
      emit (Tcsetattr fd ((t_saved t)\<lparr>c_oflag := [], c_lflag := [''ICANON''],
        c_cc := [(''VMIN'', 0), (''VTIME'', 0), (''VEOF'', 0), (''VEOL'', 13), (''VEOL2'', 0),
                 (''VERASE'', 0), (''VKILL'', 0)] @ c_cc (t_saved t),
        c_cflag := [''CLOCAL'', ''CREAD'', ''CS8'', ''CSTOPB'', ''HUPCL'', ''CRTSCTS''],
        c_iflag := [''IGNBRK'', ''IGNPAR''], c_speed := 9600\<rparr>)) d)"

definition stty_restore :: "int \<Rightarrow> tty \<Rightarrow> daemon \<Rightarrow> daemon" where
  "stty_restore fd t d = emit (Tcsetattr fd (t_saved t)) d"

section \<open>The answer to a probe\<close>

fun read_timeout_loop :: "nat \<Rightarrow> int \<Rightarrow> int \<Rightarrow> char list \<Rightarrow> tty_poll list \<Rightarrow> char list option" where
  \<comment> \<open>the size of the buffer, \<open>tm_usec\<close>, \<open>usec\<close>, what has been read, what the line does; \<open>None\<close>: a write
    before the start of the buffer. What does not fit is left to be flushed.\<close>
  "read_timeout_loop n tm usec buf [] = Some buf"
| "read_timeout_loop n tm usec buf (p # ps) =
     (if n \<le> length buf \<or> usec \<le> 0 then Some buf
      else case p of
        Ready cs \<Rightarrow> read_timeout_loop n 128000 128000 (buf @ take (n - length buf) cs) ps
      | Read_fails \<Rightarrow>
          if buf = [] then None else read_timeout_loop n 128000 128000 (butlast buf) ps
      | Idle t \<Rightarrow> read_timeout_loop n tm (tm - t) buf ps
      | Select_fails \<Rightarrow> Some buf)"

definition read_timeout :: "nat \<Rightarrow> int \<Rightarrow> tty_poll list \<Rightarrow> char list option" where
  \<comment> \<open>an empty result stands for the return value -1\<close>
  "read_timeout n tm ps = read_timeout_loop n tm tm [] ps"

definition memstr :: "char list \<Rightarrow> string \<Rightarrow> bool" where
  "memstr buf str \<longleftrightarrow> (\<exists>i \<in> set [0..<length buf - length str]. take (length str) (drop i buf) = str)"

fun make_printable :: "nat \<Rightarrow> char list \<Rightarrow> char list \<times> bool" where
  \<comment> \<open>the rounds left, the buffer from the read position on; the characters written, and whether all
    reads were inside the buffer\<close>
  "make_printable 0 b = ([], True)"
| "make_printable (Suc n) [] = ([], False)"
| "make_printable (Suc n) (c # b) =
     (if c = CHR 0x0d then
        (let b = dropWhile (\<lambda>c. c = CHR 0x0a \<or> c = CHR 0x0d) b; (cs, ok) = make_printable n b in
         (CHR 0x0a # cs, ok \<and> b \<noteq> []))
      else (let (cs, ok) = make_printable n b in (c # cs, ok)))"

definition printable :: "char list \<Rightarrow> daemon \<Rightarrow> string \<times> daemon" where
  \<comment> \<open>a reply in the buffer of 128 characters, made printable in place\<close>
  "printable reply d =
     (let (cs, ok) = make_printable (length reply) (take 128 (reply @ NUL # e_junk (envt d))) in
      (cstr cs, if ok then d else d\<lparr>fault := True\<rparr>))"

section \<open>The number of buttons\<close>

fun find_str :: "string \<Rightarrow> string \<Rightarrow> string option" where
  \<comment> \<open>\<open>strstr\<close>: the string from the first occurrence of \<open>t\<close> on\<close>
  "find_str [] t = (if t = [] then Some [] else None)"
| "find_str (c # s) t = (if take (length t) (c # s) = t then Some (c # s) else find_str s t)"

definition scan_version :: "string \<Rightarrow> (int \<times> int) option" where
  \<comment> \<open>\<open>sscanf(s, "%d.%d", ...) == 2\<close>\<close>
  "scan_version s =
     (case strtol s of
        Some (major, c # rest) \<Rightarrow>
          if c = CHR ''.'' then map_option (\<lambda>(minor, _). (int32 major, int32 minor)) (strtol rest) else None
      | _ \<Rightarrow> None)"

definition guess_firmware :: "string \<Rightarrow> device \<Rightarrow> (int \<times> device) option" where
  \<comment> \<open>the first \<open>if\<close>: a Spaceball that tells the version of its firmware\<close>
  "guess_firmware verstr dev =
     (case find_str verstr ''Firmware version'' of
        None \<Rightarrow> None
      | Some s \<Rightarrow>
          (case scan_version (drop 17 s) of
             None \<Rightarrow> None
           | Some (major, minor) \<Rightarrow>
               if major \<noteq> 2 then None
               else if minor = 35 \<or> minor = 62 \<or> minor = 63 then
                 Some (2, dev\<lparr>d_type := DEV_SB3003, d_name := ''Spaceball 3003/3003C''\<rparr>)
               else if minor = 43 \<or> minor = 45 then
                 Some (12, dev\<lparr>d_type := DEV_SB4000, d_name := ''Spaceball 4000FLX/5000FLX-A''\<rparr>)
               else if minor = 2 \<or> minor = 13 \<or> minor = 15 \<or> minor = 42 then
                 Some (8, dev\<lparr>d_type := DEV_SB2003, d_name := ''Spaceball 1003/2003/2003C''\<rparr>)
               else None))"

definition guess_num_buttons :: "string \<Rightarrow> device \<Rightarrow> int \<times> device" where
  "guess_num_buttons verstr dev =
     (case guess_firmware verstr dev of
        Some r \<Rightarrow> r
      | None \<Rightarrow>
          if find_str verstr ''SpaceExpl'' \<noteq> None then
            (15, dev\<lparr>d_type := DEV_SEXP, d_name := ''SpaceExplorer (serial)''\<rparr>)
          else if find_str verstr ''MAGELLAN'' \<noteq> None then
            (11, dev\<lparr>d_type := DEV_SM, d_name := ''Magellan SpaceMouse''\<rparr>)
          else if find_str verstr ''SPACEBALL'' \<noteq> None then
            (12, dev\<lparr>d_type := DEV_SM5000, d_name := ''Spaceball 5000''\<rparr>)
          else if find_str verstr ''CadMan'' \<noteq> None then
            (4, dev\<lparr>d_type := DEV_SMCADMAN, d_name := ''CadMan''\<rparr>)
          else (8, dev))"

definition version_cut :: "string \<Rightarrow> bool" where
  \<comment> \<open>the reply ends right after these words: \<open>s + 17\<close> is beyond its NUL\<close>
  "version_cut verstr \<longleftrightarrow> find_str verstr ''Firmware version'' = Some ''Firmware version''"

section \<open>Opening and closing\<close>

definition detected :: "sb_proto \<Rightarrow> string \<Rightarrow> char list \<Rightarrow> device \<Rightarrow> daemon \<Rightarrow> device \<times> daemon" where
  \<comment> \<open>the steps the two branches share: the name, the number of buttons and the mask from the reply\<close>
  "detected proto name reply dev d =
     (let (str, d) = printable reply d;
          d = (if version_cut str then d\<lparr>fault := True\<rparr> else d);
          (n, dev) = guess_num_buttons str (dev\<lparr>d_name := name\<rparr>) in
      (dev\<lparr>num_buttons := n,
           d_data := map_option (\<lambda>sb. sb\<lparr>sb_keymask := drop_bit (nat (16 - n)) 0xffff, sb_parse := Some proto\<rparr>)
             (d_data dev)\<rparr>, d))"

definition serial_fail :: "int \<Rightarrow> tty \<Rightarrow> device \<Rightarrow> daemon \<Rightarrow> int \<times> device \<times> daemon" where
  \<comment> \<open>the label \<open>err\<close>: \<open>data\<close> keeps pointing to the object that is freed\<close>
  "serial_fail fd t dev d = (- 1, dev\<lparr>d_dangling := True\<rparr>, emit (Close fd) (stty_restore fd t d))"

definition probe_magellan :: "int \<Rightarrow> tty \<Rightarrow> device \<Rightarrow> daemon \<Rightarrow> int \<times> device \<times> daemon" where
  "probe_magellan fd t dev d =
     (let (ok, d) = stty_mag fd t d in
      if \<not> ok then serial_fail fd t dev d
      else
        let d = emit (SerialWrite fd (''vQ'' @ [CR])) d in
        case read_timeout 127 250000 (t_polls_mag t) of
          None \<Rightarrow> serial_fail fd t dev (d\<lparr>fault := True\<rparr>)
        | Some reply \<Rightarrow>
            if reply \<noteq> [] \<and> hd reply = CHR ''v'' then
              (let (dev, d) = detected Mag ''Magellan SpaceMouse'' reply dev d in
               (0, dev, emit (SerialWrite fd (''c3B'' @ [CR])) (emit (SerialWrite fd (''m3'' @ [CR])) d)))
            else serial_fail fd t dev d)"

definition probe_spaceball :: "int \<Rightarrow> tty \<Rightarrow> device \<Rightarrow> daemon \<Rightarrow> int \<times> device \<times> daemon" where
  "probe_spaceball fd t dev d =
     (let (ok, d) = stty_sball fd t d in
      if \<not> ok then serial_fail fd t dev d
      else
        let d = emit (SerialWrite fd ([CR] @ ''@RESET'' @ [CR])) d in
        case read_timeout 127 2000000 (t_polls_sball t) of
          None \<Rightarrow> serial_fail fd t dev (d\<lparr>fault := True\<rparr>)
        | Some reply \<Rightarrow>
            if reply \<noteq> [] \<and> memstr reply ''@1'' then
              (let (dev, d) = detected Sball ''Spaceball'' reply dev d in
               (0, dev, emit (SerialWrite fd ([CR] @ ''CB'' @ [CR] @ ''MSSV'' @ [CR] @ ''k'' @ [CR])) d))
            else probe_magellan fd t dev d)"

definition serial_node :: "int \<Rightarrow> device \<Rightarrow> device" where
  "serial_node fd dev =
     dev\<lparr>d_data := Some (calloc_sball\<lparr>sb_fd := fd\<rparr>), d_fd := fd, num_axes := 6,
         d_close := Some Serial_driver, d_read := Some Serial_driver\<rparr>"

definition open_dev_serial :: "device \<Rightarrow> daemon \<Rightarrow> int \<times> device \<times> daemon" where
  "open_dev_serial dev d =
     (let t = e_tty (envt d) (d_path dev); fd = t_open t in
      if fd = - 1 then (- 1, dev, d)
      else if \<not> t_isatty t then (- 1, dev, emit (Close fd) d)
      else
        let (a, d) = calloc d in
        if a = None then (- 1, dev, emit (Close fd) (d\<lparr>fault := True\<rparr>)) \<comment> \<open>\<open>stty_restore\<close> of a null pointer\<close>
        else probe_spaceball fd t (serial_node fd dev) d)"

definition close_dev_serial :: "device \<Rightarrow> daemon \<Rightarrow> device \<times> daemon" where
  "close_dev_serial dev d =
     (if d_data dev \<noteq> None then
        (dev\<lparr>d_data := None\<rparr>,
         emit (Close (d_fd dev)) (stty_restore (d_fd dev) (e_tty (envt d) (d_path dev))
           (if d_dangling dev then d\<lparr>fault := True\<rparr> else d)))
      else (dev, d))"

section \<open>What opening gives\<close>

lemma read_timeout_fits: "length buf \<le> n \<Longrightarrow> read_timeout_loop n tm usec buf ps = Some r \<Longrightarrow> length r \<le> n"
proof (induction n tm usec buf ps rule: read_timeout_loop.induct)
  case (2 n tm usec buf p ps)
  then show ?case by (cases p) (auto split: if_splits)
qed simp

definition button_counts :: "int set" where
  "button_counts = {2, 4, 8, 11, 12, 15}"

lemma guess_counts: "fst (guess_num_buttons s dev) \<in> button_counts"
  by (auto simp: guess_num_buttons_def guess_firmware_def button_counts_def
      split: option.split prod.split)

lemma guess_frame:
  "d_data (snd (guess_num_buttons s dev)) = d_data dev" "d_fd (snd (guess_num_buttons s dev)) = d_fd dev"
  "d_addr (snd (guess_num_buttons s dev)) = d_addr dev" "d_path (snd (guess_num_buttons s dev)) = d_path dev"
  "d_id (snd (guess_num_buttons s dev)) = d_id dev" "num_axes (snd (guess_num_buttons s dev)) = num_axes dev"
  "d_dangling (snd (guess_num_buttons s dev)) = d_dangling dev"
  "d_close (snd (guess_num_buttons s dev)) = d_close dev" "d_read (snd (guess_num_buttons s dev)) = d_read dev"
  by (auto simp: guess_num_buttons_def guess_firmware_def split: option.split prod.split)

lemma mask_low_bits: "n \<in> button_counts \<Longrightarrow> (drop_bit (nat (16 - n)) 0xffff :: u32) = mask (nat n)"
  by (auto simp: button_counts_def drop_bit_eq_div mask_eq_exp_minus_1)

lemma detected_result:
  assumes "detected proto name reply dev d = (dev', d')" "d_data dev = Some sb"
  shows "d_data dev' = Some (sb\<lparr>sb_keymask := mask (nat (num_buttons dev')), sb_parse := Some proto\<rparr>)"
    "num_buttons dev' \<in> button_counts" "d_fd dev' = d_fd dev" "d_addr dev' = d_addr dev" "d_path dev' = d_path dev"
    "num_axes dev' = num_axes dev" "d_dangling dev' = d_dangling dev" "d_close dev' = d_close dev"
    "d_read dev' = d_read dev" "d_id dev' = d_id dev"
  using assms guess_counts
  by (auto simp: detected_def split_beta Let_def guess_frame mask_low_bits)

definition serial_ready :: "int \<Rightarrow> device \<Rightarrow> bool" where
  \<comment> \<open>a device that is open, with a well-formed state and a mask of as many bits as it has buttons\<close>
  "serial_ready fd dev \<longleftrightarrow>
     (\<exists>sb. d_data dev = Some sb \<and> sball_wf sb \<and> sb_fd sb = fd \<and> sb_parse sb \<noteq> None \<and>
           sb_keymask sb = mask (nat (num_buttons dev))) \<and>
     num_buttons dev \<in> button_counts \<and> num_axes dev = 6 \<and> d_fd dev = fd \<and>
     d_read dev = Some Serial_driver \<and> d_close dev = Some Serial_driver"

lemma detected_ready:
  assumes "detected proto name reply dev d = (dev', d')" "d_data dev = Some (calloc_sball\<lparr>sb_fd := fd\<rparr>)"
    "d_fd dev = fd" "num_axes dev = 6" "d_close dev = Some Serial_driver" "d_read dev = Some Serial_driver"
  shows "serial_ready fd dev'"
  using detected_result [OF assms(1,2)] assms(3-) calloc_sball_wf
  by (auto simp: serial_ready_def sball_wf_def evq_ok_def calloc_sball_def)

text \<open>How a probe ends: with a device that is ready, or at the label \<open>err\<close>.\<close>

definition probe_ends :: "int \<Rightarrow> device \<Rightarrow> int \<Rightarrow> device \<Rightarrow> effect list \<Rightarrow> bool" where
  "probe_ends fd dev r dev' es \<longleftrightarrow>
     (if r = 0 then serial_ready fd dev' \<and> d_dangling dev' = d_dangling dev
      else r = - 1 \<and> dev' = dev\<lparr>d_dangling := True\<rparr> \<and> last es = Close fd)"

definition probing :: "int \<Rightarrow> device \<Rightarrow> bool" where
  "probing fd dev \<longleftrightarrow> d_data dev = Some (calloc_sball\<lparr>sb_fd := fd\<rparr>) \<and> d_fd dev = fd \<and> num_axes dev = 6 \<and>
     d_close dev = Some Serial_driver \<and> d_read dev = Some Serial_driver"

lemma serial_fail_ends: "serial_fail fd t dev d = (r, dev', d') \<Longrightarrow> probe_ends fd dev r dev' (out d')"
  by (auto simp: serial_fail_def probe_ends_def emit_def)

lemma detected_ends: "probing fd dev \<Longrightarrow> detected proto name reply dev d = (dev', d') \<Longrightarrow> probe_ends fd dev 0 dev' es"
  using detected_ready [of proto name reply dev d dev' d' fd] detected_result(7) [of proto name reply dev d dev' d']
  by (simp add: probing_def probe_ends_def)

lemma probe_magellan_ends:
  "probing fd dev \<Longrightarrow> probe_magellan fd t dev d = (r, dev', d') \<Longrightarrow> probe_ends fd dev r dev' (out d')"
  by (auto simp: probe_magellan_def Let_def split: prod.splits if_splits option.splits
      intro: serial_fail_ends detected_ends)

lemma probe_spaceball_ends:
  "probing fd dev \<Longrightarrow> probe_spaceball fd t dev d = (r, dev', d') \<Longrightarrow> probe_ends fd dev r dev' (out d')"
  by (auto simp: probe_spaceball_def Let_def split: prod.splits if_splits option.splits
      intro: serial_fail_ends detected_ends probe_magellan_ends)

lemma serial_node_probing: "probing fd (serial_node fd dev)"
  by (simp add: probing_def serial_node_def)

lemma open_dev_serial_outcome:
  assumes "open_dev_serial dev d = (r, dev', d')" "mem d (fresh d)"
  shows "if r = 0 then serial_ready (t_open (e_tty (envt d) (d_path dev))) dev'
    else if t_open (e_tty (envt d) (d_path dev)) \<noteq> - 1 \<and> t_isatty (e_tty (envt d) (d_path dev)) then
      d_dangling dev' \<and> d_data dev' \<noteq> None \<and> d_close dev' = Some Serial_driver \<and>
      d_fd dev' = t_open (e_tty (envt d) (d_path dev)) \<and> last (out d') = Close (d_fd dev')
    else dev' = dev"
proof -
  let ?t = "e_tty (envt d) (d_path dev)"
  show ?thesis
  proof (cases "t_open ?t \<noteq> - 1 \<and> t_isatty ?t")
    case False
    with assms show ?thesis by (auto simp: open_dev_serial_def Let_def split: if_splits)
  next
    case True
    then have "probe_spaceball (t_open ?t) ?t (serial_node (t_open ?t) dev) (snd (calloc d)) = (r, dev', d')"
      using assms by (simp add: open_dev_serial_def Let_def calloc_def)
    from probe_spaceball_ends [OF serial_node_probing this] True show ?thesis
      by (auto simp: probe_ends_def serial_node_def)
  qed
qed

text \<open>
  C21: opening a serial device either succeeds, and then the device is ready to be read: its buffers and
  queue are well formed, a parser is chosen, it has one of the six numbers of buttons known to the
  driver and a mask of exactly that many bits; or it fails. A failure after the terminal has been
  set up (no device answers the probes) has closed the file descriptor and freed the state of the
  device, but leaves the pointer to it, the descriptor and the \<open>close\<close> function in place, with which
  the caller then closes both again.
\<close>

theorem open_dev_serial_result:
  assumes "open_dev_serial dev d = (r, dev', d')" "mem d (fresh d)"
  shows "if r = 0 then serial_ready (t_open (e_tty (envt d) (d_path dev))) dev'
    else if t_open (e_tty (envt d) (d_path dev)) \<noteq> - 1 \<and> t_isatty (e_tty (envt d) (d_path dev)) then
      d_dangling dev' \<and> d_data dev' \<noteq> None \<and> d_close dev' = Some Serial_driver \<and>
      d_fd dev' = t_open (e_tty (envt d) (d_path dev)) \<and> last (out d') = Close (d_fd dev')
    else dev' = dev"
  by (rule open_dev_serial_outcome [OF assms])

definition tty_sample :: tty where
  \<comment> \<open>a Spaceball 2003 with firmware 2.42\<close>
  "tty_sample = no_tty\<lparr>t_stat := Some True, t_open := 7, t_isatty := True, t_stty_sball := True, t_stty_mag := True,
     t_polls_sball := [Idle 500, Ready ([CR] @ ''@1 Spaceball alive''), Ready ([CR] @ ''@2 Firmware version 2.42'' @ [CR]),
       Idle 130000]\<rparr>"

theorem open_dev_serial_result_witness:
  "let (r, dev, d) = open_dev_serial (sample_dev 0) (start_state\<lparr>envt := bare_environment\<lparr>e_tty := \<lambda>_. tty_sample\<rparr>\<rparr>)
   in r = 0 \<and> serial_ready 7 dev \<and> num_buttons dev = 8"
proof -
  let ?d = "start_state\<lparr>envt := bare_environment\<lparr>e_tty := \<lambda>_. tty_sample\<rparr>\<rparr>"
  have "fst (open_dev_serial (sample_dev 0) ?d) = 0 \<and> num_buttons (fst (snd (open_dev_serial (sample_dev 0) ?d))) = 8"
    by code_simp
  moreover have "t_open tty_sample = 7" by (simp add: tty_sample_def)
  ultimately show ?thesis
    using open_dev_serial_result [of "sample_dev 0" ?d "fst (open_dev_serial (sample_dev 0) ?d)"
        "fst (snd (open_dev_serial (sample_dev 0) ?d))" "snd (snd (open_dev_serial (sample_dev 0) ?d))"]
    by (simp add: split_beta Let_def prod_eq_iff)
qed

end
