(* ===== verification/Evdev.thy ===== *)
theory Evdev
  imports Daemon "HOL-Library.Signed_Division"
begin

text \<open>
  The driver of USB devices on Linux (src/dev_usb_linux.c): opening an evdev node and asking for its
  axes and buttons, closing it, scaling its values, turning its events into input events, and the
  list of the devices that match a predicate, from \<open>/proc/bus/input/devices\<close> or, if nothing is found
  there, from the nodes in \<open>/dev/input\<close>. What the nodes answer is the field \<open>e_node\<close> of the
  environment.
\<close>

abbreviation (input) DEF_MINVAL :: int where "DEF_MINVAL \<equiv> - 500"
abbreviation (input) DEF_MAXVAL :: int where "DEF_MAXVAL \<equiv> 500"
abbreviation (input) DEF_RANGE :: int where "DEF_RANGE \<equiv> 1000"
abbreviation (input) ABS_CNT :: nat where "ABS_CNT \<equiv> 64"
abbreviation (input) KEY_CNT :: nat where "KEY_CNT \<equiv> 768"

abbreviation (input) EV_SYN :: int where "EV_SYN \<equiv> 0"
abbreviation (input) EV_KEY :: int where "EV_KEY \<equiv> 1"
abbreviation (input) EV_REL :: int where "EV_REL \<equiv> 2"
abbreviation (input) EV_ABS :: int where "EV_ABS \<equiv> 3"
abbreviation (input) EV_MSC :: int where "EV_MSC \<equiv> 4"

section \<open>Opening\<close>

definition count_axes :: "evnode \<Rightarrow> nat" where
  \<comment> \<open>absolute axes up to the first that is missing, and all relative ones\<close>
  "count_axes n =
     (case n_abs n of None \<Rightarrow> 0 | Some has \<Rightarrow> length (takeWhile has [0..<ABS_CNT])) +
     (case n_rel n of None \<Rightarrow> 0 | Some has \<Rightarrow> length (filter has [0..<ABS_CNT]))"

definition wireless :: "device \<Rightarrow> bool" where
  "wireless dev \<longleftrightarrow> d_usbid dev = (VID_3DCONN, PID_WIRELESS)"

definition keys_of :: "evnode \<Rightarrow> nat list" where
  "keys_of n = (case n_key n of None \<Rightarrow> [] | Some has \<Rightarrow> filter has [0..<KEY_CNT])"

definition open_buttons :: "evnode \<Rightarrow> device \<Rightarrow> device" where
  \<comment> \<open>the number of buttons and the code of the first one, and the functions that renumber them\<close>
  "open_buttons n dev =
     (let keys = keys_of n;
          dev = dev\<lparr>bnbase := (if keys = [] then 0 else int (hd keys)), num_buttons := int (length keys)\<rparr>;
          dev = (case d_bnhack dev of
              Some h \<Rightarrow> dev\<lparr>num_buttons := call_bnhack h (- 1)\<rparr>
            | None \<Rightarrow>
                if wireless dev then
                  (if 2 < num_buttons dev
                   then dev\<lparr>d_type := DEV_SMPROW, d_bnhack := Some Bnhack_smpro, num_buttons := bnhack_smpro (- 1),
                            d_name := ''3Dconnexion SpaceMouse Pro Wireless (guess)''\<rparr>
                   else dev\<lparr>d_type := DEV_SMW, d_name := ''3Dconnexion SpaceMouse Wireless (guess)''\<rparr>)
                else dev) in
      if num_buttons dev = 0 then dev\<lparr>num_buttons := 2\<rparr> else dev)"

definition open_ranges :: "evnode \<Rightarrow> device \<Rightarrow> device" where
  \<comment> \<open>the minimum, the maximum and the fuzz of each axis\<close>
  "open_ranges n dev =
     (let get = (\<lambda>i. case n_absinfo n i of None \<Rightarrow> (DEF_MINVAL, DEF_MAXVAL, 0) | Some r \<Rightarrow> r);
          axes = map get [0..<nat (num_axes dev)] in
      dev\<lparr>minval := map fst axes, maxval := map (fst \<circ> snd) axes, fuzz := map (snd \<circ> snd) axes\<rparr>)"

definition open_led :: "device \<Rightarrow> daemon \<Rightarrow> daemon" where
  \<comment> \<open>\<open>first_client\<close> is only called in automatic mode, and moves the iterator\<close>
  "open_led dev d =
     (let (clients, d) = (if led (cfg d) = LED_AUTO then first_client d else (None, d)) in
      if led (cfg d) = LED_ON \<or> (led (cfg d) = LED_AUTO \<and> clients \<noteq> None) then set_led_evdev dev 1 d
      else set_led_evdev dev 0 (set_led_evdev dev 1 d))"

definition open_dev_usb :: "device \<Rightarrow> daemon \<Rightarrow> int \<times> device \<times> daemon" where
  "open_dev_usb dev d =
     (let n = e_node (envt d) (d_path dev);
          dev = dev\<lparr>d_fd := n_fd n\<rparr> in
      if d_fd dev = - 1 then (- 1, dev, d)
      else
        let dev = dev\<lparr>d_name := (case n_name n of None \<Rightarrow> ''unknown'' | Some s \<Rightarrow> s), num_axes := int (count_axes n)\<rparr> in
        if num_axes dev = 0 \<and> wireless dev then (- 1, dev\<lparr>d_fd := - 1\<rparr>, emit (Close (d_fd dev)) d)
        else
          let dev = (if num_axes dev = 0 then dev\<lparr>num_axes := 6\<rparr> else dev);
              dev = open_buttons n dev;
              (a, d) = calloc d;
              (b, d) = calloc d;
              (c, d) = calloc d in
          if a = None \<or> b = None \<or> c = None then (- 1, dev, d)
          else
            let dev = open_ranges n dev;
                d = (if grab_device (cfg d) \<noteq> 0 then emit (Grab (d_fd dev)) d else d);
                d = open_led dev d in
            (0, dev\<lparr>d_close := Some Evdev_driver, d_read := Some Evdev_driver, d_set_led := Some Evdev_driver\<rparr>, d))"

definition close_evdev :: "device \<Rightarrow> daemon \<Rightarrow> device \<times> daemon" where
  "close_evdev dev d =
     (if 0 \<le> d_fd dev then
        (let d = set_device_led dev 0 d;
             d = emit (Close (d_fd dev)) d in
         (dev\<lparr>d_fd := - 1, minval := [], maxval := [], fuzz := []\<rparr>, d))
      else (dev, d))"

section \<open>Events\<close>

definition map_range :: "int \<Rightarrow> int \<Rightarrow> int \<Rightarrow> int" where
  \<comment> \<open>the minimum and the maximum of the axis, the value\<close>
  "map_range mn mx val =
     (let range = int32 (mx - mn) in
      if range \<le> 0 then val
      else int32 (int32 (int32 (val - mn) * DEF_RANGE) sdiv range + DEF_MINVAL))"

definition evdev_event :: "device \<Rightarrow> int \<Rightarrow> int \<Rightarrow> int \<Rightarrow> dev_input \<Rightarrow> int \<times> dev_input \<times> bool" where
  \<comment> \<open>the switch of \<open>read_evdev\<close> on the type, the code and the value of an event: the result, the input
    event (a part of it is written even if the result is -1), and whether the range of an axis
    that does not exist is read\<close>
  "evdev_event dev ty code val inp =
     (if ty = EV_REL then (0, inp\<lparr>inp_type := INP_MOTION, inp_idx := code, inp_val := val\<rparr>, False)
      else if ty = EV_ABS then
        (if 0 \<le> code \<and> code < int (length (minval dev))
         then (0, inp\<lparr>inp_type := INP_MOTION, inp_idx := code,
                 inp_val := map_range (minval dev ! nat code) (maxval dev ! nat code) val\<rparr>, False)
         else (0, inp\<lparr>inp_type := INP_MOTION, inp_idx := code\<rparr>, True))
      else if ty = EV_KEY then
        (case d_bnhack dev of
           Some h \<Rightarrow>
             if call_bnhack h code = - 1 then (- 1, inp\<lparr>inp_type := INP_BUTTON, inp_idx := - 1\<rparr>, False)
             else (0, inp\<lparr>inp_type := INP_BUTTON, inp_idx := call_bnhack h code, inp_val := val\<rparr>, False)
         | None \<Rightarrow> (0, inp\<lparr>inp_type := INP_BUTTON, inp_idx := code - bnbase dev, inp_val := val\<rparr>, False))
      else if ty = EV_SYN then (0, inp\<lparr>inp_type := INP_FLUSH\<rparr>, False)
      else (- 1, inp, False))"

section \<open>The list of input devices\<close>

definition no_dev_info :: usb_dev_info where
  "no_dev_info = \<lparr>ud_name = None, ud_devfiles = [], ud_vendorid = 0, ud_productid = 0\<rparr>"

fun after_str :: "string \<Rightarrow> string \<Rightarrow> string option" where
  \<comment> \<open>what follows the first occurrence of \<open>t\<close>\<close>
  "after_str [] t = (if t = [] then Some [] else None)"
| "after_str (c # s) t =
     (if take (length t) (c # s) = t then Some (drop (length t) (c # s)) else after_str s t)"

definition strtol_16 :: "string \<Rightarrow> int" where
  \<comment> \<open>\<open>strtol\<close> with base 16, stored in an \<open>int\<close>\<close>
  "strtol_16 s =
     (let (neg, s) = scan_sign (dropWhile isspace s);
          s = (if map tolower (take 2 s) = ''0x'' then drop 2 s else s);
          n = num_of 16 (takeWhile (is_digit 16) s) in
      int32 (clamp64 (if neg then - n else n)))"

definition ids_line :: "string \<Rightarrow> usb_dev_info \<Rightarrow> usb_dev_info" where
  "ids_line line di =
     (let di = (case after_str line ''Vendor='' of None \<Rightarrow> di | Some s \<Rightarrow> di\<lparr>ud_vendorid := strtol_16 s\<rparr>) in
      case after_str line ''Product='' of None \<Rightarrow> di | Some s \<Rightarrow> di\<lparr>ud_productid := strtol_16 s\<rparr>)"

definition quoted :: "string \<Rightarrow> string" where
  \<comment> \<open>up to the last quotation mark, if there is another one\<close>
  "quoted s = (if CHR ''\"'' \<in> set s then rev (drop 1 (dropWhile (\<lambda>c. c \<noteq> CHR ''\"'') (rev s))) else s)"

definition name_line :: "string \<Rightarrow> usb_dev_info \<Rightarrow> daemon \<Rightarrow> usb_dev_info \<times> daemon" where
  "name_line line di d =
     (case after_str line ''Name=\"'' of
        None \<Rightarrow> (di, d)
      | Some s \<Rightarrow>
          let (a, d) = calloc d in
          (di\<lparr>ud_name := (if a = None then None else Some (quoted s))\<rparr>, d))"

function tokens :: "char set \<Rightarrow> string \<Rightarrow> string list" where
  "tokens ds s = (case strtok ds s of None \<Rightarrow> [] | Some (t, rest) \<Rightarrow> t # tokens ds rest)"
  by pat_completeness auto
termination
proof (relation "measure (\<lambda>(ds, s). length s)", goal_cases)
  case (2 ds s p t rest)
  then have "strtok ds s = Some (t, rest)" by simp
  then have "dropWhile (\<lambda>c. c \<in> ds) s \<noteq> []" "\<exists>k. rest = drop (Suc k) (dropWhile (\<lambda>c. c \<in> ds) s)"
    by (auto simp: strtok_def Let_def split: if_splits)
  then have "length rest < length (dropWhile (\<lambda>c. c \<in> ds) s)" by (cases "dropWhile (\<lambda>c. c \<in> ds) s") auto
  moreover have "length (dropWhile (\<lambda>c. c \<in> ds) s) \<le> length s" by (rule length_dropWhile_le)
  ultimately show ?case by simp
qed simp

declare tokens.simps [simp del]

abbreviation (input) MAX_USB_DEV_FILES :: nat where "MAX_USB_DEV_FILES \<equiv> 16"

definition add_handler :: "string \<Rightarrow> string list \<times> daemon \<Rightarrow> string list \<times> daemon" where
  \<comment> \<open>a handler that is an event interface; the table of files has no check of its size\<close>
  "add_handler tok = (\<lambda>(files, d).
     if take 5 tok \<noteq> ''event'' then (files, d)
     else
       let (a, d) = calloc d in
       if a = None then (files, d)
       else (files @ [''/dev/input/'' @ tok],
             if length files < MAX_USB_DEV_FILES then d else d\<lparr>fault := True\<rparr>))"

definition handlers_line :: "string \<Rightarrow> usb_dev_info \<Rightarrow> daemon \<Rightarrow> usb_dev_info \<times> daemon" where
  "handlers_line line di d =
     (case after_str line ''Handlers='' of
        None \<Rightarrow> (di, d)
      | Some s \<Rightarrow>
          let (files, d) = fold add_handler (tokens {CHR '' '', CHR 0x09, CHR 0x0b, CHR 0x0a, CHR 0x0d} s) ([], d) in
          (di\<lparr>ud_devfiles := files\<rparr>, d))"

definition parse_line :: "string \<Rightarrow> usb_dev_info \<times> daemon \<Rightarrow> usb_dev_info \<times> daemon" where
  "parse_line line = (\<lambda>(di, d).
     if take 1 line = ''I'' then (ids_line line di, d)
     else if take 1 line = ''N'' then name_line line di d
     else if take 1 line = ''H'' then handlers_line line di d
     else (di, d))"

fun split_lines :: "string \<Rightarrow> string list" where
  "split_lines [] = []"
| "split_lines (c # s) =
     (if c = CHR 0x0a then [] # split_lines s
      else case split_lines s of [] \<Rightarrow> [[c]] | l # ls \<Rightarrow> (c # l) # ls)"

definition add_match :: "usb_dev_info \<Rightarrow> usb_dev_info list \<times> daemon \<Rightarrow> usb_dev_info list \<times> daemon" where
  \<comment> \<open>put the device in front of the list if it matches\<close>
  "add_match di = (\<lambda>(devs, d).
     case match_usbdev (cfg d) di of
       None \<Rightarrow> (devs, d\<lparr>fault := True\<rparr>)
     | Some False \<Rightarrow> (devs, d)
     | Some True \<Rightarrow> let (a, d) = calloc d in (if a = None then devs else di # devs, d))"

definition parse_section :: "string \<Rightarrow> usb_dev_info list \<times> daemon \<Rightarrow> usb_dev_info list \<times> daemon" where
  "parse_section sect = (\<lambda>(devs, d).
     let (di, d) = fold parse_line (split_lines sect) (no_dev_info, d) in
     if ud_devfiles di \<noteq> [] then add_match di (devs, d) else (devs, d))"

subsection \<open>The buffer\<close>

fun split_section :: "string \<Rightarrow> (string \<times> string) option" where
  \<comment> \<open>the text up to an empty line, with its last newline, and what follows\<close>
  "split_section (a # b # s) =
     (if a = CHR 0x0a \<and> b = CHR 0x0a then Some ([a], s)
      else map_option (\<lambda>(sect, rest). (a # sect, rest)) (split_section (b # s)))"
| "split_section s = None"

lemma split_section_append: "split_section s = Some (sect, rest) \<Longrightarrow> s = sect @ CHR 0x0a # rest"
  by (induction s arbitrary: sect rest rule: split_section.induct) (auto split: if_splits)

function sections :: "string \<Rightarrow> string list \<times> string" where
  \<comment> \<open>the sections of a text, and the rest that has no end yet\<close>
  "sections s =
     (case split_section s of
        None \<Rightarrow> ([], s)
      | Some (sect, rest) \<Rightarrow> let (ss, r) = sections rest in (sect # ss, r))"
  by pat_completeness auto
termination
  by (relation "measure length") (auto dest!: split_section_append)

declare sections.simps [simp del]

function read_sections :: "nat \<Rightarrow> string \<Rightarrow> string \<Rightarrow> string list \<times> bool" where
  \<comment> \<open>the loop around \<open>fread\<close>: the room it is given, what is in the buffer, the rest of the file; the
    sections, and whether the NUL is written beyond the buffer of 1024 characters\<close>
  "read_sections len buf str =
     (let chunk = take len str; s = buf @ chunk; (ss, r) = sections (cstr s) in
      if chunk = [] then (ss, 1024 \<le> length s)
      else let (ss', over) = read_sections (1024 - length r) r (drop len str) in
           (ss @ ss', over \<or> 1024 \<le> length s))"
  by pat_completeness auto
termination
proof (relation "measure (\<lambda>(len, buf, str). length str)", goal_cases)
  case (2 len buf str chunk s x ss r)
  then have "str \<noteq> []" "len \<noteq> 0" by auto
  then show ?case by simp
qed simp

declare read_sections.simps [simp del]

subsection \<open>The list\<close>

definition detect_proc :: "string \<Rightarrow> daemon \<Rightarrow> usb_dev_info list \<times> daemon" where
  "detect_proc str d =
     (let (ss, over) = read_sections 1023 [] str in
      fold parse_section ss ([], if over then d\<lparr>fault := True\<rparr> else d))"

definition detect_node :: "string \<Rightarrow> usb_dev_info list \<times> daemon \<Rightarrow> usb_dev_info list \<times> daemon" where
  \<comment> \<open>an entry of \<open>/dev/input\<close>\<close>
  "detect_node str = (\<lambda>(devs, d).
     let path = ''/dev/input/'' @ str; n = e_node (envt d) path; (a, d) = calloc d in
     if a = None \<or> \<not> n_chr n \<or> n_fd n = - 1 then (devs, d)
     else
       let ids = (case n_usbid n of None \<Rightarrow> (0, 0) | Some k \<Rightarrow> k);
           (b, d) = (if n_name n = None then (Some 0, d) else calloc d) in
       if b = None then (devs, emit (Close (n_fd n)) d)
       else
         let (devs, d) = add_match \<lparr>ud_name = n_name n, ud_devfiles = [path], ud_vendorid = uint (fst ids),
               ud_productid = uint (snd ids)\<rparr> (devs, d) in
         (devs, emit (Close (n_fd n)) d))"

definition find_usb_devices :: "daemon \<Rightarrow> usb_dev_info list \<times> daemon" where
  "find_usb_devices d =
     (let (devs, d) = (case e_proc (envt d) of None \<Rightarrow> ([], d) | Some str \<Rightarrow> detect_proc str d) in
      if devs \<noteq> [] then (devs, d)
      else case e_dir (envt d) of None \<Rightarrow> ([], d) | Some files \<Rightarrow> fold detect_node files ([], d))"

section \<open>Scaling\<close>

text \<open>
  For an axis whose range fits the arithmetic, the values from its minimum to its maximum are mapped
  into -500 to 500, the ends to the ends, larger values to values that are not smaller. With a range of
  more than 2147483 the product overflows, and a value inside the range is mapped outside.
\<close>

theorem map_range_scales:
  assumes range: "mn < mx" "mx - mn \<le> 2147483" and cints: "cint mn" "cint mx"
    and inside: "mn \<le> v" "v \<le> w" "w \<le> mx"
  shows "DEF_MINVAL \<le> map_range mn mx v \<and> map_range mn mx v \<le> map_range mn mx w \<and>
    map_range mn mx w \<le> DEF_MAXVAL \<and>
    map_range mn mx mn = DEF_MINVAL \<and> map_range mn mx mx = DEF_MAXVAL \<and>
    map_range 0 4000000 3000000 < DEF_MINVAL"
proof -
  let ?r = "mx - mn"
  have full: "?r * 1000 div ?r = 1000" using range by (intro nonzero_mult_div_cancel_left) auto
  have eq: "map_range mn mx u = (u - mn) * 1000 div ?r - 500 \<and> 0 \<le> (u - mn) * 1000 div ?r \<and>
      (u - mn) * 1000 div ?r \<le> 1000" if u: "mn \<le> u" "u \<le> mx" for u
  proof -
    have c: "cint ?r" "cint (u - mn)" "cint ((u - mn) * 1000)" using range u by (simp_all add: cint_def)
    have q: "0 \<le> (u - mn) * 1000 div ?r" using range u by (simp add: pos_imp_zdiv_nonneg_iff)
    have "(u - mn) * 1000 div ?r \<le> ?r * 1000 div ?r"
      using range u by (intro zdiv_mono1) auto
    also note full
    finally have q': "(u - mn) * 1000 div ?r \<le> 1000" .
    have "(u - mn) * 1000 sdiv ?r = (u - mn) * 1000 div ?r"
      using range u by (simp add: signed_divide_int_def sgn_if)
    moreover have "cint ((u - mn) * 1000 div ?r - 500)" using q q' by (simp add: cint_def)
    ultimately have "map_range mn mx u = (u - mn) * 1000 div ?r - 500"
      using range c by (simp add: map_range_def Let_def)
    with q q' show ?thesis by simp
  qed
  have "(v - mn) * 1000 div ?r \<le> (w - mn) * 1000 div ?r"
    using range inside by (intro zdiv_mono1) auto
  moreover have "map_range 0 4000000 3000000 < - 500"
    by (simp add: map_range_def Let_def int32_def w32_def signed_divide_int_def sgn_if)
  moreover have "map_range mn mx mx = 500" using eq [of mx] range full by linarith
  moreover have "map_range mn mx mn = - 500" using eq [of mn] range by simp
  ultimately show ?thesis using eq [of v] eq [of w] inside by simp
qed

theorem map_range_scales_witness:
  "map_range (- 350) 350 (- 350) = - 500 \<and> map_range (- 350) 350 7 \<le> map_range (- 350) 350 100"
  using map_range_scales [of "- 350" 350 7 100] by (simp add: cint_def)

section \<open>Reading the list through the buffer\<close>

lemma sections_simp: "sections s = (case split_section s of None \<Rightarrow> ([], s)
    | Some (sect, rest) \<Rightarrow> (sect # fst (sections rest), snd (sections rest)))"
  by (subst sections.simps) (simp add: split_beta Let_def split: option.split)

lemma sections_induct [case_names sections]:
  assumes "\<And>s. (\<And>sect rest. split_section s = Some (sect, rest) \<Longrightarrow> P rest) \<Longrightarrow> P s"
  shows "P s"
proof (induction s rule: measure_induct_rule [where f = length])
  case (less s)
  show ?case by (rule assms, rule less) (auto dest: split_section_append)
qed

lemma split_section_more: "split_section s = Some (sect, rest) \<Longrightarrow> split_section (s @ t) = Some (sect, rest @ t)"
proof (induction s arbitrary: sect rest rule: split_section.induct)
  case (1 a b s)
  then show ?case by (auto split: if_splits)
qed simp_all

lemma split_section_longer: "split_section r = None \<Longrightarrow> split_section (r @ t) = Some (sect, rest) \<Longrightarrow> length r \<le> length sect"
proof (induction r arbitrary: sect rest rule: split_section.induct, goal_cases)
  case (1 a b s)
  then show ?case by (auto split: if_splits)
next
  case (3 v)
  then show ?case by (cases t) (auto split: if_splits)
qed simp

lemma sections_rest: "split_section (snd (sections s)) = None"
proof (induction s rule: sections_induct)
  case (sections s)
  then show ?case by (subst sections_simp) (auto split: option.split)
qed

lemma sections_append:
  "fst (sections (s @ t)) = fst (sections s) @ fst (sections (snd (sections s) @ t))"
proof (induction s rule: sections_induct)
  case (sections s)
  show ?case
  proof (cases "split_section s")
    case None
    then show ?thesis by (simp add: sections_simp [of s])
  next
    case (Some p)
    obtain sect rest where p: "p = (sect, rest)" by (cases p)
    from split_section_more [OF Some [unfolded p], of t] Some sections p show ?thesis
      by (simp add: sections_simp [of s] sections_simp [of "s @ t"])
  qed
qed

lemma sections_chars: "set (snd (sections s)) \<subseteq> set s"
proof (induction s rule: sections_induct)
  case (sections s)
  show ?case
  proof (cases "split_section s")
    case None
    then show ?thesis by (simp add: sections_simp [of s])
  next
    case (Some p)
    obtain sect rest where p: "p = (sect, rest)" by (cases p)
    from split_section_append [OF Some [unfolded p]] have "set rest \<subseteq> set s" by auto
    with sections [OF Some [unfolded p]] Some p show ?thesis by (auto simp: sections_simp [of s])
  qed
qed

lemma no_sections: "split_section r = None \<Longrightarrow> list_all (\<lambda>sect. length sect < 1024) (fst (sections (r @ t))) \<Longrightarrow>
    1024 \<le> length r \<Longrightarrow> fst (sections (r @ t)) = []"
  by (cases "split_section (r @ t)")
    (auto simp: sections_simp [of "r @ t"] dest: split_section_longer)

lemma read_sections_simp: "read_sections len buf str =
    (let s = buf @ take len str; (ss, r) = sections (cstr s) in
     if take len str = [] then (ss, 1024 \<le> length s)
     else (ss @ fst (read_sections (1024 - length r) r (drop len str)),
           snd (read_sections (1024 - length r) r (drop len str)) \<or> 1024 \<le> length s))"
  by (subst read_sections.simps) (simp add: Let_def split_beta)

lemma read_sections_all:
  "NUL \<notin> set (buf @ str) \<Longrightarrow> list_all (\<lambda>sect. length sect < 1024) (fst (sections (buf @ str))) \<Longrightarrow>
   0 < len \<or> fst (sections (buf @ str)) = [] \<Longrightarrow> fst (read_sections len buf str) = fst (sections (buf @ str))"
proof (induction len buf str rule: read_sections.induct)
  case (1 len buf str)
  let ?s = "buf @ take len str" and ?t = "drop len str"
  let ?r = "snd (sections ?s)"
  have nul: "NUL \<notin> set ?s" using "1.prems"(1) set_take_subset [of len str] by auto
  then have c: "cstr ?s = ?s" by (rule cstr_no_nul)
  have all: "fst (sections (buf @ str)) = fst (sections ?s) @ fst (sections (?r @ ?t))"
    using sections_append [of ?s ?t] by simp
  show ?case
  proof (cases "take len str = []")
    case True
    then have "?r @ ?t = snd (sections buf) @ str" by auto
    moreover have "fst (sections (buf @ str)) = fst (sections buf)"
    proof (cases "str = []")
      case False
      with True "1.prems"(3) have "fst (sections (buf @ str)) = []" by auto
      with sections_append [of buf str] show ?thesis by simp
    qed simp
    ultimately show ?thesis using True c unfolding True append_Nil2 by (subst read_sections_simp) (simp add: split_beta Let_def True)
  next
    case False
    have "NUL \<notin> set (?r @ ?t)"
      using nul "1.prems"(1) sections_chars [of ?s] set_drop_subset [of len str] by auto
    moreover have "list_all (\<lambda>sect. length sect < 1024) (fst (sections (?r @ ?t)))"
      using "1.prems"(2) all by simp
    moreover from no_sections [OF sections_rest [of ?s] this] have
      "0 < 1024 - length ?r \<or> fst (sections (?r @ ?t)) = []" by linarith
    ultimately have "fst (read_sections (1024 - length ?r) ?r ?t) = fst (sections (?r @ ?t))"
      using "1.IH" [OF refl refl refl _ False, of "fst (sections ?s)" ?r] c by simp
    with False c all show ?thesis by (subst read_sections_simp) (simp add: split_beta Let_def)
  qed
qed

text \<open>
  C23: reading \<open>/proc/bus/input/devices\<close> piece by piece through a buffer of 1024 characters finds the same
  sections, in the same order, as splitting the whole text at its empty lines, as long as no section
  exceeds the buffer.
\<close>

theorem proc_sections_buffered:
  assumes "NUL \<notin> set str" "list_all (\<lambda>sect. length sect < 1024) (fst (sections str))"
  shows "fst (read_sections 1023 [] str) = fst (sections str)"
  using read_sections_all [of "[]" str 1023] assms by simp

theorem proc_sections_buffered_witness:
  "fst (read_sections 1023 [] (''I: a'' @ [CHR 0x0a, CHR 0x0a] @ ''N: b'' @ [CHR 0x0a, CHR 0x0a]))
     = [''I: a'' @ [CHR 0x0a], ''N: b'' @ [CHR 0x0a]]"
  using proc_sections_buffered [of "''I: a'' @ [CHR 0x0a, CHR 0x0a] @ ''N: b'' @ [CHR 0x0a, CHR 0x0a]"]
  by (simp add: sections_simp)

text \<open>
  The room left in the buffer after the first piece is one character too large: for every list of 2047
  characters or more, the terminating NUL is written beyond the buffer. It is not for a list that
  the first piece holds.
\<close>

theorem proc_buffer_overflow:
  assumes "NUL \<notin> set str"
  shows "(2047 \<le> length str \<longrightarrow> snd (read_sections 1023 [] str)) \<and>
    (length str \<le> 1023 \<longrightarrow> \<not> snd (read_sections 1023 [] str))"
proof -
  let ?r = "snd (sections (take 1023 str))"
  have c: "cstr (take 1023 str) = take 1023 str"
    using assms set_take_subset [of 1023 str] by (intro cstr_no_nul) auto
  have r: "length ?r \<le> 1023"
  proof -
    have "length (snd (sections s)) \<le> length s" for s
    proof (induction s rule: sections_induct)
      case (sections s)
      show ?case
      proof (cases "split_section s")
        case (Some p)
        obtain sect rest where p: "p = (sect, rest)" by (cases p)
        have "length rest \<le> length s" using split_section_append [OF Some [unfolded p]] by simp
        with sections [OF Some [unfolded p]] Some p show ?thesis by (simp add: sections_simp [of s])
      qed (simp add: sections_simp [of s])
    qed
    from this [of "take 1023 str"] show ?thesis by simp
  qed
  have "snd (read_sections (1024 - length ?r) ?r (drop 1023 str))" if "2047 \<le> length str"
  proof -
    have "length (?r @ take (1024 - length ?r) (drop 1023 str)) = 1024" using that r by simp
    moreover have "take (1024 - length ?r) (drop 1023 str) \<noteq> []" using that r by auto
    ultimately show ?thesis by (subst read_sections_simp) (simp add: split_beta Let_def)
  qed
  moreover have "\<not> snd (read_sections (1024 - length ?r) ?r (drop 1023 str))" if "length str \<le> 1023"
    using that r by (subst read_sections_simp) (simp add: split_beta Let_def)
  ultimately show ?thesis
    using c by (subst (1 2) read_sections_simp) (auto simp: split_beta Let_def)
qed

theorem proc_buffer_overflow_witness:
  "snd (read_sections 1023 [] (replicate 3000 (CHR ''x''))) \<and>
   \<not> snd (read_sections 1023 [] (replicate 1000 (CHR ''x'')))"
  using proc_buffer_overflow [of "replicate 3000 (CHR ''x'')"] proc_buffer_overflow [of "replicate 1000 (CHR ''x'')"]
  by simp

section \<open>What opening gives\<close>

definition evdev_ready :: "device \<Rightarrow> bool" where
  "evdev_ready dev \<longleftrightarrow>
     0 \<le> d_fd dev \<and> 0 < num_axes dev \<and> 0 < num_buttons dev \<and>
     length (minval dev) = nat (num_axes dev) \<and> length (maxval dev) = nat (num_axes dev) \<and>
     length (fuzz dev) = nat (num_axes dev) \<and> d_read dev = Some Evdev_driver \<and>
     d_close dev = Some Evdev_driver \<and> d_set_led dev = Some Evdev_driver \<and>
     (d_bnhack dev = None \<longrightarrow> 0 \<le> bnbase dev) \<and>
     (\<forall>h. d_bnhack dev = Some h \<longrightarrow> num_buttons dev = call_bnhack h (- 1))"

lemma bnhack_count: "0 < call_bnhack h (- 1)"
  by (cases h) (simp_all add: bnhack_smpro_def bnhack_sment_def)

lemma open_buttons_result:
  "0 < num_buttons (open_buttons n dev)" "d_fd (open_buttons n dev) = d_fd dev"
  "num_axes (open_buttons n dev) = num_axes dev" "0 \<le> bnbase (open_buttons n dev)"
  "d_bnhack (open_buttons n dev) = Some h \<Longrightarrow> num_buttons (open_buttons n dev) = call_bnhack h (- 1)"
  using bnhack_count by (auto simp: open_buttons_def Let_def bnhack_smpro_def less_le split: option.splits if_splits)

lemma open_led_out: "out (open_led dev d) =
    out d @ (if 0 \<le> d_fd dev then
      (if led (cfg d) = LED_ON \<or> led (cfg d) = LED_AUTO \<and> client_list d \<noteq> [] then [Led (d_fd dev) 1]
       else [Led (d_fd dev) 1, Led (d_fd dev) 0]) else [])"
  by (auto simp: open_led_def set_led_evdev_def emit_def first_client_def client_at_def Let_def
      split: list.splits)

lemma open_dev_usb_outcome:
  assumes "open_dev_usb dev d = (0, dev', d')" "- 1 \<le> n_fd (e_node (envt d) (d_path dev))"
  shows "evdev_ready dev' \<and> d_fd dev' = n_fd (e_node (envt d) (d_path dev)) \<and>
    out d' = out d @ (if grab_device (cfg d) \<noteq> 0 then [Grab (d_fd dev')] else []) @
      (if led (cfg d) = LED_ON \<or> led (cfg d) = LED_AUTO \<and> client_list d \<noteq> [] then [Led (d_fd dev') 1]
       else [Led (d_fd dev') 1, Led (d_fd dev') 0])"
proof -
  let ?n = "e_node (envt d) (d_path dev)"
  have fd: "n_fd ?n \<noteq> - 1" using assms(1) by (auto simp: open_dev_usb_def Let_def)
  let ?dev = "dev\<lparr>d_fd := n_fd ?n, d_name := (case n_name ?n of None \<Rightarrow> ''unknown'' | Some s \<Rightarrow> s),
      num_axes := int (count_axes ?n)\<rparr>"
  let ?dev2 = "open_ranges ?n (open_buttons ?n (if num_axes ?dev = 0 then ?dev\<lparr>num_axes := 6\<rparr> else ?dev))"
  let ?d = "snd (calloc (snd (calloc (snd (calloc d)))))"
  have res: "dev' = ?dev2\<lparr>d_close := Some Evdev_driver, d_read := Some Evdev_driver, d_set_led := Some Evdev_driver\<rparr>"
    "d' = open_led ?dev2 (if grab_device (cfg ?d) \<noteq> 0 then emit (Grab (d_fd ?dev2)) ?d else ?d)"
    using assms(1) fd by (auto simp: open_dev_usb_def Let_def split_beta split: if_splits)
  have frame: "d_fd (open_ranges n x) = d_fd x" "num_axes (open_ranges n x) = num_axes x"
    "num_buttons (open_ranges n x) = num_buttons x" "bnbase (open_ranges n x) = bnbase x"
    "d_bnhack (open_ranges n x) = d_bnhack x" "length (minval (open_ranges n x)) = nat (num_axes x)"
    "length (maxval (open_ranges n x)) = nat (num_axes x)" "length (fuzz (open_ranges n x)) = nat (num_axes x)" for n x
    by (simp_all add: open_ranges_def Let_def)
  have d: "out ?d = out d" "cfg ?d = cfg d" "client_list ?d = client_list d" by (simp_all add: calloc_def)
  have fd': "d_fd ?dev2 = n_fd ?n" by (simp add: frame open_buttons_result)
  have "out d' = out d @ (if grab_device (cfg d) \<noteq> 0 then [Grab (n_fd ?n)] else []) @
      (if led (cfg d) = LED_ON \<or> led (cfg d) = LED_AUTO \<and> client_list d \<noteq> [] then [Led (n_fd ?n) 1]
       else [Led (n_fd ?n) 1, Led (n_fd ?n) 0])"
    unfolding res(2) open_led_out fd' using assms(2) fd by (simp add: emit_def d)
  moreover have "evdev_ready dev'"
    unfolding res(1) evdev_ready_def using assms(2) fd
    by (simp add: frame open_buttons_result)
  ultimately show ?thesis using fd' by (simp add: res(1))
qed

text \<open>
  C22: a USB device that is opened successfully is ready to be used: it has at least one axis and one button,
  a range for every axis, the functions of the driver, and as many buttons as its renumbering (if it has
  one) yields; its LED is turned on exactly if the configuration says so, or says automatic and there is
  a client.
\<close>

theorem open_dev_usb_result:
  assumes "open_dev_usb dev d = (0, dev', d')" "- 1 \<le> n_fd (e_node (envt d) (d_path dev))"
  shows "evdev_ready dev' \<and> d_fd dev' = n_fd (e_node (envt d) (d_path dev)) \<and>
    out d' = out d @ (if grab_device (cfg d) \<noteq> 0 then [Grab (d_fd dev')] else []) @
      (if led (cfg d) = LED_ON \<or> led (cfg d) = LED_AUTO \<and> client_list d \<noteq> [] then [Led (d_fd dev') 1]
       else [Led (d_fd dev') 1, Led (d_fd dev') 0])"
  by (rule open_dev_usb_outcome [OF assms])

definition space_navigator :: evnode where
  "space_navigator = \<lparr>n_fd = 9, n_chr = True, n_usbid = Some (0x046d, 0xc626), n_name = Some ''3Dconnexion SpaceNavigator'',
     n_abs = None, n_rel = Some (\<lambda>i. i < 6), n_key = Some (\<lambda>k. k = 256 \<or> k = 257), n_absinfo = (\<lambda>_. None)\<rparr>"

definition navigator_state :: daemon where
  "navigator_state = start_state\<lparr>envt := bare_environment\<lparr>e_node := (\<lambda>_. space_navigator)\<rparr>\<rparr>"

theorem open_dev_usb_result_witness:
  "\<exists>dev d. open_dev_usb ((sample_dev 0)\<lparr>d_usbid := (0x046d, 0xc626)\<rparr>) navigator_state = (0, dev, d) \<and>
     evdev_ready dev \<and> out d = [Grab 9, Led 9 1]"
proof -
  let ?dev = "(sample_dev 0)\<lparr>d_usbid := (0x046d, 0xc626)\<rparr>"
  have "fst (open_dev_usb ?dev navigator_state) = 0"
    by (simp add: open_dev_usb_def navigator_state_def space_navigator_def calloc_def Let_def split_beta wireless_def)
  then obtain dev d where res: "open_dev_usb ?dev navigator_state = (0, dev, d)" by (metis prod.collapse)
  from open_dev_usb_result [OF this] show ?thesis
    by (simp add: res) (simp add: navigator_state_def space_navigator_def default_cfg_def)
qed

end
