(* ===== verification/Devices.thy ===== *)
theory Devices
  imports SerialOpen Evdev Events
begin

text \<open>
  The list of devices (src/dev.c): adding and removing nodes, finding and opening the serial device and
  the USB devices, reading from a device with the normalisation of its axes, and what follows a change
  of the configuration (\<open>cfg_changed\<close> of src/spnavd.c). A device that is removed is freed: an access to
  it afterwards sets \<open>fault\<close>.
\<close>

section \<open>The list\<close>

definition new_device :: "nat \<Rightarrow> int \<Rightarrow> device" where
  "new_device a i = \<lparr>d_addr = a, d_id = i, d_fd = - 1, d_data = None, d_dangling = False, d_name = [], d_path = [],
     d_type = 0, d_usbid = (0, 0), d_flags = 0, num_axes = 0, num_buttons = 0, bnbase = 0, minval = [],
     maxval = [], fuzz = [], d_close = None, d_read = None, d_set_led = None, d_bnhack = None\<rparr>"

definition add_device :: "daemon \<Rightarrow> nat option \<times> daemon" where
  "add_device d =
     (let (a, d) = calloc d in
      case a of
        None \<Rightarrow> (None, d)
      | Some a \<Rightarrow>
          (Some a, d\<lparr>last_id := last_id d + 1, dev_list := new_device a (int (unat (last_id d))) # dev_list d\<rparr>))"

definition upd_device :: "nat \<Rightarrow> (device \<Rightarrow> device) \<Rightarrow> daemon \<Rightarrow> daemon" where
  "upd_device a f d = d\<lparr>dev_list := map (\<lambda>dev. if d_addr dev = a then f dev else dev) (dev_list d)\<rparr>"

definition call_close :: "device \<Rightarrow> daemon \<Rightarrow> device \<times> daemon" where
  "call_close dev d =
     (case d_close dev of
        None \<Rightarrow> (dev, d)
      | Some Serial_driver \<Rightarrow> close_dev_serial dev d
      | Some Evdev_driver \<Rightarrow> close_evdev dev d)"

definition dev_event :: "int \<Rightarrow> device \<Rightarrow> spnav_event" where
  "dev_event dop dev = EvDev dop (d_id dev) (d_type dev) (d_usbid dev)"

definition remove_device :: "nat \<Rightarrow> daemon \<Rightarrow> daemon" where
  "remove_device a d =
     (case get_device a d of
        None \<Rightarrow> d\<lparr>fault := True\<rparr>
      | Some dev \<Rightarrow>
          let d = d\<lparr>dev_list := filter (\<lambda>x. d_addr x \<noteq> a) (dev_list d)\<rparr>;
              d = remove_dev_event a d;
              (dev, d) = call_close dev d in
          broadcast_event (dev_event DEV_RM dev) d)"

definition dev_path_in_use :: "string \<Rightarrow> daemon \<Rightarrow> device option" where
  "dev_path_in_use path d = search (\<lambda>dev. d_path dev = path) (dev_list d)"

definition get_device_index :: "nat \<Rightarrow> daemon \<Rightarrow> int" where
  "get_device_index a d =
     (case search (\<lambda>i. d_addr (dev_list d ! i) = a) [0..<length (dev_list d)] of None \<Rightarrow> - 1 | Some i \<Rightarrow> int i)"

section \<open>Finding and opening devices\<close>

definition init_devices_serial :: "daemon \<Rightarrow> daemon" where
  "init_devices_serial d =
     (let path = serial_dev (cfg d) in
      if path = [] \<or> dev_path_in_use path d \<noteq> None then d
      else if t_stat (e_tty (envt d) path) \<noteq> Some True then d
      else
        let (a, d) = add_device d in
        case a of
          None \<Rightarrow> d\<lparr>fault := True\<rparr>
        | Some a \<Rightarrow>
            let d = upd_device a (\<lambda>dev. dev\<lparr>d_path := path\<rparr>) d;
                (r, dev, d) = open_dev_serial (the (get_device a d)) d;
                d = upd_device a (\<lambda>_. dev) d in
            if r = - 1 then remove_device a d
            else broadcast_event (EvDev DEV_ADD (d_id dev) (d_type dev) (0, 0)) d)"

definition sixdof_flags :: "device \<Rightarrow> device" where
  \<comment> \<open>the flags of every newer device of the vendor, unless it does not have six axes\<close>
  "sixdof_flags dev =
     (let dev = (if fst (d_usbid dev) = VID_3DCONN then dev\<lparr>d_flags := d_flags dev OR DF_6DOF\<rparr> else dev) in
      if d_flags dev AND DF_6DOF \<noteq> 0 \<and> num_axes dev \<noteq> 6 then dev\<lparr>d_flags := d_flags dev AND NOT DF_6DOF\<rparr>
      else dev)"

definition new_usb_device :: "usb_dev_info \<Rightarrow> string \<Rightarrow> device \<Rightarrow> device" where
  "new_usb_device di path dev =
     (let uent = find_usbdb_entry (w32 (ud_vendorid di)) (w32 (ud_productid di)) in
      dev\<lparr>d_path := path,
          d_type := (case uent of None \<Rightarrow> DEV_UNKNOWN | Some e \<Rightarrow> ue_type e),
          d_flags := (case uent of None \<Rightarrow> 0 | Some e \<Rightarrow> ue_flags e),
          d_bnhack := (case uent of None \<Rightarrow> None | Some e \<Rightarrow> ue_bnmap e),
          d_usbid := (w32 (ud_vendorid di), w32 (ud_productid di))\<rparr>)"

fun open_usb_files :: "usb_dev_info \<Rightarrow> string list \<Rightarrow> daemon \<Rightarrow> daemon" where
  \<comment> \<open>the files of a device, up to the first that is in use or can be opened\<close>
  "open_usb_files di [] d = d"
| "open_usb_files di (path # paths) d =
     (if dev_path_in_use path d \<noteq> None then d
      else
        let (a, d) = add_device d in
        case a of
          None \<Rightarrow> d\<lparr>fault := True\<rparr>
        | Some a \<Rightarrow>
            let d = upd_device a (new_usb_device di path) d;
                (r, dev, d) = open_dev_usb (the (get_device a d)) d in
            if r = - 1 then open_usb_files di paths (remove_device a (upd_device a (\<lambda>_. dev) d))
            else
              let dev = sixdof_flags dev in
              broadcast_event (dev_event DEV_ADD dev) (upd_device a (\<lambda>_. dev) d))"

definition init_devices_usb :: "daemon \<Rightarrow> int \<times> daemon" where
  "init_devices_usb d =
     (let (devs, d) = find_usb_devices d;
          d = fold (\<lambda>di. open_usb_files di (ud_devfiles di)) devs d in
      (if devs = [] then - 1 else 0, d))"

definition init_devices :: "daemon \<Rightarrow> daemon" where
  "init_devices d = snd (init_devices_usb (init_devices_serial d))"

section \<open>Reading\<close>

definition read_serial :: "device \<Rightarrow> dev_input \<Rightarrow> daemon \<Rightarrow> int \<times> dev_input \<times> daemon" where
  \<comment> \<open>the serial driver, on the bytes that the line has delivered\<close>
  "read_serial dev inp d =
     (case d_data dev of
        None \<Rightarrow> (- 1, inp, d)
      | Some sb \<Rightarrow>
          if d_dangling dev then (- 1, inp, d\<lparr>fault := True\<rparr>)
          else
            let ((r, dev'), chunks) = read_dev_serial (serial_in d (sb_fd sb)) dev;
                d = upd_device (d_addr dev) (\<lambda>_. dev') (d\<lparr>serial_in := (serial_in d)(sb_fd sb := chunks)\<rparr>) in
            (case r of None \<Rightarrow> (- 1, inp, d) | Some inp' \<Rightarrow> (0, inp', d)))"

definition read_evdev :: "device \<Rightarrow> dev_input \<Rightarrow> daemon \<Rightarrow> int \<times> dev_input \<times> daemon" where
  "read_evdev dev inp d =
     (if d_fd dev < 0 then (- 1, inp, d)
      else case evdev_in d (d_fd dev) of
        [] \<Rightarrow> (- 1, inp, d)
      | ev # evs \<Rightarrow>
          let d = d\<lparr>evdev_in := (evdev_in d)(d_fd dev := evs)\<rparr> in
          (case ev of
             Rd_err \<Rightarrow> (- 1, inp, remove_device (d_addr dev) d)
           | Rd_eof \<Rightarrow> (0, inp, d)
           | Iev ty code val \<Rightarrow>
               let (r, inp, bad) = evdev_event dev ty code val inp in
               (r, inp, if bad then d\<lparr>fault := True\<rparr> else d)))"

definition yz_swap :: "int list" where
  "yz_swap = [0, 2, 1, 3, 5, 4]"

definition normalise_axis :: "u32 \<Rightarrow> dev_input \<Rightarrow> dev_input \<times> bool" where
  \<comment> \<open>the axes of a device with these flags; whether the table is read outside\<close>
  "normalise_axis flags inp =
     (let bad = (flags AND DF_SWAPYZ \<noteq> 0 \<and> \<not> (0 \<le> inp_idx inp \<and> inp_idx inp < 6));
          inp = (if flags AND DF_SWAPYZ \<noteq> 0 then inp\<lparr>inp_idx := yz_swap ! nat (inp_idx inp)\<rparr> else inp);
          inp = (if flags AND DF_INVYZ \<noteq> 0 \<and> inp_idx inp \<noteq> 0 \<and> inp_idx inp \<noteq> 3
                 then inp\<lparr>inp_val := int32 (- inp_val inp)\<rparr> else inp) in
      (inp, bad))"

definition read_device :: "nat \<Rightarrow> dev_input \<Rightarrow> daemon \<Rightarrow> int \<times> dev_input \<times> daemon" where
  "read_device a inp d =
     (case get_device a d of
        None \<Rightarrow> (- 1, inp, d\<lparr>fault := True\<rparr>)
      | Some dev \<Rightarrow>
          let (r, inp, d) = (case d_read dev of
              None \<Rightarrow> (- 1, inp, d)
            | Some Serial_driver \<Rightarrow> read_serial dev inp d
            | Some Evdev_driver \<Rightarrow> read_evdev dev inp d) in
          if r = - 1 then (- 1, inp, d)
          else if inp_type inp = INP_MOTION then
            (let (inp, bad) = normalise_axis (d_flags dev) inp in (0, inp, if bad then d\<lparr>fault := True\<rparr> else d))
          else (0, inp, d))"

section \<open>A change of the configuration\<close>

definition led_changed :: "daemon \<Rightarrow> daemon" where
  "led_changed d =
     (if led (cfg d) = led (prev_cfg d) then d
      else fold (\<lambda>dev d.
        if \<not> is_device_valid (Some dev) then d
        else
          let (clients, d) = (if led (cfg d) = LED_AUTO then first_client d else (None, d)) in
          set_device_led dev
            (if led (cfg d) = LED_ON \<or> (led (cfg d) = LED_AUTO \<and> clients \<noteq> None) then 1 else 0) d)
        (dev_list d) d)"

definition serial_changed :: "daemon \<Rightarrow> daemon" where
  "serial_changed d =
     (if serial_dev (cfg d) = serial_dev (prev_cfg d) then d
      else init_devices_serial
        (fold (\<lambda>dev d. if d_path dev = serial_dev (prev_cfg d) then remove_device (d_addr dev) d else d)
          (dev_list d) d))"

definition cfg_changed :: "daemon \<Rightarrow> daemon" where
  "cfg_changed d =
     (let d = led_changed d; d = serial_changed d in d\<lparr>prev_cfg := cfg d\<rparr>)"

section \<open>Well-formed lists of devices\<close>

text \<open>
  \<open>same_node\<close>: the driver of a serial device changes its state, and its name, type and buttons once it
  knows them, and nothing else of the node.
\<close>

definition same_node :: "device \<Rightarrow> device \<Rightarrow> bool" where
  "same_node a b \<longleftrightarrow>
     d_addr a = d_addr b \<and> d_path a = d_path b \<and> d_fd a = d_fd b \<and> d_id a = d_id b \<and> d_read a = d_read b \<and>
     d_close a = d_close b \<and> d_set_led a = d_set_led b \<and> d_dangling a = d_dangling b \<and>
     d_flags a = d_flags b \<and> num_axes a = num_axes b \<and> d_usbid a = d_usbid b"

lemma same_node_refl [simp]: "same_node a a"
  by (simp add: same_node_def)

lemma same_node_trans: "same_node a b \<Longrightarrow> same_node b c \<Longrightarrow> same_node a c"
  by (simp add: same_node_def)

lemma same_node_data [simp]: "same_node a (b\<lparr>d_data := x\<rparr>) = same_node a b"
  by (simp add: same_node_def)

lemma call_parse_node: "same_node (fst ds) (fst (call_parse pid data ds))"
  by (auto simp: call_parse_def sball_parsepkt_def mag_parsepkt_def sb4000_switch_def split_beta Let_def same_node_def
      split: option.split sb_proto.split)

lemma scan_input_node: "same_node (fst ds) (fst (snd (scan_input cs cur start ds)))"
proof (induction cs cur start ds rule: scan_input.induct)
  case (2 c cs cur start ds)
  then show ?case by (auto split: list.splits intro: same_node_trans [OF call_parse_node])
qed simp

lemma proc_input_node: "same_node (fst ds) (fst (proc_input ds))"
  using scan_input_node [of ds] by (simp add: proc_input_def split_beta Let_def)

lemma serial_read_loop_node: "same_node (fst ds) (fst (snd (serial_read_loop chunks ds)))"
proof (induction chunks ds rule: serial_read_loop.induct)
  case (1 chunks ds)
  let ?rd = "sys_read (INP_BUF_SZ - sb_len (snd ds) - 1) chunks"
  let ?ds = "proc_input (fst ds, append_input (fst ?rd) (snd ds))"
  have "same_node (fst ds) (fst ?ds)"
    using proc_input_node [of "(fst ds, append_input (fst ?rd) (snd ds))"] by simp
  moreover have "same_node (fst ?ds) (fst (snd (serial_read_loop (snd ?rd) ?ds)))" if "fst ?rd \<noteq> []"
    using 1 [OF refl prod.collapse that] by simp
  ultimately show ?case
    by (subst serial_read_loop.simps) (auto simp: split_beta Let_def intro: same_node_trans)
qed

lemma read_dev_serial_node: "same_node dev (snd (fst (read_dev_serial chunks dev)))"
proof -
  have "same_node (fst ds) (fst (serial_overflow ds))" for ds
    using proc_input_node [of ds] by (simp add: serial_overflow_def split_beta Let_def)
  moreover have "same_node dev (fst (snd (serial_read_loop chunks (dev, sb))))" for sb
    using serial_read_loop_node [of "(dev, sb)" chunks] by simp
  ultimately have "same_node dev (fst (serial_overflow (snd (serial_read_loop chunks (dev, sb)))))" for sb
    by (blast intro: same_node_trans)
  then show ?thesis
    by (auto simp: read_dev_serial_def split_beta Let_def split: option.split)
qed

lemma read_dev_serial_data: "d_data dev \<noteq> None \<Longrightarrow> d_data (snd (fst (read_dev_serial chunks dev))) \<noteq> None"
  by (auto simp: read_dev_serial_def split_beta Let_def split: option.split)

definition dev_ready :: "device \<Rightarrow> bool" where
  \<comment> \<open>open and complete, with the state of its driver\<close>
  "dev_ready dev \<longleftrightarrow>
     (if d_read dev = Some Serial_driver
      then d_data dev \<noteq> None \<and> serial_wf dev \<and> \<not> d_dangling dev \<and> d_close dev = Some Serial_driver \<and>
        d_fd dev \<noteq> - 1 \<and> d_flags dev = 0 \<and> d_set_led dev = None
      else evdev_ready dev \<and> d_data dev = None \<and> (d_flags dev AND DF_6DOF \<noteq> 0 \<longrightarrow> num_axes dev = 6))"

definition devices_wf :: "daemon \<Rightarrow> bool" where
  "devices_wf d \<longleftrightarrow>
     distinct (map d_addr (dev_list d)) \<and> list_all (\<lambda>dev. d_addr dev < fresh d) (dev_list d) \<and>
     distinct (map d_path (dev_list d)) \<and> list_all dev_ready (dev_list d)"

lemma devices_wf_cong: "dev_list d' = dev_list d \<Longrightarrow> fresh d \<le> fresh d' \<Longrightarrow> devices_wf d \<Longrightarrow> devices_wf d'"
  by (auto simp: devices_wf_def list_all_iff)

lemma devices_wf_sub:
  "devices_wf d \<Longrightarrow> dev_list d' = filter P (dev_list d) \<Longrightarrow> fresh d \<le> fresh d' \<Longrightarrow> devices_wf d'"
  by (auto simp: devices_wf_def list_all_iff distinct_map_filter)

lemma get_device_Some: "get_device a d = Some dev \<Longrightarrow> dev \<in> set (dev_list d) \<and> d_addr dev = a"
  by (auto simp: get_device_def dest: search_SomeD)

lemma get_device_in: "devices_wf d \<Longrightarrow> dev \<in> set (dev_list d) \<Longrightarrow> get_device (d_addr dev) d = Some dev"
  unfolding get_device_def devices_wf_def by (intro search_key_distinct [where key = d_addr]) auto

text \<open>Closing and telling the clients changes neither the list nor the environment.\<close>

definition same_devices :: "daemon \<Rightarrow> daemon \<Rightarrow> bool" where
  "same_devices d d' \<longleftrightarrow>
     dev_list d' = dev_list d \<and> fresh d \<le> fresh d' \<and> envt d' = envt d \<and> cfg d' = cfg d \<and> prev_cfg d' = prev_cfg d \<and>
     client_list d' = client_list d \<and> last_id d' = last_id d \<and> (tables_wf d \<longrightarrow> tables_wf d')"

lemma same_devices_refl [simp]: "same_devices d d"
  by (simp add: same_devices_def)

lemma same_devices_trans: "same_devices a b \<Longrightarrow> same_devices b c \<Longrightarrow> same_devices a c"
  by (auto simp: same_devices_def)

lemma same_devices_wf: "same_devices d d' \<Longrightarrow> devices_wf d \<Longrightarrow> devices_wf d'"
  by (rule devices_wf_cong [of d' d]) (simp_all add: same_devices_def)

lemma same_devices_ops:
  "same_devices d x \<Longrightarrow> same_devices d (emit e x)" "same_devices d x \<Longrightarrow> same_devices d (x\<lparr>fault := b\<rparr>)"
  "same_devices d x \<Longrightarrow> same_devices d (broadcast_event ev x)"
  "same_devices d x \<Longrightarrow> same_devices d (remove_dev_event a x)"
  "same_devices d x \<Longrightarrow> same_devices d (snd (calloc x))"
  "same_devices d x \<Longrightarrow> same_devices d (snd (first_client x))"
  "same_devices d x \<Longrightarrow> same_devices d (set_device_led dev st x)"
  "same_devices d x \<Longrightarrow> same_devices d (set_led_evdev dev st x)"
  by (auto simp: same_devices_def emit_def broadcast_event_eq remove_dev_event_def calloc_def first_client_def
      set_device_led_out set_led_evdev_def tables_wf_fields tables_wf_filter Let_def)

lemma same_devices_close: "same_devices d x \<Longrightarrow> same_devices d (snd (call_close dev x))"
  by (auto simp: call_close_def close_dev_serial_def close_evdev_def stty_restore_def Let_def
      split: option.split driver.split intro!: same_devices_ops)

lemma remove_device_list:
  "dev_list (remove_device a d) = filter (\<lambda>x. d_addr x \<noteq> a) (dev_list d)"
  "same_devices (d\<lparr>dev_list := filter (\<lambda>x. d_addr x \<noteq> a) (dev_list d)\<rparr>) (remove_device a d)"
proof -
  let ?d = "d\<lparr>dev_list := filter (\<lambda>x. d_addr x \<noteq> a) (dev_list d)\<rparr>"
  show same: "same_devices ?d (remove_device a d)"
  proof (cases "get_device a d")
    case None
    then have "filter (\<lambda>x. d_addr x \<noteq> a) (dev_list d) = dev_list d"
      by (auto simp: get_device_def search_None_iff intro!: filter_True)
    with None show ?thesis by (simp add: remove_device_def same_devices_def tables_wf_fields)
  next
    case (Some dev)
    then show ?thesis
      by (auto simp: remove_device_def split_beta Let_def intro!: same_devices_ops same_devices_close)
  qed
  then show "dev_list (remove_device a d) = filter (\<lambda>x. d_addr x \<noteq> a) (dev_list d)"
    by (simp add: same_devices_def)
qed

lemma remove_device_wf: "devices_wf d \<Longrightarrow> devices_wf (remove_device a d)"
  using remove_device_list [of a d] by (auto simp: same_devices_def intro: devices_wf_sub)

lemma remove_device_fault: "fault d \<Longrightarrow> fault (remove_device a d)"
  by (auto simp: remove_device_def call_close_def close_dev_serial_def close_evdev_def stty_restore_def emit_def
      set_device_led_out remove_dev_event_def broadcast_event_eq split_beta Let_def split: option.split driver.split)

lemma remove_dangling: "get_device a d = Some dev \<Longrightarrow> d_close dev = Some Serial_driver \<Longrightarrow> d_data dev \<noteq> None \<Longrightarrow>
    d_dangling dev \<Longrightarrow> fault (remove_device a d)"
  by (auto simp: remove_device_def call_close_def close_dev_serial_def stty_restore_def emit_def broadcast_event_eq Let_def)

subsection \<open>Opening\<close>

definition env_ok :: "daemon \<Rightarrow> bool" where
  \<comment> \<open>what \<open>open\<close> returns is a file descriptor or -1\<close>
  "env_ok d \<longleftrightarrow> (\<forall>path. - 1 \<le> n_fd (e_node (envt d) path) \<and> - 1 \<le> t_open (e_tty (envt d) path))"

lemma add_device_eq: "add_device d =
    (if mem d (fresh d) then
       (Some (fresh d), d\<lparr>fresh := fresh d + 1, last_id := last_id d + 1,
          dev_list := new_device (fresh d) (int (unat (last_id d))) # dev_list d\<rparr>)
     else (None, d\<lparr>fresh := fresh d + 1\<rparr>))"
  by (simp add: add_device_def calloc_def)

lemma upd_device_sel:
  "fresh (upd_device a f d) = fresh d" "envt (upd_device a f d) = envt d" "cfg (upd_device a f d) = cfg d"
  "prev_cfg (upd_device a f d) = prev_cfg d" "client_list (upd_device a f d) = client_list d"
  "last_id (upd_device a f d) = last_id d" "out (upd_device a f d) = out d" "fault (upd_device a f d) = fault d"
  by (simp_all add: upd_device_def)

lemma devices_wf_new:
  assumes "devices_wf d" "dev_list x = dev # dev_list d" "fresh d < fresh x" "d_addr dev = fresh d"
    "dev_path_in_use (d_path dev) d = None" "dev_ready dev"
  shows "devices_wf x"
  using assms by (auto simp: devices_wf_def list_all_iff dev_path_in_use_def search_None_iff)

lemma devices_wf_undo:
  assumes "devices_wf d" "dev_list x = dev # dev_list d" "fresh d < fresh x" "d_addr dev = fresh d"
  shows "devices_wf (remove_device (fresh d) x)"
proof -
  have "filter (\<lambda>y. d_addr y \<noteq> fresh d) (dev_list d) = dev_list d"
    using assms(1) by (auto simp: devices_wf_def list_all_iff intro!: filter_True)
  with remove_device_list [of "fresh d" x] assms show ?thesis
    by (auto simp: same_devices_def intro: devices_wf_cong)
qed

definition opens :: "device \<Rightarrow> daemon \<Rightarrow> int \<Rightarrow> device \<Rightarrow> daemon \<Rightarrow> bool" where
  \<comment> \<open>opening a device has filled in its node, and left the lists and the environment alone\<close>
  "opens dev d r dev' d' \<longleftrightarrow>
     same_devices d d' \<and> d_addr dev' = d_addr dev \<and> d_path dev' = d_path dev \<and> d_id dev' = d_id dev \<and>
     (r = 0 \<or> r = - 1)"

lemma opensD:
  "opens dev d r dev' d' \<Longrightarrow> same_devices d d'" "opens dev d r dev' d' \<Longrightarrow> d_addr dev' = d_addr dev"
  "opens dev d r dev' d' \<Longrightarrow> d_path dev' = d_path dev" "opens dev d r dev' d' \<Longrightarrow> r = 0 \<or> r = - 1"
  by (simp_all add: opens_def)

definition plain_node :: "device \<Rightarrow> bool" where
  "plain_node dev \<longleftrightarrow> d_flags dev = 0 \<and> d_set_led dev = None"

definition opens_plain :: "device \<Rightarrow> daemon \<Rightarrow> int \<Rightarrow> device \<Rightarrow> daemon \<Rightarrow> bool" where
  "opens_plain dev d r dev' d' \<longleftrightarrow> opens dev d r dev' d' \<and> (plain_node dev \<longrightarrow> plain_node dev')"

lemma detected_opens:
  assumes "detected proto name reply dev x = (dev', x')" "same_devices d x"
  shows "opens_plain dev d 0 dev' x'"
proof -
  have "plain_node dev \<longrightarrow> plain_node (snd (guess_num_buttons s (dev\<lparr>d_name := name\<rparr>)))" for s
    by (auto simp: guess_num_buttons_def guess_firmware_def plain_node_def split: option.split prod.split)
  with assms show ?thesis
    by (auto simp: detected_def printable_def opens_def opens_plain_def split_beta Let_def guess_frame plain_node_def
        intro!: same_devices_ops)
qed

lemma serial_fail_opens: "serial_fail fd t dev x = (r, dev', x') \<Longrightarrow> same_devices d x \<Longrightarrow> opens_plain dev d r dev' x'"
  by (auto simp: serial_fail_def stty_restore_def opens_def opens_plain_def plain_node_def intro!: same_devices_ops)

lemma opens_emit: "opens_plain dev d r dev' x \<Longrightarrow> opens_plain dev d r dev' (emit e x)"
  by (auto simp: opens_def opens_plain_def intro!: same_devices_ops)

lemma probe_magellan_opens:
  "probe_magellan fd t dev x = (r, dev', x') \<Longrightarrow> same_devices d x \<Longrightarrow> opens_plain dev d r dev' x'"
  by (auto simp: probe_magellan_def stty_mag_def Let_def split: prod.splits if_splits option.splits
      intro!: opens_emit same_devices_ops elim!: serial_fail_opens detected_opens)

lemma probe_spaceball_opens:
  "probe_spaceball fd t dev x = (r, dev', x') \<Longrightarrow> same_devices d x \<Longrightarrow> opens_plain dev d r dev' x'"
  by (auto simp: probe_spaceball_def stty_sball_def Let_def split: prod.splits if_splits option.splits
      intro!: opens_emit same_devices_ops elim!: serial_fail_opens probe_magellan_opens detected_opens)

lemma open_dev_serial_opens:
  assumes "open_dev_serial dev d = (r, dev', d')"
  shows "opens dev d r dev' d'" "plain_node dev \<Longrightarrow> plain_node dev'" "r = 0 \<Longrightarrow> mem d (fresh d)"
    "r = 0 \<Longrightarrow> d_fd dev' \<noteq> - 1 \<and> d_dangling dev' = d_dangling dev"
proof -
  let ?t = "e_tty (envt d) (d_path dev)"
  let ?n = "serial_node (t_open ?t) dev"
  have res: "opens_plain dev d r dev' d' \<and> (r = 0 \<longrightarrow> mem d (fresh d) \<and> d_fd dev' \<noteq> - 1 \<and> d_dangling dev' = d_dangling dev)"
  proof (cases "t_open ?t \<noteq> - 1 \<and> t_isatty ?t \<and> mem d (fresh d)")
    case True
    then have p: "probe_spaceball (t_open ?t) ?t ?n (snd (calloc d)) = (r, dev', d')"
      using assms by (simp add: open_dev_serial_def Let_def calloc_def)
    have "same_devices d (snd (calloc d))" by (intro same_devices_ops same_devices_refl)
    from probe_spaceball_opens [OF p this] probe_spaceball_ends [OF serial_node_probing p] True show ?thesis
      by (auto simp: opens_plain_def opens_def plain_node_def serial_node_def probe_ends_def serial_ready_def)
  next
    case False
    with assms have "r = - 1 \<and> dev' = dev \<and> same_devices d d'"
      by (auto simp: open_dev_serial_def Let_def calloc_def split: if_splits intro!: same_devices_ops)
        (simp add: same_devices_def emit_def tables_wf_fields)
    then show ?thesis by (simp add: opens_plain_def opens_def)
  qed
  then show "opens dev d r dev' d'" "plain_node dev \<Longrightarrow> plain_node dev'" "r = 0 \<Longrightarrow> mem d (fresh d)"
    "r = 0 \<Longrightarrow> d_fd dev' \<noteq> - 1 \<and> d_dangling dev' = d_dangling dev"
    by (auto simp: opens_plain_def)
qed

lemma serial_ready_wf: "serial_ready fd dev \<Longrightarrow> serial_wf dev \<and> d_data dev \<noteq> None"
  by (auto simp: serial_ready_def serial_wf_def)

lemma new_device_sel [simp]:
  "d_addr (new_device a i) = a" "d_id (new_device a i) = i" "d_fd (new_device a i) = - 1"
  "d_data (new_device a i) = None" "\<not> d_dangling (new_device a i)" "d_flags (new_device a i) = 0"
  "d_set_led (new_device a i) = None" "d_close (new_device a i) = None" "d_read (new_device a i) = None"
  by (simp_all add: new_device_def)

text \<open>A node that has just been added and filled in is the first one, before the nodes of \<open>d\<close>.\<close>

definition added :: "device \<Rightarrow> daemon \<Rightarrow> daemon \<Rightarrow> bool" where
  "added dev d x \<longleftrightarrow> dev_list x = dev # dev_list d \<and> d_addr dev = fresh d \<and> fresh d < fresh x \<and>
     envt x = envt d \<and> cfg x = cfg d \<and> prev_cfg x = prev_cfg d \<and> client_list x = client_list d"

lemma added_new: "devices_wf d \<Longrightarrow> mem d (fresh d) \<Longrightarrow> d_addr (f (new_device (fresh d) (int (unat (last_id d))))) = fresh d \<Longrightarrow>
    added (f (new_device (fresh d) (int (unat (last_id d))))) d (upd_device (fresh d) f (snd (add_device d)))"
  by (auto simp: added_def add_device_eq upd_device_def devices_wf_def list_all_iff intro!: map_idI)

lemma added_get: "added dev d x \<Longrightarrow> get_device (fresh d) x = Some dev"
  by (simp add: added_def get_device_def)

lemma added_upd: "devices_wf d \<Longrightarrow> added dev d x \<Longrightarrow> same_devices x y \<Longrightarrow> d_addr dev' = fresh d \<Longrightarrow>
    added dev' d (upd_device (fresh d) (\<lambda>_. dev') y)"
  by (auto simp: added_def upd_device_def same_devices_def devices_wf_def list_all_iff intro!: map_idI)

lemma added_wf: "devices_wf d \<Longrightarrow> added dev d x \<Longrightarrow> dev_path_in_use (d_path dev) d = None \<Longrightarrow> dev_ready dev \<Longrightarrow> devices_wf x"
  using devices_wf_new [of d x dev] by (simp add: added_def)

lemma added_undo:
  assumes "devices_wf d" "added dev d x"
  shows "devices_wf (remove_device (fresh d) x) \<and> dev_list (remove_device (fresh d) x) = dev_list d \<and>
    envt (remove_device (fresh d) x) = envt d \<and> fresh d \<le> fresh (remove_device (fresh d) x)"
proof -
  have "filter (\<lambda>y. d_addr y \<noteq> fresh d) (dev_list d) = dev_list d"
    using assms(1) by (auto simp: devices_wf_def list_all_iff intro!: filter_True)
  with assms remove_device_list [of "fresh d" x] devices_wf_undo [of d x dev] show ?thesis
    by (auto simp: added_def same_devices_def)
qed

text \<open>Looking for the serial device: nothing changes, it is added, or its node is removed again.\<close>

definition init_result :: "daemon \<Rightarrow> daemon \<Rightarrow> bool" where
  "init_result d d' \<longleftrightarrow> devices_wf d' \<and> envt d' = envt d \<and> fresh d \<le> fresh d' \<and>
     (if dev_list d' = dev_list d then
        (serial_dev (cfg d) \<noteq> [] \<and> dev_path_in_use (serial_dev (cfg d)) d = None \<and>
         (let t = e_tty (envt d) (serial_dev (cfg d)) in t_stat t = Some True \<and> t_open t \<noteq> - 1 \<and> t_isatty t)
           \<longrightarrow> fault d')
      else \<exists>dev. dev_list d' = dev # dev_list d \<and> d_path dev = serial_dev (cfg d) \<and> d_read dev = Some Serial_driver)"

lemma init_devices_serial_cases:
  assumes "devices_wf d"
  shows "init_result d (init_devices_serial d)"
proof (cases "serial_dev (cfg d) = [] \<or> dev_path_in_use (serial_dev (cfg d)) d \<noteq> None \<or>
    t_stat (e_tty (envt d) (serial_dev (cfg d))) \<noteq> Some True \<or> \<not> mem d (fresh d)")
  case True
  with assms show ?thesis
    by (auto simp: init_result_def init_devices_serial_def Let_def add_device_eq intro: devices_wf_cong)
next
  case False
  let ?path = "serial_dev (cfg d)" and ?a = "fresh d"
  define n where "n = (new_device ?a (int (unat (last_id d))))\<lparr>d_path := ?path\<rparr>"
  define x where "x = upd_device ?a (\<lambda>dev. dev\<lparr>d_path := ?path\<rparr>) (snd (add_device d))"
  have x: "added n d x"
    using False unfolding x_def n_def by (intro added_new [OF assms]) simp_all
  have n: "d_addr n = ?a" "d_path n = ?path" "plain_node n" "\<not> d_dangling n"
    by (simp_all add: n_def plain_node_def)
  obtain r dev y where o: "open_dev_serial n x = (r, dev, y)" by (metis prod_cases3)
  note fr = open_dev_serial_opens [OF o] opensD [OF open_dev_serial_opens(1) [OF o]]
  have fst: "fst (add_device d) = Some ?a" using False by (simp add: add_device_eq)
  let ?u = "upd_device ?a (\<lambda>_. dev) y"
  have eq: "init_devices_serial d = (if r = - 1 then remove_device ?a ?u
      else broadcast_event (EvDev DEV_ADD (d_id dev) (d_type dev) (0, 0)) ?u)"
    using False by (simp add: init_devices_serial_def Let_def split_beta fst x_def [symmetric] added_get [OF x] o)
  have u: "added dev d ?u"
    using fr n by (intro added_upd [OF assms x]) simp_all
  show ?thesis
  proof (cases "r = 0")
    case True
    have ready: "serial_ready (t_open (e_tty (envt x) (d_path n))) dev"
      using open_dev_serial_outcome [OF o] fr(3) True by simp
    then have "dev_ready dev"
      using fr(2,4) n True serial_ready_wf by (auto simp: dev_ready_def serial_ready_def plain_node_def)
    then have "devices_wf ?u"
      using False fr n by (intro added_wf [OF assms u]) simp_all
    then have "devices_wf (init_devices_serial d)"
      using True eq same_devices_wf [OF same_devices_ops(3) [OF same_devices_refl]] by simp
    with True u ready fr n show ?thesis
      by (auto simp: eq broadcast_event_eq init_result_def added_def serial_ready_def)
  next
    case no: False
    with fr have r: "r = - 1" by simp
    have "fault (remove_device ?a ?u)"
      if "t_open (e_tty (envt d) ?path) \<noteq> - 1" "t_isatty (e_tty (envt d) ?path)"
    proof (cases "mem x (fresh x)")
      case True
      with open_dev_serial_outcome [OF o] r that x n
      have "d_dangling dev" "d_data dev \<noteq> None" "d_close dev = Some Serial_driver" by (auto simp: added_def)
      then show ?thesis by (intro remove_dangling [OF added_get [OF u]])
    next
      case False
      with o that x n have "fault y"
        by (auto simp: open_dev_serial_def added_def calloc_def emit_def Let_def split: if_splits)
      then show ?thesis by (intro remove_device_fault) (simp add: upd_device_sel)
    qed
    with r added_undo [OF assms u] show ?thesis by (auto simp: eq init_result_def Let_def)
  qed
qed

lemma init_devices_serial_wf: "devices_wf d \<Longrightarrow> devices_wf (init_devices_serial d)"
  using init_devices_serial_cases [of d] by (simp add: init_result_def)

lemma same_devices_fold: "(\<And>x y. same_devices d y \<Longrightarrow> same_devices d (f x y)) \<Longrightarrow> same_devices d y \<Longrightarrow>
    same_devices d (fold f xs y)"
  by (induction xs arbitrary: y) auto

lemma same_devices_fold_snd: "(\<And>x p. same_devices d (snd p) \<Longrightarrow> same_devices d (snd (f x p))) \<Longrightarrow>
    same_devices d (snd p) \<Longrightarrow> same_devices d (snd (fold f xs p))"
  by (induction xs arbitrary: p) auto

lemma parse_line_same: "same_devices d (snd p) \<Longrightarrow> same_devices d (snd (parse_line l p))"
proof -
  have "same_devices d (snd q) \<Longrightarrow> same_devices d (snd (add_handler tok q))" for tok q
    by (auto simp: add_handler_def split_beta Let_def intro!: same_devices_ops)
  from same_devices_fold_snd [of d add_handler, OF this] show "same_devices d (snd p) \<Longrightarrow> ?thesis"
    by (auto simp: parse_line_def name_line_def handlers_line_def split_beta Let_def split: option.split
        intro!: same_devices_ops)
qed

lemma add_match_same: "same_devices d (snd p) \<Longrightarrow> same_devices d (snd (add_match di p))"
  by (auto simp: add_match_def split_beta Let_def split: option.split bool.split intro!: same_devices_ops)

lemma parse_section_same: "same_devices d (snd p) \<Longrightarrow> same_devices d (snd (parse_section sect p))"
  using same_devices_fold_snd [of d parse_line "(no_dev_info, snd p)" "split_lines sect", OF parse_line_same]
  by (auto simp: parse_section_def split_beta Let_def intro!: add_match_same)

lemma detect_node_same: "same_devices d (snd p) \<Longrightarrow> same_devices d (snd (detect_node str p))"
  by (auto simp: detect_node_def split_beta Let_def intro!: same_devices_ops add_match_same)

lemma find_usb_devices_same: "same_devices d (snd (find_usb_devices d))"
  unfolding find_usb_devices_def detect_proc_def
  by (auto simp: split_beta Let_def split: option.split
      intro!: same_devices_fold_snd parse_section_same detect_node_same same_devices_ops)

lemma open_buttons_frame:
  "d_addr (open_buttons n dev) = d_addr dev" "d_path (open_buttons n dev) = d_path dev"
  "d_id (open_buttons n dev) = d_id dev" "d_data (open_buttons n dev) = d_data dev"
  by (simp_all add: open_buttons_def Let_def split: option.split)

lemma open_led_same: "same_devices d x \<Longrightarrow> same_devices d (open_led dev x)"
  by (auto simp: open_led_def split_beta Let_def intro!: same_devices_ops)

lemma open_dev_usb_opens:
  assumes "open_dev_usb dev d = (r, dev', d')"
  shows "opens dev d r dev' d'" "d_data dev' = d_data dev"
proof -
  have "same_devices d (snd (calloc (snd (calloc (snd (calloc d))))))"
    by (intro same_devices_ops same_devices_refl)
  with assms show "opens dev d r dev' d'" "d_data dev' = d_data dev"
    by (auto simp: open_dev_usb_def open_ranges_def Let_def split_beta open_buttons_frame opens_def
        split: if_splits intro!: same_devices_ops open_led_same)
qed

lemma sixdof_flags_frame:
  "d_addr (sixdof_flags dev) = d_addr dev" "d_path (sixdof_flags dev) = d_path dev"
  "evdev_ready (sixdof_flags dev) = evdev_ready dev" "d_data (sixdof_flags dev) = d_data dev"
  "d_read (sixdof_flags dev) = d_read dev"
  by (simp_all add: sixdof_flags_def evdev_ready_def Let_def)

lemma sixdof_flags_axes: "d_flags (sixdof_flags dev) AND DF_6DOF \<noteq> 0 \<Longrightarrow> num_axes (sixdof_flags dev) = 6"
proof -
  have "NOT 3 AND 3 = (0 :: u32)" by simp
  then have "(w AND - 4) AND 3 = 0" for w :: u32 by (simp add: and.assoc)
  then show "d_flags (sixdof_flags dev) AND DF_6DOF \<noteq> 0 \<Longrightarrow> num_axes (sixdof_flags dev) = 6"
    by (auto simp: sixdof_flags_def Let_def split: if_splits)
qed

lemma open_usb_files_wf:
  "devices_wf d \<Longrightarrow> env_ok d \<Longrightarrow> devices_wf (open_usb_files di paths d) \<and> env_ok (open_usb_files di paths d)"
proof (induction di paths d rule: open_usb_files.induct)
  case (2 di path paths d)
  note wf = "2.prems"
  let ?a = "fresh d"
  show ?case
  proof (cases "dev_path_in_use path d \<noteq> None \<or> \<not> mem d ?a")
    case True
    with wf show ?thesis by (auto simp: add_device_eq env_ok_def intro: devices_wf_cong)
  next
    case False
    define n where "n = new_usb_device di path (new_device ?a (int (unat (last_id d))))"
    define x where "x = upd_device ?a (new_usb_device di path) (snd (add_device d))"
    have n: "d_addr n = ?a" "d_path n = path" "d_data n = None"
      by (simp_all add: n_def new_usb_device_def Let_def)
    have x: "added n d x"
      using False n unfolding x_def n_def by (intro added_new [OF wf(1)]) simp_all
    obtain r dev y where o: "open_dev_usb n x = (r, dev, y)" by (metis prod_cases3)
    note fr = opensD [OF open_dev_usb_opens(1) [OF o]] open_dev_usb_opens(2) [OF o]
    have fst: "fst (add_device d) = Some ?a" using False by (simp add: add_device_eq)
    let ?u = "upd_device ?a (\<lambda>_. dev) y" and ?v = "upd_device ?a (\<lambda>_. sixdof_flags dev) y"
    have eq: "open_usb_files di (path # paths) d = (if r = - 1 then open_usb_files di paths (remove_device ?a ?u)
        else broadcast_event (dev_event DEV_ADD (sixdof_flags dev)) ?v)"
      using False by (simp add: split_beta Let_def fst x_def [symmetric] added_get [OF x] o)
    have u: "added dev d ?u" and v: "added (sixdof_flags dev) d ?v"
      using fr n by (auto intro!: added_upd [OF wf(1) x] simp: sixdof_flags_frame)
    show ?thesis
    proof (cases "r = 0")
      case True
      have "- 1 \<le> n_fd (e_node (envt x) (d_path n))" using x wf(2) by (simp add: added_def env_ok_def)
      with open_dev_usb_outcome [OF o [unfolded True]] have "evdev_ready dev" by simp
      then have "dev_ready (sixdof_flags dev)"
        using fr n sixdof_flags_axes by (auto simp: dev_ready_def sixdof_flags_frame) (simp_all add: evdev_ready_def)
      then have "devices_wf ?v"
        using False fr n by (intro added_wf [OF wf(1) v]) (simp_all add: sixdof_flags_frame)
      moreover have "env_ok ?v" using v wf(2) by (simp add: added_def env_ok_def)
      ultimately show ?thesis
        using True eq same_devices_wf [OF same_devices_ops(3) [OF same_devices_refl]]
        by (simp add: env_ok_def broadcast_event_eq)
    next
      case False
      with fr have r: "r = - 1" by simp
      have "devices_wf (remove_device ?a ?u)" "env_ok (remove_device ?a ?u)"
        using added_undo [OF wf(1) u] wf(2) by (simp_all add: env_ok_def)
      moreover have add: "(Some ?a, snd (add_device d)) = add_device d"
        by (metis fst prod.collapse)
      moreover have "devices_wf (remove_device ?a ?u) \<Longrightarrow> env_ok (remove_device ?a ?u) \<Longrightarrow>
          devices_wf (open_usb_files di paths (remove_device ?a ?u)) \<and> env_ok (open_usb_files di paths (remove_device ?a ?u))"
        using "2.IH" [of "add_device d" "fst (add_device d)" "snd (add_device d)" ?a x "(r, dev, y)" r "(dev, y)" dev y]
          \<open>\<not> (dev_path_in_use path d \<noteq> None \<or> \<not> mem d ?a)\<close> r fst add
        by (simp add: x_def added_get [OF x, unfolded x_def] o [unfolded x_def])
      ultimately show ?thesis using r eq by simp
    qed
  qed
qed simp

lemma init_devices_usb_wf:
  assumes "devices_wf d" "env_ok d"
  shows "devices_wf (snd (init_devices_usb d)) \<and> env_ok (snd (init_devices_usb d))"
proof -
  have "devices_wf (fold (\<lambda>di. open_usb_files di (ud_devfiles di)) devs x) \<and>
      env_ok (fold (\<lambda>di. open_usb_files di (ud_devfiles di)) devs x)" if "devices_wf x" "env_ok x" for devs x
    using that by (induction devs arbitrary: x) (simp_all add: open_usb_files_wf)
  moreover have "devices_wf (snd (find_usb_devices d))" "env_ok (snd (find_usb_devices d))"
    using same_devices_wf [OF find_usb_devices_same assms(1)] find_usb_devices_same [of d] assms(2)
    by (simp_all add: same_devices_def env_ok_def)
  ultimately show ?thesis by (simp add: init_devices_usb_def split_beta Let_def)
qed

text \<open>Reading from a device keeps the list well formed, or removes the device that failed.\<close>

lemma same_node_ready:
  "dev_ready dev \<Longrightarrow> d_read dev = Some Serial_driver \<Longrightarrow> same_node dev dev' \<Longrightarrow> d_data dev' \<noteq> None \<Longrightarrow>
     serial_wf dev' \<Longrightarrow> dev_ready dev'"
  by (auto simp: dev_ready_def same_node_def)

lemma upd_device_wf:
  assumes "devices_wf d" "get_device a d = Some dev" "d_addr dev' = a" "d_path dev' = d_path dev" "dev_ready dev'"
  shows "devices_wf (upd_device a (\<lambda>_. dev') d)"
proof -
  have uniq: "x = dev" if "x \<in> set (dev_list d)" "d_addr x = a" for x
    using that assms(1,2) get_device_in by fastforce
  then have "map d_addr (dev_list (upd_device a (\<lambda>_. dev') d)) = map d_addr (dev_list d)"
    "map d_path (dev_list (upd_device a (\<lambda>_. dev') d)) = map d_path (dev_list d)"
    using assms(3,4) by (auto simp: upd_device_def)
  with assms show ?thesis
    by (auto simp: devices_wf_def list_all_iff upd_device_sel) (auto simp: upd_device_def)
qed

lemma read_device_wf:
  assumes "devices_wf d"
  shows "devices_wf (snd (snd (read_device a inp d)))"
proof (cases "get_device a d")
  case None
  with assms show ?thesis by (auto simp: read_device_def intro: devices_wf_cong)
next
  case (Some dev)
  then have dev: "dev_ready dev" "d_addr dev = a" "dev \<in> set (dev_list d)"
    using assms get_device_Some by (auto simp: devices_wf_def list_all_iff)
  have "devices_wf (snd (snd (read_serial dev inp d)))" if ser: "d_read dev = Some Serial_driver"
  proof -
    obtain sb where sb: "d_data dev = Some sb" using dev(1) ser by (auto simp: dev_ready_def)
    let ?dev = "snd (fst (read_dev_serial (serial_in d (sb_fd sb)) dev))"
    have "serial_wf ?dev"
      using serial_read.step_inv [of dev] dev(1) ser by (simp add: serial_after_def dev_ready_def)
    then have "dev_ready ?dev"
      using dev(1) ser sb by (intro same_node_ready [OF _ _ read_dev_serial_node read_dev_serial_data]) simp_all
    moreover have "d_addr ?dev = a" "d_path ?dev = d_path dev"
      using read_dev_serial_node [of dev] dev(2) by (simp_all add: same_node_def)
    ultimately have "devices_wf (upd_device a (\<lambda>_. ?dev) (d\<lparr>serial_in := f\<rparr>))" for f
      using assms Some by (intro upd_device_wf [where dev = dev]) (auto simp: get_device_def intro: devices_wf_cong)
    then show ?thesis
      using sb assms dev(2) by (auto simp: read_serial_def split_beta Let_def split: option.split intro: devices_wf_cong)
  qed
  moreover have "devices_wf (snd (snd (read_evdev dev inp d)))"
  proof -
    have "devices_wf (d\<lparr>evdev_in := f\<rparr>)" "devices_wf (d\<lparr>evdev_in := f, fault := b\<rparr>)" for f b
      using assms by (auto intro: devices_wf_cong)
    then show ?thesis
      using assms by (auto simp: read_evdev_def split_beta Let_def remove_device_wf split: list.split evdev_read.split)
  qed
  moreover have "d_read dev = Some Serial_driver \<or> d_read dev = Some Evdev_driver"
    using dev(1) by (auto simp: dev_ready_def evdev_ready_def split: if_splits)
  moreover have "devices_wf (x\<lparr>fault := b\<rparr>) = devices_wf x" for x b
    by (simp add: devices_wf_def)
  ultimately show ?thesis
    using Some by (auto simp: read_device_def split_beta Let_def)
qed

text \<open>So does a change of the configuration.\<close>

lemma led_changed_same: "same_devices d (led_changed d)"
  unfolding led_changed_def
  by (auto simp: split_beta Let_def intro!: same_devices_fold same_devices_ops)

lemma remove_device_fresh: "fresh d \<le> fresh (remove_device a d)"
  using remove_device_list(2) [of a d] by (simp add: same_devices_def)

lemma serial_changed_wf: "devices_wf d \<Longrightarrow> devices_wf (serial_changed d) \<and> fresh d \<le> fresh (serial_changed d)"
proof -
  assume wf: "devices_wf d"
  let ?fold = "\<lambda>devs x. fold (\<lambda>dev d. if d_path dev = serial_dev (prev_cfg d) then remove_device (d_addr dev) d else d) devs x"
  have "devices_wf x \<Longrightarrow> devices_wf (?fold devs x) \<and> fresh x \<le> fresh (?fold devs x)" for devs :: "device list" and x
  proof (induction devs arbitrary: x)
    case (Cons dev devs)
    let ?x = "if d_path dev = serial_dev (prev_cfg x) then remove_device (d_addr dev) x else x"
    have "devices_wf ?x" "fresh x \<le> fresh ?x" using Cons.prems by (simp_all add: remove_device_wf remove_device_fresh)
    with Cons.IH [OF this(1)] show ?case by (simp only: fold_simps comp_apply) (blast intro: order_trans)
  qed simp
  from this [OF wf, of "dev_list d"]
  have f: "devices_wf (?fold (dev_list d) d)" "fresh d \<le> fresh (?fold (dev_list d) d)" by simp_all
  from init_devices_serial_cases [OF f(1)] f(2) wf
  have "devices_wf (init_devices_serial (?fold (dev_list d) d)) \<and> fresh d \<le> fresh (init_devices_serial (?fold (dev_list d) d))"
    unfolding init_result_def by (blast intro: order_trans)
  with wf show ?thesis by (simp only: serial_changed_def split: if_split) simp
qed

lemma cfg_changed_fresh: "devices_wf d \<Longrightarrow> devices_wf (cfg_changed d) \<and> fresh d \<le> fresh (cfg_changed d)"
proof -
  assume wf: "devices_wf d"
  have "fresh d \<le> fresh (led_changed d)" using led_changed_same [of d] by (simp add: same_devices_def)
  with serial_changed_wf [OF same_devices_wf [OF led_changed_same wf]] show ?thesis
    by (simp add: cfg_changed_def Let_def devices_wf_cong [of _ "serial_changed (led_changed d)"])
qed

lemma cfg_changed_wf: "devices_wf d \<Longrightarrow> devices_wf (cfg_changed d)"
  by (simp add: cfg_changed_fresh)

section \<open>The operations as steps\<close>

lemma init_devices_serial_env: "devices_wf d \<Longrightarrow> envt (init_devices_serial d) = envt d"
  using init_devices_serial_cases [of d] by (auto simp: init_result_def)

lemma remove_device_env: "envt (remove_device a d) = envt d"
  using remove_device_list(2) [of a d] by (simp add: same_devices_def)

lemma read_device_env: "envt (snd (snd (read_device a inp d))) = envt d"
  by (auto simp: read_device_def read_serial_def read_evdev_def split_beta Let_def upd_device_sel remove_device_env
      split: option.split driver.split list.split evdev_read.split)

lemma cfg_changed_env: "devices_wf d \<Longrightarrow> envt (cfg_changed d) = envt d"
proof -
  assume wf: "devices_wf d"
  let ?fold = "fold (\<lambda>dev d. if d_path dev = serial_dev (prev_cfg d) then remove_device (d_addr dev) d else d)"
  have "devices_wf x \<Longrightarrow> devices_wf (?fold devs x) \<and> envt (?fold devs x) = envt x"
    for devs :: "device list" and x
    by (induction devs arbitrary: x) (simp_all add: remove_device_wf remove_device_env)
  then have "devices_wf x \<Longrightarrow> envt (serial_changed x) = envt x" for x
    by (simp add: serial_changed_def init_devices_serial_env)
  with same_devices_wf [OF led_changed_same wf] led_changed_same [of d] show ?thesis
    by (simp add: cfg_changed_def Let_def same_devices_def)
qed

text \<open>The daemon looks for devices, removes one, reads from one, and follows a new configuration.\<close>

datatype device_op = Scan | Unplug nat | Input nat dev_input | Reconfigure cfg

fun device_step :: "device_op \<Rightarrow> daemon \<Rightarrow> daemon" where
  "device_step Scan d = init_devices d"
| "device_step (Unplug a) d = remove_device a d"
| "device_step (Input a inp) d = snd (snd (read_device a inp d))"
| "device_step (Reconfigure c) d = cfg_changed (d\<lparr>cfg := c\<rparr>)"

definition devices_inv :: "daemon \<Rightarrow> bool" where
  "devices_inv d \<longleftrightarrow> devices_wf d \<and> env_ok d"

interpretation device_ops: step_invariant device_step devices_inv
proof
  fix d op assume inv: "devices_inv d"
  have cong: "env_ok x \<Longrightarrow> envt y = envt x \<Longrightarrow> env_ok y" for x y by (simp add: env_ok_def)
  show "devices_inv (device_step op d)"
  proof (cases op)
    case Scan
    have "devices_wf (init_devices_serial d)" "env_ok (init_devices_serial d)"
      using inv by (auto simp: devices_inv_def init_devices_serial_wf init_devices_serial_env intro: cong)
    with Scan init_devices_usb_wf show ?thesis by (simp add: devices_inv_def init_devices_def)
  next
    case (Unplug a)
    with inv show ?thesis by (auto simp: devices_inv_def remove_device_wf remove_device_env intro: cong)
  next
    case (Input a i)
    with inv show ?thesis by (auto simp: devices_inv_def read_device_wf read_device_env intro: cong)
  next
    case (Reconfigure c)
    from inv have "devices_wf (d\<lparr>cfg := c\<rparr>)" by (auto simp: devices_inv_def intro: devices_wf_cong)
    with inv Reconfigure show ?thesis by (auto simp: devices_inv_def cfg_changed_wf cfg_changed_env intro: cong)
  qed
qed

section \<open>Properties\<close>

text \<open>
  C18: however devices are found, unplugged, read from (a device that fails is removed) and the configuration
  changed, no node of the file system is open twice, every node in the list can be found at its
  address, and every device in the list is open and complete: a serial device has its state, parser
  queue and functions, a USB device a range for each axis, at least one button and all functions of
  the driver, and the devices treated as having six degrees of freedom have six axes.
\<close>

theorem device_list_invariant:
  assumes "devices_inv d"
  shows "let d' = fold device_step ops d in
    distinct (map d_path (dev_list d')) \<and>
    list_all (\<lambda>dev. dev_ready dev \<and> get_device (d_addr dev) d' = Some dev) (dev_list d')"
proof -
  have "devices_wf (fold device_step ops d)"
    using device_ops.run_inv [OF assms] by (simp add: devices_inv_def)
  then show ?thesis
    by (auto simp: Let_def list_all_iff get_device_in) (auto simp: devices_wf_def list_all_iff)
qed

theorem device_list_invariant_witness:
  "let d = fold device_step [Scan, Scan] (start_state\<lparr>cfg := default_cfg\<lparr>serial_dev := ''/dev/ttyS0''\<rparr>,
      envt := bare_environment\<lparr>e_tty := \<lambda>_. tty_sample\<rparr>\<rparr>)
   in distinct (map d_path (dev_list d)) \<and> length (dev_list d) = 1"
proof -
  let ?d = "start_state\<lparr>cfg := default_cfg\<lparr>serial_dev := ''/dev/ttyS0''\<rparr>, envt := bare_environment\<lparr>e_tty := \<lambda>_. tty_sample\<rparr>\<rparr>"
  have "devices_inv ?d"
    by (simp add: devices_inv_def devices_wf_def env_ok_def) (simp add: bare_environment_def no_node_def tty_sample_def)
  from device_list_invariant [OF this, of "[Scan, Scan]"]
  have "distinct (map d_path (dev_list (fold device_step [Scan, Scan] ?d)))" by (simp add: Let_def)
  moreover have "length (dev_list (fold device_step [Scan, Scan] ?d)) = 1" by code_simp
  ultimately show ?thesis by (simp add: Let_def)
qed

text \<open>
  C19: removing a device takes it out of the list, drops the event that is pending for it, restores the
  terminal (serial) or turns the LED off (USB), closes its file descriptor once, and then tells every client
  that wants to know; nothing that has been freed is used.
\<close>

theorem remove_device_result:
  assumes "devices_wf d" "get_device a d = Some dev"
  shows "let d' = remove_device a d in
    dev_list d' = filter (\<lambda>x. d_addr x \<noteq> a) (dev_list d) \<and> get_device a d' = None \<and>
    dev_ev_list d' = filter (\<lambda>e. de_dev e \<noteq> a) (dev_ev_list d) \<and> fault d' = fault d \<and>
    out d' = out d @
      (if d_read dev = Some Serial_driver
       then [Tcsetattr (d_fd dev) (t_saved (e_tty (envt d) (d_path dev)))] else [Led (d_fd dev) 0]) @
      [Close (d_fd dev)] @ deliver_all d' (EvDev DEV_RM (d_id dev) (d_type dev) (d_usbid dev)) (client_list d)"
proof -
  have ready: "dev_ready dev"
    using assms get_device_Some by (auto simp: devices_wf_def list_all_iff)
  have none: "get_device a (remove_device a d) = None"
    by (simp add: get_device_def search_None_iff remove_device_list(1))
  have deliver: "deliver_all (d\<lparr>dev_list := xs, dev_ev_list := es, out := os\<rparr>) ev cs =
      deliver_all (d\<lparr>dev_list := xs, dev_ev_list := es, client_iter := i, out := os'\<rparr>) ev cs" for xs es os i os' ev cs
    by (rule deliver_all_cong [THEN fun_cong, THEN fun_cong]) simp_all
  show ?thesis
  proof (cases "d_read dev = Some Serial_driver")
    case True
    then have "d_close dev = Some Serial_driver" "d_data dev \<noteq> None" "\<not> d_dangling dev"
      using ready by (simp_all add: dev_ready_def)
    with True assms none show ?thesis
      by (auto simp: remove_device_def remove_dev_event_def call_close_def close_dev_serial_def stty_restore_def
          broadcast_event_eq dev_event_def emit_def Let_def intro!: deliver)
  next
    case False
    then have "d_close dev = Some Evdev_driver" "0 \<le> d_fd dev" "d_set_led dev = Some Evdev_driver"
      using ready by (simp_all add: dev_ready_def evdev_ready_def)
    with False assms none show ?thesis
      by (auto simp: remove_device_def remove_dev_event_def call_close_def close_evdev_def set_device_led_def
          set_led_evdev_def broadcast_event_eq dev_event_def emit_def Let_def intro!: deliver)
  qed
qed

theorem remove_device_result_witness:
  "let d = remove_device 0 (snd (snd (read_device 0 (button 0 True)
      (init_devices (start_state\<lparr>cfg := default_cfg\<lparr>serial_dev := ''/dev/ttyS0''\<rparr>,
         envt := bare_environment\<lparr>e_tty := \<lambda>_. tty_sample\<rparr>\<rparr>)))))
   in dev_list d = [] \<and> \<not> fault d"
proof -
  let ?s = "start_state\<lparr>cfg := default_cfg\<lparr>serial_dev := ''/dev/ttyS0''\<rparr>, envt := bare_environment\<lparr>e_tty := \<lambda>_. tty_sample\<rparr>\<rparr>"
  let ?d = "snd (snd (read_device 0 (button 0 True) (init_devices ?s)))"
  have "devices_inv ?s"
    by (simp add: devices_inv_def devices_wf_def env_ok_def) (simp add: bare_environment_def no_node_def tty_sample_def)
  then have "devices_wf ?d"
    using device_ops.run_inv [of ?s "[Scan, Input 0 (button 0 True)]"] by (simp add: devices_inv_def)
  moreover have "map d_addr (dev_list ?d) = [0] \<and> fault ?d = False" by code_simp
  moreover from this obtain dev where "get_device 0 ?d = Some dev" and "dev_list ?d = [dev]" "d_addr dev = 0"
    by (auto simp: get_device_def)
  ultimately show ?thesis using remove_device_result [of ?d 0 dev] by (simp add: Let_def)
qed

text \<open>
  C24: if the configured serial device is a terminal that is not yet in use and can be opened, either a device is
  found on it and added, or (nothing answers, or there is no memory) the list is as before but the daemon has
  used freed memory or a null pointer: after \<open>open_dev_serial\<close> has freed the driver's state,
  \<open>remove_device\<close> calls the driver's \<open>close\<close>, which closes and frees it again.
\<close>

theorem serial_device_found_or_freed_twice:
  assumes "devices_wf d" "path = serial_dev (cfg d)" "path \<noteq> []" "dev_path_in_use path d = None"
    and "t_stat (e_tty (envt d) path) = Some True" "t_open (e_tty (envt d) path) \<noteq> - 1" "t_isatty (e_tty (envt d) path)"
  shows "let d' = init_devices_serial d in
    (\<exists>dev. dev_list d' = dev # dev_list d \<and> d_path dev = path \<and> dev_ready dev) \<or> dev_list d' = dev_list d \<and> fault d'"
  using init_devices_serial_cases [OF assms(1)] assms(2-)
  by (auto simp: init_result_def devices_wf_def Let_def split: if_splits)

theorem serial_device_found_or_freed_twice_witness:
  "fault (init_devices_serial (start_state\<lparr>cfg := default_cfg\<lparr>serial_dev := ''/dev/ttyS0''\<rparr>,
      envt := bare_environment\<lparr>e_tty := \<lambda>_. tty_sample\<lparr>t_polls_sball := [Idle 2000000], t_polls_mag := [Idle 2000000]\<rparr>\<rparr>\<rparr>))"
proof -
  let ?d = "start_state\<lparr>cfg := default_cfg\<lparr>serial_dev := ''/dev/ttyS0''\<rparr>,
      envt := bare_environment\<lparr>e_tty := \<lambda>_. tty_sample\<lparr>t_polls_sball := [Idle 2000000], t_polls_mag := [Idle 2000000]\<rparr>\<rparr>\<rparr>"
  have "dev_list (init_devices_serial ?d) = []" by code_simp
  moreover have "devices_wf ?d" by (simp add: devices_wf_def)
  ultimately show ?thesis
    using serial_device_found_or_freed_twice [of ?d "''/dev/ttyS0''"]
    by (simp add: Let_def tty_sample_def dev_path_in_use_def)
qed

end
