(* ===== verification/DeviceFrame.thy ===== *)
theory DeviceFrame
  imports Devices
begin

text \<open>
  What the operations on devices leave alone. \<open>host\<close> blanks the part of the state that they may change:
  the list of devices with its pending events and inputs, the iterator over the clients, the allocator,
  the output, the previous configuration and the record of faults. Two states with the same \<open>host\<close> agree in
  everything else: the configuration, the clients and their input, the sockets, the displays, and the
  responses to requests that have been written.
\<close>

fun is_reply :: "effect \<Rightarrow> bool" where
  "is_reply (Reply fd rr) = True"
| "is_reply _ = False"

definition replies :: "daemon \<Rightarrow> effect list" where
  "replies d = filter is_reply (out d)"

definition host :: "daemon \<Rightarrow> daemon" where
  "host d = d\<lparr>dev_list := [], last_id := 0, client_iter := None, dev_ev_list := [], fresh := 0, out := replies d,
     fault := False, prev_cfg := default_cfg, serial_in := (\<lambda>_. []), evdev_in := (\<lambda>_. [])\<rparr>"

lemma host_sel:
  assumes "host d' = host d"
  shows "cfg d' = cfg d" "client_list d' = client_list d" "sock_in d' = sock_in d" "lsock d' = lsock d"
    "cff d' = cff d" "envt d' = envt d" "accept_in d' = accept_in d" "mem d' = mem d" "dpy d' = dpy d"
    "x_in d' = x_in d" "hotplug_fd d' = hotplug_fd d" "poll_pipe d' = poll_pipe d" "pipe_in d' = pipe_in d"
    "delay_pending d' = delay_pending d" "delay_pipe d' = delay_pipe d" "sig_pipe d' = sig_pipe d"
    "kb_send d' = kb_send d" "kb_dpy d' = kb_dpy d" "uinput_fd d' = uinput_fd d" "sock_own d' = sock_own d"
    "cur_axis_mag d' = cur_axis_mag d" "cur_dom_axis d' = cur_dom_axis d" "x11_sens d' = x11_sens d"
    "disable_translation d' = disable_translation d" "disable_rotation d' = disable_rotation d"
    "dom_axis_mode d' = dom_axis_mode d" "x_keycode d' = x_keycode d" "clock d' = clock d" "ticks d' = ticks d"
    "replies d' = replies d"
proof -
  have "cfg (host d') = cfg (host d)" "client_list (host d') = client_list (host d)" "sock_in (host d') = sock_in (host d)"
    "lsock (host d') = lsock (host d)" "cff (host d') = cff (host d)" "envt (host d') = envt (host d)"
    "accept_in (host d') = accept_in (host d)" "mem (host d') = mem (host d)" "dpy (host d') = dpy (host d)"
    "x_in (host d') = x_in (host d)" "hotplug_fd (host d') = hotplug_fd (host d)" "poll_pipe (host d') = poll_pipe (host d)"
    "pipe_in (host d') = pipe_in (host d)" "delay_pending (host d') = delay_pending (host d)"
    "delay_pipe (host d') = delay_pipe (host d)" "sig_pipe (host d') = sig_pipe (host d)"
    "kb_send (host d') = kb_send (host d)" "kb_dpy (host d') = kb_dpy (host d)" "uinput_fd (host d') = uinput_fd (host d)"
    "sock_own (host d') = sock_own (host d)" "cur_axis_mag (host d') = cur_axis_mag (host d)"
    "cur_dom_axis (host d') = cur_dom_axis (host d)" "x11_sens (host d') = x11_sens (host d)"
    "disable_translation (host d') = disable_translation (host d)" "disable_rotation (host d') = disable_rotation (host d)"
    "dom_axis_mode (host d') = dom_axis_mode (host d)" "x_keycode (host d') = x_keycode (host d)"
    "clock (host d') = clock (host d)" "ticks (host d') = ticks (host d)" "out (host d') = out (host d)"
    using assms by simp_all
  then show "cfg d' = cfg d" "client_list d' = client_list d" "sock_in d' = sock_in d" "lsock d' = lsock d"
    "cff d' = cff d" "envt d' = envt d" "accept_in d' = accept_in d" "mem d' = mem d" "dpy d' = dpy d"
    "x_in d' = x_in d" "hotplug_fd d' = hotplug_fd d" "poll_pipe d' = poll_pipe d" "pipe_in d' = pipe_in d"
    "delay_pending d' = delay_pending d" "delay_pipe d' = delay_pipe d" "sig_pipe d' = sig_pipe d"
    "kb_send d' = kb_send d" "kb_dpy d' = kb_dpy d" "uinput_fd d' = uinput_fd d" "sock_own d' = sock_own d"
    "cur_axis_mag d' = cur_axis_mag d" "cur_dom_axis d' = cur_dom_axis d" "x11_sens d' = x11_sens d"
    "disable_translation d' = disable_translation d" "disable_rotation d' = disable_rotation d"
    "dom_axis_mode d' = dom_axis_mode d" "x_keycode d' = x_keycode d" "clock d' = clock d" "ticks d' = ticks d"
    "replies d' = replies d"
    by (simp_all add: host_def)
qed

lemma host_fields [daemon_frame]:
  "host (d\<lparr>fault := b\<rparr>) = host d" "host (d\<lparr>client_iter := p\<rparr>) = host d"
  "host (d\<lparr>dev_list := ds\<rparr>) = host d" "host (d\<lparr>dev_ev_list := evs\<rparr>) = host d" "host (d\<lparr>fresh := n\<rparr>) = host d"
  "host (d\<lparr>last_id := i\<rparr>) = host d" "host (d\<lparr>prev_cfg := c\<rparr>) = host d" "host (d\<lparr>serial_in := f\<rparr>) = host d"
  "host (d\<lparr>evdev_in := g\<rparr>) = host d"
  by (simp_all add: host_def replies_def)

lemma host_out: "filter is_reply es = [] \<Longrightarrow> host (d\<lparr>out := out d @ es\<rparr>) = host d"
  by (simp add: host_def replies_def)

lemma host_emit [daemon_frame]: "\<not> is_reply e \<Longrightarrow> host (emit e d) = host d"
  by (simp add: emit_def host_out)

lemma deliver_no_reply: "filter is_reply (deliver_all d ev cs) = []"
  by (auto simp: deliver_all_def deliver_def filter_empty_conv
      split: client_type.splits if_splits spnav_event.splits option.splits)

lemma host_broadcast [daemon_frame]: "host (broadcast_event ev d) = host d"
  using host_out [OF deliver_no_reply, of "d\<lparr>client_iter := client_at (client_list d)\<rparr>" d]
  by (simp add: broadcast_event_eq daemon_frame)

lemma host_led [daemon_frame]: "host (set_device_led dev st d) = host d"
  using host_out [of "led_effects st dev" d] by (simp add: set_device_led_out led_effects_def)

lemma host_fold: "(\<And>x y. host (f x y) = host y) \<Longrightarrow> host (fold f xs d) = host d"
  by (induction xs arbitrary: d) simp_all

lemma host_fold_snd: "(\<And>x p. host (snd (f x p)) = host (snd p)) \<Longrightarrow> host (snd (fold f xs p)) = host (snd p)"
  by (induction xs arbitrary: p) simp_all

lemma host_basic [daemon_frame]:
  "host (remove_dev_event a d) = host d" "host (snd (calloc d)) = host d" "host (snd (first_client d)) = host d"
  "host (set_led_evdev dev st d) = host d" "host (upd_device a f d) = host d" "host (snd (add_device d)) = host d"
  by (simp_all add: remove_dev_event_def calloc_def first_client_def
      set_led_evdev_def upd_device_def add_device_eq Let_def daemon_frame)

lemma host_close [daemon_frame]: "host (snd (call_close dev d)) = host d"
  by (simp add: call_close_def close_dev_serial_def close_evdev_def stty_restore_def Let_def daemon_frame
      split: option.split driver.split)

lemma host_remove_device [daemon_frame]: "host (remove_device a d) = host d"
  by (simp add: remove_device_def split_beta Let_def daemon_frame split: option.split)

section \<open>Opening\<close>

lemma host_printable [daemon_frame]: "host (snd (printable reply d)) = host d"
  by (simp add: printable_def split_beta Let_def daemon_frame)

lemma host_detected [daemon_frame]: "host (snd (detected proto name reply dev d)) = host d"
  by (simp add: detected_def split_beta Let_def daemon_frame)

lemma host_serial_fail [daemon_frame]: "host (snd (snd (serial_fail fd t dev d))) = host d"
  by (simp add: serial_fail_def stty_restore_def daemon_frame)

lemma host_probe_magellan [daemon_frame]: "host (snd (snd (probe_magellan fd t dev d))) = host d"
  by (simp add: probe_magellan_def stty_mag_def split_beta Let_def daemon_frame split: option.split)

lemma host_probe_spaceball [daemon_frame]: "host (snd (snd (probe_spaceball fd t dev d))) = host d"
  by (simp add: probe_spaceball_def stty_sball_def split_beta Let_def daemon_frame split: option.split)

lemma host_open_dev_serial [daemon_frame]: "host (snd (snd (open_dev_serial dev d))) = host d"
  by (simp add: open_dev_serial_def split_beta Let_def daemon_frame)

lemma host_init_devices_serial [daemon_frame]: "host (init_devices_serial d) = host d"
  by (simp add: init_devices_serial_def split_beta Let_def daemon_frame split: option.split)

lemma host_open_led [daemon_frame]: "host (open_led dev d) = host d"
  by (simp add: open_led_def split_beta Let_def daemon_frame)

lemma host_open_dev_usb [daemon_frame]: "host (snd (snd (open_dev_usb dev d))) = host d"
  by (simp add: open_dev_usb_def split_beta Let_def daemon_frame)

lemma host_add_handler: "host (snd (add_handler tok p)) = host (snd p)"
  by (simp add: add_handler_def split_beta Let_def daemon_frame)

lemma host_parse_line: "host (snd (parse_line line p)) = host (snd p)"
  using host_fold_snd [of add_handler _ "([], snd p)", OF host_add_handler]
  by (simp add: parse_line_def name_line_def handlers_line_def split_beta Let_def daemon_frame split: option.split)

lemma host_add_match: "host (snd (add_match di p)) = host (snd p)"
  by (simp add: add_match_def split_beta Let_def daemon_frame split: option.split bool.split)

lemma host_parse_section: "host (snd (parse_section sect p)) = host (snd p)"
  using host_fold_snd [of parse_line "split_lines sect" "(no_dev_info, snd p)", OF host_parse_line]
  by (simp add: parse_section_def split_beta Let_def host_add_match)

lemma host_detect_node: "host (snd (detect_node str p)) = host (snd p)"
  by (simp add: detect_node_def split_beta Let_def host_add_match daemon_frame)

lemma host_find_usb_devices [daemon_frame]: "host (snd (find_usb_devices d)) = host d"
  by (simp add: find_usb_devices_def detect_proc_def split_beta Let_def daemon_frame
      host_fold_snd [of parse_section, OF host_parse_section] host_fold_snd [of detect_node, OF host_detect_node]
      split: option.split)

lemma host_open_usb_files [daemon_frame]: "host (open_usb_files di paths d) = host d"
  by (induction paths arbitrary: d)
    (simp_all add: split_beta Let_def daemon_frame split: option.split)

lemma host_init_devices_usb [daemon_frame]: "host (snd (init_devices_usb d)) = host d"
  by (simp add: init_devices_usb_def split_beta Let_def daemon_frame host_fold)

lemma host_init_devices [daemon_frame]: "host (init_devices d) = host d"
  by (simp add: init_devices_def daemon_frame)

section \<open>Reading, and a change of the configuration\<close>

lemma host_read_serial [daemon_frame]: "host (snd (snd (read_serial dev inp d))) = host d"
  by (simp add: read_serial_def split_beta Let_def daemon_frame split: option.split)

lemma host_read_evdev [daemon_frame]: "host (snd (snd (read_evdev dev inp d))) = host d"
  by (simp add: read_evdev_def split_beta Let_def daemon_frame split: list.split evdev_read.split)

lemma host_read_device [daemon_frame]: "host (snd (snd (read_device a inp d))) = host d"
  by (simp add: read_device_def split_beta Let_def daemon_frame split: option.split driver.split)

lemma host_led_changed [daemon_frame]: "host (led_changed d) = host d"
proof -
  have step: "host (if \<not> is_device_valid (Some dev) then x
      else let (clients, x) = (if led (cfg x) = LED_AUTO then first_client x else (None, x)) in set_device_led dev (g x clients) x)
      = host x" for dev x and g :: "daemon \<Rightarrow> nat option \<Rightarrow> int"
    by (simp add: split_beta Let_def host_led host_basic)
  show ?thesis
  proof (cases "led (cfg d) = led (prev_cfg d)")
    case False
    then show ?thesis unfolding led_changed_def if_not_P [OF False] by (intro host_fold step)
  qed (simp add: led_changed_def)
qed

lemma host_serial_changed [daemon_frame]: "host (serial_changed d) = host d"
  by (simp add: serial_changed_def daemon_frame host_fold)

lemma host_cfg_changed [daemon_frame]: "host (cfg_changed d) = host d"
  by (simp add: cfg_changed_def Let_def daemon_frame)

lemmas cfg_changed_host = host_sel [OF host_cfg_changed]

section \<open>The allocator and the tables of event processing\<close>

definition grows :: "daemon \<Rightarrow> daemon \<Rightarrow> bool" where
  "grows d d' \<longleftrightarrow> fresh d \<le> fresh d' \<and> (tables_wf d \<longrightarrow> tables_wf d')"

lemma grows_refl: "grows d d"
  by (simp add: grows_def)

lemma grows_trans: "grows a b \<Longrightarrow> grows b c \<Longrightarrow> grows a c"
  by (auto simp: grows_def)

lemma grows_same: "same_devices x y \<Longrightarrow> grows d x \<Longrightarrow> grows d y"
  by (auto simp: grows_def same_devices_def)

lemma grows_fields:
  "grows d (x\<lparr>fault := b\<rparr>) = grows d x" "grows d (x\<lparr>dev_list := ds\<rparr>) = grows d x" "grows d (x\<lparr>prev_cfg := c\<rparr>) = grows d x"
  "grows d (x\<lparr>serial_in := si\<rparr>) = grows d x" "grows d (x\<lparr>evdev_in := ei\<rparr>) = grows d x"
  "grows d (upd_device a f x) = grows d x"
  by (simp_all add: grows_def tables_wf_fields upd_device_def)

lemma grows_broadcast: "grows d x \<Longrightarrow> grows d (broadcast_event ev x)"
  by (rule grows_same [OF same_devices_ops(3) [OF same_devices_refl]])

lemma grows_add_device: "grows d x \<Longrightarrow> grows d (snd (add_device x))"
  by (auto simp: grows_def add_device_eq tables_wf_fields)

lemma grows_remove_device: "grows d x \<Longrightarrow> grows d (remove_device a x)"
  using grows_same [OF remove_device_list(2)] by (simp add: grows_fields)

lemma grows_open_serial: "grows d x \<Longrightarrow> grows d (snd (snd (open_dev_serial dev x)))"
  using grows_same [OF opensD(1) [OF open_dev_serial_opens(1)]] by (metis prod.collapse)

lemma grows_open_usb: "grows d x \<Longrightarrow> grows d (snd (snd (open_dev_usb dev x)))"
  using grows_same [OF opensD(1) [OF open_dev_usb_opens(1)]] by (metis prod.collapse)

lemmas grows_intros = grows_refl grows_broadcast grows_add_device grows_remove_device grows_open_serial grows_open_usb

lemma grows_fold: "(\<And>x y. grows d y \<Longrightarrow> grows d (f x y)) \<Longrightarrow> grows d y \<Longrightarrow> grows d (fold f xs y)"
  by (induction xs arbitrary: y) auto

lemma grows_init_devices_serial: "grows d x \<Longrightarrow> grows d (init_devices_serial x)"
  unfolding init_devices_serial_def
  by (simp add: split_beta Let_def grows_fields grows_intros split: option.split)

lemma grows_open_usb_files: "grows d x \<Longrightarrow> grows d (open_usb_files di paths x)"
  by (induction paths arbitrary: x)
    (simp_all add: split_beta Let_def grows_fields grows_intros split: option.split)

lemma grows_init_devices_usb: "grows d x \<Longrightarrow> grows d (snd (init_devices_usb x))"
  using grows_same [OF find_usb_devices_same, of d x]
  by (auto simp: init_devices_usb_def split_beta Let_def intro!: grows_fold grows_open_usb_files)

lemma grows_init_devices: "grows d x \<Longrightarrow> grows d (init_devices x)"
  by (simp add: init_devices_def grows_init_devices_usb grows_init_devices_serial)

lemma grows_read_device: "grows d x \<Longrightarrow> grows d (snd (snd (read_device a inp x)))"
  by (auto simp: read_device_def read_serial_def read_evdev_def split_beta Let_def grows_fields
      split: option.split driver.split list.split evdev_read.split intro!: grows_intros)

lemma grows_cfg_changed: "grows d x \<Longrightarrow> grows d (cfg_changed x)"
  using grows_same [OF led_changed_same, of d x]
  by (auto simp: cfg_changed_def serial_changed_def Let_def grows_fields
      intro!: grows_fold grows_remove_device grows_init_devices_serial)

end
