(* ===== verification/Requests.thy ===== *)
theory Requests
  imports DeviceFrame
begin

text \<open>
  The requests of protocol version 1 (\<open>handle_request\<close> of src/proto_unix.c): one definition for each case
  of its \<open>switch\<close>, and the table of the request numbers (src/proto.h). A handler is given the client and the
  packet that has been received; its answer is the same packet with the values and the status filled in.
\<close>

section \<open>Request numbers\<close>

abbreviation (input) REQ_SET_NAME :: u32 where "REQ_SET_NAME \<equiv> 0x1000"
abbreviation (input) REQ_SET_SENS :: u32 where "REQ_SET_SENS \<equiv> 0x1001"
abbreviation (input) REQ_GET_SENS :: u32 where "REQ_GET_SENS \<equiv> 0x1002"
abbreviation (input) REQ_SET_EVMASK :: u32 where "REQ_SET_EVMASK \<equiv> 0x1003"
abbreviation (input) REQ_GET_EVMASK :: u32 where "REQ_GET_EVMASK \<equiv> 0x1004"
abbreviation (input) REQ_DEV_NAME :: u32 where "REQ_DEV_NAME \<equiv> 0x2000"
abbreviation (input) REQ_DEV_PATH :: u32 where "REQ_DEV_PATH \<equiv> 0x2001"
abbreviation (input) REQ_DEV_NAXES :: u32 where "REQ_DEV_NAXES \<equiv> 0x2002"
abbreviation (input) REQ_DEV_NBUTTONS :: u32 where "REQ_DEV_NBUTTONS \<equiv> 0x2003"
abbreviation (input) REQ_DEV_USBID :: u32 where "REQ_DEV_USBID \<equiv> 0x2004"
abbreviation (input) REQ_DEV_TYPE :: u32 where "REQ_DEV_TYPE \<equiv> 0x2005"
abbreviation (input) REQ_SCFG_SENS :: u32 where "REQ_SCFG_SENS \<equiv> 0x3000"
abbreviation (input) REQ_GCFG_SENS :: u32 where "REQ_GCFG_SENS \<equiv> 0x3001"
abbreviation (input) REQ_SCFG_SENS_AXIS :: u32 where "REQ_SCFG_SENS_AXIS \<equiv> 0x3002"
abbreviation (input) REQ_GCFG_SENS_AXIS :: u32 where "REQ_GCFG_SENS_AXIS \<equiv> 0x3003"
abbreviation (input) REQ_SCFG_DEADZONE :: u32 where "REQ_SCFG_DEADZONE \<equiv> 0x3004"
abbreviation (input) REQ_GCFG_DEADZONE :: u32 where "REQ_GCFG_DEADZONE \<equiv> 0x3005"
abbreviation (input) REQ_SCFG_INVERT :: u32 where "REQ_SCFG_INVERT \<equiv> 0x3006"
abbreviation (input) REQ_GCFG_INVERT :: u32 where "REQ_GCFG_INVERT \<equiv> 0x3007"
abbreviation (input) REQ_SCFG_AXISMAP :: u32 where "REQ_SCFG_AXISMAP \<equiv> 0x3008"
abbreviation (input) REQ_GCFG_AXISMAP :: u32 where "REQ_GCFG_AXISMAP \<equiv> 0x3009"
abbreviation (input) REQ_SCFG_BNMAP :: u32 where "REQ_SCFG_BNMAP \<equiv> 0x300a"
abbreviation (input) REQ_GCFG_BNMAP :: u32 where "REQ_GCFG_BNMAP \<equiv> 0x300b"
abbreviation (input) REQ_SCFG_BNACTION :: u32 where "REQ_SCFG_BNACTION \<equiv> 0x300c"
abbreviation (input) REQ_GCFG_BNACTION :: u32 where "REQ_GCFG_BNACTION \<equiv> 0x300d"
abbreviation (input) REQ_SCFG_KBMAP :: u32 where "REQ_SCFG_KBMAP \<equiv> 0x300e"
abbreviation (input) REQ_GCFG_KBMAP :: u32 where "REQ_GCFG_KBMAP \<equiv> 0x300f"
abbreviation (input) REQ_SCFG_SWAPYZ :: u32 where "REQ_SCFG_SWAPYZ \<equiv> 0x3010"
abbreviation (input) REQ_GCFG_SWAPYZ :: u32 where "REQ_GCFG_SWAPYZ \<equiv> 0x3011"
abbreviation (input) REQ_SCFG_LED :: u32 where "REQ_SCFG_LED \<equiv> 0x3012"
abbreviation (input) REQ_GCFG_LED :: u32 where "REQ_GCFG_LED \<equiv> 0x3013"
abbreviation (input) REQ_SCFG_GRAB :: u32 where "REQ_SCFG_GRAB \<equiv> 0x3014"
abbreviation (input) REQ_GCFG_GRAB :: u32 where "REQ_GCFG_GRAB \<equiv> 0x3015"
abbreviation (input) REQ_SCFG_SERDEV :: u32 where "REQ_SCFG_SERDEV \<equiv> 0x3016"
abbreviation (input) REQ_GCFG_SERDEV :: u32 where "REQ_GCFG_SERDEV \<equiv> 0x3017"
abbreviation (input) REQ_SCFG_REPEAT :: u32 where "REQ_SCFG_REPEAT \<equiv> 0x3018"
abbreviation (input) REQ_GCFG_REPEAT :: u32 where "REQ_GCFG_REPEAT \<equiv> 0x3019"
abbreviation (input) REQ_SCFG_SOCKET :: u32 where "REQ_SCFG_SOCKET \<equiv> 0x301a"
abbreviation (input) REQ_GCFG_SOCKET :: u32 where "REQ_GCFG_SOCKET \<equiv> 0x301b"
abbreviation (input) REQ_CFG_SAVE :: u32 where "REQ_CFG_SAVE \<equiv> 0x3ffe"
abbreviation (input) REQ_CFG_RESTORE :: u32 where "REQ_CFG_RESTORE \<equiv> 0x3fff"
abbreviation (input) REQ_CFG_RESET :: u32 where "REQ_CFG_RESET \<equiv> 0x4000"

section \<open>Answers\<close>

type_synonym handler = "client \<Rightarrow> reqresp \<Rightarrow> daemon \<Rightarrow> daemon"

definition arg :: "reqresp \<Rightarrow> nat \<Rightarrow> int" where
  "arg req i = sint (rr_data req ! i)"

definition sendresp :: "client \<Rightarrow> reqresp \<Rightarrow> int \<Rightarrow> daemon \<Rightarrow> daemon" where
  "sendresp c req status d = emit (Reply (c_sock c) (req\<lparr>rr_data := (rr_data req)[6 := w32 status]\<rparr>)) d"

definition put_data :: "nat \<Rightarrow> u32 list \<Rightarrow> reqresp \<Rightarrow> reqresp" where
  \<comment> \<open>assignments to \<open>data[i]\<close>, \<open>data[i + 1]\<close> and so on\<close>
  "put_data i ws req = req\<lparr>rr_data := take i (rr_data req) @ ws @ drop (i + length ws) (rr_data req)\<rparr>"

definition answer :: "nat \<Rightarrow> u32 list \<Rightarrow> handler" where
  "answer i ws c req d = sendresp c (put_data i ws req) 0 d"

definition send_str :: "string \<Rightarrow> handler" where
  "send_str str c req d =
     fold (\<lambda>rr. emit (Reply (c_sock c) rr)) (snd (spnav_send_str (c_sock c) (rr_type req) (Some str))) d"

definition change_cfg :: "(cfg \<Rightarrow> cfg) \<Rightarrow> daemon \<Rightarrow> daemon" where
  "change_cfg f d = d\<lparr>cfg := f (cfg d)\<rparr>"

section \<open>Settings of the client\<close>

definition recv_str :: "client \<Rightarrow> reqresp \<Rightarrow> daemon \<Rightarrow> int \<times> strbuf \<times> daemon" where
  \<comment> \<open>\<open>spnav_recv_str(&c->strbuf, req)\<close>; the first packet allocates memory\<close>
  "recv_str c req d =
     (let (a, d) = (if 0 \<le> arg req 6 \<and> reqstr_first req then calloc d else (None, d));
          (res, sb) = spnav_recv_str (a \<noteq> None) (c_strbuf c) req in
      (res, sb, upd_client (c_addr c) (\<lambda>c. c\<lparr>c_strbuf := sb\<rparr>) d))"

definition received :: "strbuf \<Rightarrow> string" where
  "received sb = (case s_buf sb of None \<Rightarrow> [] | Some b \<Rightarrow> cstr b)"

definition set_name :: handler where
  "set_name c req d =
     (let (res, sb, d) = recv_str c req d in
      if res = - 1 \<or> res = 0 then d
      else upd_client (c_addr c) (\<lambda>c. c\<lparr>c_name := Some (received sb), c_strbuf := sb\<lparr>s_buf := None\<rparr>\<rparr>) d)"

definition set_sens :: handler where
  "set_sens c req d =
     (let fval = rr_data req ! 0 in
      if isfinite fval then sendresp c req 0 (upd_client (c_addr c) (\<lambda>c. c\<lparr>c_sens := fval\<rparr>) d)
      else sendresp c req (- 1) d)"

definition get_sens :: handler where
  "get_sens c req d = answer 0 [c_sens c] c req d"

definition set_evmask :: handler where
  "set_evmask c req d = sendresp c req 0 (upd_client (c_addr c) (\<lambda>c. c\<lparr>c_evmask := rr_data req ! 0\<rparr>) d)"

definition get_evmask :: handler where
  "get_evmask c req d = answer 0 [c_evmask c] c req d"

section \<open>Questions about the device\<close>

definition ask_device :: "(device \<Rightarrow> handler) \<Rightarrow> handler" where
  \<comment> \<open>the device of the client, if there is one\<close>
  "ask_device f c req d =
     (case get_client_device c d of
        None \<Rightarrow> sendresp c req (- 1) d
      | Some a \<Rightarrow> (case get_device a d of None \<Rightarrow> d\<lparr>fault := True\<rparr> | Some dev \<Rightarrow> f dev c req d))"

definition dev_name :: handler where
  "dev_name = ask_device (\<lambda>dev. send_str (d_name dev))"

definition dev_path :: handler where
  "dev_path = ask_device (\<lambda>dev. send_str (d_path dev))"

definition dev_naxes :: handler where
  "dev_naxes = ask_device (\<lambda>dev. answer 0 [w32 (num_axes dev)])"

definition dev_nbuttons :: handler where
  "dev_nbuttons = ask_device (\<lambda>dev. answer 0 [w32 (num_buttons dev)])"

definition dev_usbid :: handler where
  "dev_usbid = ask_device (\<lambda>dev c req d.
     if fst (d_usbid dev) \<noteq> 0 \<and> snd (d_usbid dev) \<noteq> 0
     then answer 0 [fst (d_usbid dev), snd (d_usbid dev)] c req d else sendresp c req (- 1) d)"

definition dev_type :: handler where
  "dev_type = ask_device (\<lambda>dev. answer 0 [w32 (d_type dev)])"

section \<open>Settings of the daemon\<close>

definition scfg_sens :: handler where
  "scfg_sens c req d =
     (if isfinite (rr_data req ! 0)
      then sendresp c req 0 (change_cfg (\<lambda>k. k\<lparr>sensitivity := rr_data req ! 0\<rparr>) d)
      else sendresp c req (- 1) d)"

definition gcfg_sens :: handler where
  "gcfg_sens c req d = answer 0 [sensitivity (cfg d)] c req d"

definition scfg_sens_axis :: handler where
  "scfg_sens_axis c req d =
     (let fvec = take 6 (rr_data req) in
      if list_all isfinite fvec
      then sendresp c req 0 (change_cfg (\<lambda>k. k\<lparr>sens_trans := take 3 fvec, sens_rot := drop 3 fvec\<rparr>) d)
      else sendresp c req (- 1) d)"

definition gcfg_sens_axis :: handler where
  "gcfg_sens_axis c req d = answer 0 (sens_trans (cfg d) @ sens_rot (cfg d)) c req d"

definition scfg_deadzone :: handler where
  "scfg_deadzone c req d =
     (if \<not> axis_valid (arg req 0) then sendresp c req (- 1) d
      else sendresp c req 0
        (change_cfg (\<lambda>k. k\<lparr>dead_threshold := (dead_threshold k)[nat (arg req 0) := arg req 1]\<rparr>) d))"

definition gcfg_deadzone :: handler where
  "gcfg_deadzone c req d =
     (if \<not> axis_valid (arg req 0) then sendresp c req (- 1) d
      else answer 1 [w32 (dead_threshold (cfg d) ! nat (arg req 0))] c req d)"

definition scfg_invert :: handler where
  "scfg_invert c req d =
     sendresp c req 0 (change_cfg (\<lambda>k. k\<lparr>invert :=
       map (\<lambda>i. if arg req i \<noteq> 0 then 1 else 0) [0..<6] @ drop 6 (invert k)\<rparr>) d)"

definition gcfg_invert :: handler where
  "gcfg_invert c req d = answer 0 (map w32 (take 6 (invert (cfg d)))) c req d"

definition scfg_axismap :: handler where
  "scfg_axismap c req d =
     (if \<not> axis_valid (arg req 0) \<or> arg req 1 < - 1 \<or> 6 \<le> arg req 1 then sendresp c req (- 1) d
      else sendresp c req 0 (change_cfg (\<lambda>k. k\<lparr>map_axis := (map_axis k)[nat (arg req 0) := arg req 1]\<rparr>) d))"

definition gcfg_axismap :: handler where
  "gcfg_axismap c req d =
     (if \<not> axis_valid (arg req 0) then sendresp c req (- 1) d
      else answer 1 [w32 (map_axis (cfg d) ! nat (arg req 0))] c req d)"

definition scfg_bnmap :: handler where
  "scfg_bnmap c req d =
     (if \<not> bn_valid (arg req 0) \<or> \<not> bn_valid (arg req 1) then sendresp c req (- 1) d
      else sendresp c req 0 (change_cfg (\<lambda>k. k\<lparr>map_button := (map_button k)[nat (arg req 0) := arg req 1]\<rparr>) d))"

definition gcfg_bnmap :: handler where
  "gcfg_bnmap c req d =
     (if \<not> bn_valid (arg req 0) then sendresp c req (- 1) d
      else answer 1 [w32 (map_button (cfg d) ! nat (arg req 0))] c req d)"

definition scfg_bnaction :: handler where
  "scfg_bnaction c req d =
     (if \<not> bn_valid (arg req 0) \<or> \<not> bnact_valid (arg req 1) then sendresp c req (- 1) d
      else sendresp c req 0 (change_cfg (\<lambda>k. k\<lparr>bnact := (bnact k)[nat (arg req 0) := arg req 1]\<rparr>) d))"

definition gcfg_bnaction :: handler where
  "gcfg_bnaction c req d =
     (if \<not> bn_valid (arg req 0) then sendresp c req (- 1) d
      else answer 1 [w32 (bnact (cfg d) ! nat (arg req 0))] c req d)"

definition scfg_kbmap :: handler where
  "scfg_kbmap c req d =
     (let idx = arg req 0; i = nat idx; key = rr_data req ! 1; str = e_keyname (envt d) key in
      if \<not> bn_valid idx \<or> (0 < arg req 1 \<and> str = None) then sendresp c req (- 1) d
      else
        let (copy, d) = (if 0 < arg req 1 then calloc d else (None, d)) in
        sendresp c req 0 (change_cfg (\<lambda>k. k\<lparr>
          kbmap := (kbmap k)[i := (kbmap k ! i)[0 := key]],
          kbmap_count := (kbmap_count k)[i := if 0 < arg req 1 then 1 else 0],
          kbmap_str := (kbmap_str k)[i := if copy \<noteq> None then str else None]\<rparr>) d))"

definition gcfg_kbmap :: handler where
  "gcfg_kbmap c req d =
     (if \<not> bn_valid (arg req 0) then sendresp c req (- 1) d
      else answer 1 [if 0 < kbmap_count (cfg d) ! nat (arg req 0) then kbmap (cfg d) ! nat (arg req 0) ! 0 else 0] c req d)"

definition scfg_swapyz :: handler where
  "scfg_swapyz c req d = sendresp c req 0 (change_cfg (\<lambda>k. k\<lparr>swapyz := if arg req 0 \<noteq> 0 then 1 else 0\<rparr>) d)"

definition gcfg_swapyz :: handler where
  "gcfg_swapyz c req d = answer 0 [w32 (swapyz (cfg d))] c req d"

definition scfg_led :: handler where
  "scfg_led c req d =
     (if arg req 0 < 0 \<or> 3 \<le> arg req 0 then sendresp c req (- 1) d
      else sendresp c req 0 (cfg_changed (change_cfg (\<lambda>k. k\<lparr>led := arg req 0\<rparr>) d)))"

definition gcfg_led :: handler where
  "gcfg_led c req d = answer 0 [w32 (led (cfg d))] c req d"

definition scfg_grab :: handler where
  "scfg_grab c req d = sendresp c req 0 (change_cfg (\<lambda>k. k\<lparr>grab_device := if arg req 0 \<noteq> 0 then 1 else 0\<rparr>) d)"

definition gcfg_grab :: handler where
  "gcfg_grab c req d = answer 0 [w32 (grab_device (cfg d))] c req d"

definition scfg_serdev :: handler where
  "scfg_serdev c req d =
     (let (res, sb, d) = recv_str c req d in
      if res = - 1 \<or> res = 0 then d
      else cfg_changed (change_cfg (\<lambda>k. k\<lparr>serial_dev := take (PATH_MAX - 1) (received sb)\<rparr>) d))"

definition gcfg_serdev :: handler where
  "gcfg_serdev c req d = send_str (serial_dev (cfg d)) c req d"

definition scfg_repeat :: handler where
  "scfg_repeat c req d = sendresp c req 0 (change_cfg (\<lambda>k. k\<lparr>repeat_msec := arg req 0\<rparr>) d)"

definition gcfg_repeat :: handler where
  "gcfg_repeat c req d = answer 0 [w32 (repeat_msec (cfg d))] c req d"

definition scfg_socket :: handler where
  "scfg_socket c req d =
     (let (res, sb, d) = recv_str c req d in
      if res = - 1 \<or> res = 0 then d
      else cfg_changed (change_cfg (\<lambda>k. k\<lparr>sockpath := take (PATH_MAX - 1) (received sb)\<rparr>) d))"

definition gcfg_socket :: handler where
  "gcfg_socket c req d = send_str (sockpath (cfg d)) c req d"

definition set_cff :: "cfgfile \<Rightarrow> daemon \<Rightarrow> daemon" where
  "set_cff f d = d\<lparr>cff := f, fault := (fault d \<or> cf_fault f)\<rparr>"

definition cfg_save :: handler where
  "cfg_save c req d = (let (res, f) = write_cfg (cfg d) (cff d) in sendresp c req res (set_cff f d))"

definition cfg_restore :: handler where
  "cfg_restore c req d =
     (let (res, k, f) = read_cfg (cff d) in
      sendresp c req 0 (cfg_changed (change_cfg (\<lambda>_. if res = - 1 then default_cfg else k) (set_cff f d))))"

definition cfg_reset :: handler where
  "cfg_reset c req d = sendresp c req 0 (cfg_changed (change_cfg (\<lambda>_. default_cfg) d))"

section \<open>The switch\<close>

definition requests :: "(u32 \<times> handler) list" where
  "requests =
     [(REQ_SET_NAME, set_name), (REQ_SET_SENS, set_sens), (REQ_GET_SENS, get_sens),
      (REQ_SET_EVMASK, set_evmask), (REQ_GET_EVMASK, get_evmask),
      (REQ_DEV_NAME, dev_name), (REQ_DEV_PATH, dev_path), (REQ_DEV_NAXES, dev_naxes),
      (REQ_DEV_NBUTTONS, dev_nbuttons), (REQ_DEV_USBID, dev_usbid), (REQ_DEV_TYPE, dev_type),
      (REQ_SCFG_SENS, scfg_sens), (REQ_GCFG_SENS, gcfg_sens),
      (REQ_SCFG_SENS_AXIS, scfg_sens_axis), (REQ_GCFG_SENS_AXIS, gcfg_sens_axis),
      (REQ_SCFG_DEADZONE, scfg_deadzone), (REQ_GCFG_DEADZONE, gcfg_deadzone),
      (REQ_SCFG_INVERT, scfg_invert), (REQ_GCFG_INVERT, gcfg_invert),
      (REQ_SCFG_AXISMAP, scfg_axismap), (REQ_GCFG_AXISMAP, gcfg_axismap),
      (REQ_SCFG_BNMAP, scfg_bnmap), (REQ_GCFG_BNMAP, gcfg_bnmap),
      (REQ_SCFG_BNACTION, scfg_bnaction), (REQ_GCFG_BNACTION, gcfg_bnaction),
      (REQ_SCFG_KBMAP, scfg_kbmap), (REQ_GCFG_KBMAP, gcfg_kbmap),
      (REQ_SCFG_SWAPYZ, scfg_swapyz), (REQ_GCFG_SWAPYZ, gcfg_swapyz),
      (REQ_SCFG_LED, scfg_led), (REQ_GCFG_LED, gcfg_led),
      (REQ_SCFG_GRAB, scfg_grab), (REQ_GCFG_GRAB, gcfg_grab),
      (REQ_SCFG_SERDEV, scfg_serdev), (REQ_GCFG_SERDEV, gcfg_serdev),
      (REQ_SCFG_REPEAT, scfg_repeat), (REQ_GCFG_REPEAT, gcfg_repeat),
      (REQ_SCFG_SOCKET, scfg_socket), (REQ_GCFG_SOCKET, gcfg_socket),
      (REQ_CFG_SAVE, cfg_save), (REQ_CFG_RESTORE, cfg_restore), (REQ_CFG_RESET, cfg_reset)]"

definition bad_request :: handler where
  "bad_request c req d = sendresp c req (- 1) d"

definition handler_of :: "u32 \<Rightarrow> handler" where
  "handler_of ty = (case search (\<lambda>e. fst e = ty AND 0xffff) requests of None \<Rightarrow> bad_request | Some e \<Rightarrow> snd e)"

definition handle_request :: "client \<Rightarrow> reqresp \<Rightarrow> daemon \<Rightarrow> int \<times> daemon" where
  "handle_request c req d = (0, handler_of (rr_type req) c req d)"

section \<open>What a handler may change\<close>

text \<open>
  \<open>requests_inv\<close> is the invariant of the state between requests, \<open>served\<close> says that a handler has kept it,
  has changed no client but the one that asked, and nothing by which that client is known.
\<close>

definition client_ok :: "client \<Rightarrow> bool" where
  "client_ok c \<longleftrightarrow> strbuf_wf (c_strbuf c) \<and> (c_proto c = 0 \<or> c_proto c = 1) \<and> length (c_reqbuf c) < 32 \<and> c_dev c = None"

definition requests_inv :: "daemon \<Rightarrow> bool" where
  "requests_inv d \<longleftrightarrow> clients_wf d \<and> cfg_wf (cfg d) \<and> devices_wf d \<and> list_all client_ok (client_list d)"

definition identity :: "client \<Rightarrow> nat \<times> client_type \<times> int \<times> int \<times> u32 \<times> char list" where
  "identity c = (c_addr c, c_type c, c_sock c, c_proto c, c_win c, c_reqbuf c)"

definition others :: "nat \<Rightarrow> daemon \<Rightarrow> client list" where
  "others a d = filter (\<lambda>x. c_addr x \<noteq> a) (client_list d)"

definition outside :: "daemon \<Rightarrow> daemon" where
  \<comment> \<open>without what a request may change\<close>
  "outside d = (host d)\<lparr>cfg := default_cfg, cff := sample_file [], client_list := [], out := []\<rparr>"

lemma outside_host: "host x = host y \<Longrightarrow> outside x = outside y"
  by (simp add: outside_def)

lemma outside_fields:
  "outside (x\<lparr>fault := b\<rparr>) = outside x" "outside (x\<lparr>cff := f\<rparr>) = outside x" "outside (x\<lparr>fresh := n\<rparr>) = outside x"
  "outside (x\<lparr>cfg := c\<rparr>) = outside x" "outside (x\<lparr>client_list := cs\<rparr>) = outside x"
  "outside (x\<lparr>out := os\<rparr>) = outside x" "outside (cfg_changed x) = outside x"
  using host_cfg_changed [of x] by (simp_all add: outside_def host_def)

lemma grows_request:
  "grows d (x\<lparr>cff := f\<rparr>) = grows d x" "grows d (x\<lparr>cfg := c\<rparr>) = grows d x" "grows d (x\<lparr>client_list := cs\<rparr>) = grows d x"
  "grows d (x\<lparr>out := os\<rparr>) = grows d x" "grows d x \<Longrightarrow> grows d (x\<lparr>fresh := Suc (fresh x)\<rparr>)"
  by (auto simp: grows_def tables_wf_fields)

lemmas frame_rules = outside_fields grows_request grows_fields grows_cfg_changed

definition served :: "nat \<Rightarrow> daemon \<Rightarrow> daemon \<Rightarrow> bool" where
  "served a d d' \<longleftrightarrow> requests_inv d' \<and> map identity (client_list d') = map identity (client_list d) \<and>
     others a d' = others a d \<and> sock_in d' = sock_in d \<and> lsock d' = lsock d \<and> accept_in d' = accept_in d \<and>
     outside d' = outside d \<and> grows d d'"

lemma served_refl: "requests_inv d \<Longrightarrow> served a d d"
  by (simp add: served_def grows_refl)

lemma served_emit: "served a d x \<Longrightarrow> served a d (emit e x)"
  by (auto simp: served_def frame_rules requests_inv_def emit_def clients_wf_def others_def intro: devices_wf_cong)

lemma served_sendresp: "served a d x \<Longrightarrow> served a d (sendresp c req st x)"
  by (simp add: sendresp_def served_emit)

lemma served_answer: "served a d x \<Longrightarrow> served a d (answer i ws c req x)"
  by (simp add: answer_def served_sendresp)

lemma served_fault: "served a d x \<Longrightarrow> served a d (x\<lparr>fault := b\<rparr>)"
  by (auto simp: served_def frame_rules requests_inv_def clients_wf_def others_def intro: devices_wf_cong)

lemma served_cff: "served a d x \<Longrightarrow> served a d (set_cff f x)"
  by (auto simp: served_def frame_rules requests_inv_def clients_wf_def others_def set_cff_def intro: devices_wf_cong)

lemma served_calloc: "served a d x \<Longrightarrow> served a d (snd (calloc x))"
  by (auto simp: served_def frame_rules requests_inv_def clients_wf_def others_def calloc_def list_all_iff intro: devices_wf_cong)

lemma served_change_cfg: "served a d x \<Longrightarrow> cfg_wf (f (cfg x)) \<Longrightarrow> served a d (change_cfg f x)"
  by (auto simp: served_def frame_rules requests_inv_def clients_wf_def others_def change_cfg_def intro: devices_wf_cong)

lemma served_send_str: "served a d x \<Longrightarrow> served a d (send_str str c req x)"
proof -
  have "served a d x \<Longrightarrow> served a d (fold (\<lambda>rr. emit (Reply s rr)) rrs x)" for s rrs
    by (induction rrs arbitrary: x) (simp_all add: served_emit)
  then show "served a d x \<Longrightarrow> ?thesis" by (simp add: send_str_def)
qed

lemma served_upd_client:
  assumes "served a d x" "\<And>y. identity (f y) = identity y" "\<And>y. client_ok y \<Longrightarrow> client_ok (f y)"
  shows "served a d (upd_client a f x)"
proof -
  let ?g = "\<lambda>c. if c_addr c = a then f c else c"
  have addr: "c_addr (f y) = c_addr y" for y using assms(2) [of y] by (simp add: identity_def)
  then have comp: "c_addr \<circ> ?g = c_addr" "identity \<circ> ?g = identity"
    using assms(2) by (simp_all add: fun_eq_iff)
  have filt: "filter (\<lambda>y. c_addr y \<noteq> a) (map ?g cs) = filter (\<lambda>y. c_addr y \<noteq> a) cs" for cs
    by (induction cs) (auto simp: addr)
  have "list_all (\<lambda>c. c_addr c < fresh x) cs \<Longrightarrow> list_all (\<lambda>c. c_addr c < fresh x) (map ?g cs)" for cs
    by (auto simp: list_all_iff addr)
  moreover have "list_all client_ok cs \<Longrightarrow> list_all client_ok (map ?g cs)" for cs
    using assms(3) by (auto simp: list_all_iff)
  ultimately show ?thesis
    using assms(1) by (auto simp: served_def frame_rules requests_inv_def clients_wf_def others_def upd_client_def comp filt
        intro: devices_wf_cong)
qed

lemma served_cfg_changed: "served a d x \<Longrightarrow> served a d (cfg_changed x)"
  using cfg_changed_fresh [of x] cfg_changed_host [of x]
  by (auto simp: served_def frame_rules requests_inv_def clients_wf_def others_def list_all_iff)

lemmas served_intros = served_refl served_sendresp served_answer served_fault served_cff served_calloc
  served_change_cfg served_send_str served_upd_client served_cfg_changed

text \<open>Requests that change the configuration keep its invariant.\<close>

lemma cfg_wf_scalar:
  "cfg_wf k \<Longrightarrow> cfg_wf (k\<lparr>sensitivity := w\<rparr>)" "cfg_wf k \<Longrightarrow> cfg_wf (k\<lparr>swapyz := i\<rparr>)"
  "cfg_wf k \<Longrightarrow> cfg_wf (k\<lparr>led := i\<rparr>)" "cfg_wf k \<Longrightarrow> cfg_wf (k\<lparr>grab_device := i\<rparr>)"
  "cfg_wf k \<Longrightarrow> cfg_wf (k\<lparr>repeat_msec := i\<rparr>)"
  "cfg_wf k \<Longrightarrow> cfg_wf (k\<lparr>serial_dev := take 4095 s\<rparr>)" "cfg_wf k \<Longrightarrow> cfg_wf (k\<lparr>sockpath := take 4095 s\<rparr>)"
  by (simp_all add: cfg_wf_def)

lemma cfg_wf_axes:
  "cfg_wf k \<Longrightarrow> length fvec = 7 \<Longrightarrow> cfg_wf (k\<lparr>sens_trans := take 3 fvec, sens_rot := drop 3 (take 6 fvec)\<rparr>)"
  "cfg_wf k \<Longrightarrow> cfg_wf (k\<lparr>dead_threshold := (dead_threshold k)[i := x]\<rparr>)"
  "cfg_wf k \<Longrightarrow> cfg_wf (k\<lparr>invert := map g [0..<6] @ drop 6 (invert k)\<rparr>)"
  "cfg_wf k \<Longrightarrow> cfg_wf (k\<lparr>map_axis := (map_axis k)[i := x]\<rparr>)"
  by (simp_all add: cfg_wf_def)

lemma cfg_wf_buttons:
  "cfg_wf k \<Longrightarrow> bn_valid x \<Longrightarrow> cfg_wf (k\<lparr>map_button := (map_button k)[i := x]\<rparr>)"
  "cfg_wf k \<Longrightarrow> bnact_valid x \<Longrightarrow> cfg_wf (k\<lparr>bnact := (bnact k)[i := x]\<rparr>)"
  by (simp_all add: cfg_wf_def list_all_update)

lemma cfg_wf_keys:
  assumes "cfg_wf k" "i < 64" "0 \<le> n" "n \<le> 8"
  shows "cfg_wf (k\<lparr>kbmap := (kbmap k)[i := (kbmap k ! i)[0 := w]], kbmap_count := (kbmap_count k)[i := n],
    kbmap_str := (kbmap_str k)[i := str]\<rparr>)"
proof -
  have "length (kbmap k ! i) = 8" using assms by (auto simp: cfg_wf_def list_all_length)
  with assms show ?thesis by (simp add: cfg_wf_def list_all_update)
qed

lemmas cfg_wf_request = cfg_wf_scalar cfg_wf_axes cfg_wf_buttons cfg_wf_keys

lemma cfg_calloc: "cfg (snd (calloc d)) = cfg d"
  by (simp add: calloc_def)

lemma served_cfg: "served a d x \<Longrightarrow> cfg_wf (cfg x)"
  by (simp add: served_def requests_inv_def)

definition serves :: "handler \<Rightarrow> bool" where
  "serves h \<longleftrightarrow> (\<forall>c req d. requests_inv d \<longrightarrow> c \<in> set (client_list d) \<longrightarrow> length (rr_data req) = 7 \<longrightarrow>
     served (c_addr c) d (h c req d))"

lemma servesI: "(\<And>c req d. requests_inv d \<Longrightarrow> c \<in> set (client_list d) \<Longrightarrow> length (rr_data req) = 7 \<Longrightarrow>
    served (c_addr c) d d \<Longrightarrow> served (c_addr c) d (h c req d)) \<Longrightarrow> serves h"
  by (simp add: serves_def served_refl)

lemma recv_str_served:
  assumes "requests_inv d" "c \<in> set (client_list d)" "length (rr_data req) = 7" "recv_str c req d = (res, sb, d')"
  shows "served (c_addr c) d d' \<and> strbuf_wf sb"
proof -
  have "strbuf_wf (c_strbuf c)" using assms by (auto simp: requests_inv_def list_all_iff client_ok_def)
  then have "strbuf_wf (snd (spnav_recv_str ok (c_strbuf c) req))" for ok using assms(3) by (simp add: recv_str_wf)
  moreover from this have "served (c_addr c) d x \<Longrightarrow>
      served (c_addr c) d (upd_client (c_addr c) (\<lambda>c'. c'\<lparr>c_strbuf := snd (spnav_recv_str ok (c_strbuf c) req)\<rparr>) x)" for ok x
    by (intro served_upd_client) (simp_all add: identity_def client_ok_def)
  ultimately show ?thesis
    using assms(1,4) by (auto simp: recv_str_def split_beta Let_def served_refl served_calloc)
qed

lemma client_requests_serve: "serves set_name" "serves set_sens" "serves get_sens" "serves set_evmask" "serves get_evmask"
proof -
  show "serves set_name"
  proof (rule servesI)
    fix c d and req :: reqresp
    assume inv: "requests_inv d" "c \<in> set (client_list d)" "length (rr_data req) = 7"
    obtain res sb d' where r: "recv_str c req d = (res, sb, d')" by (metis prod_cases3)
    from recv_str_served [OF inv r] show "served (c_addr c) d (set_name c req d)"
      by (auto simp: set_name_def r identity_def client_ok_def strbuf_wf_def intro!: served_upd_client)
  qed
qed (auto simp: set_sens_def get_sens_def set_evmask_def get_evmask_def Let_def identity_def client_ok_def
    intro!: servesI served_intros)

lemma device_requests_serve:
  "serves dev_name" "serves dev_path" "serves dev_naxes" "serves dev_nbuttons" "serves dev_usbid" "serves dev_type"
  unfolding dev_name_def dev_path_def dev_naxes_def dev_nbuttons_def dev_usbid_def dev_type_def ask_device_def
  by (auto split: option.split intro!: servesI served_intros)

lemma axis_requests_serve:
  "serves scfg_sens" "serves gcfg_sens" "serves scfg_sens_axis" "serves gcfg_sens_axis" "serves scfg_deadzone"
  "serves gcfg_deadzone" "serves scfg_invert" "serves gcfg_invert" "serves scfg_axismap" "serves gcfg_axismap"
  unfolding scfg_sens_def gcfg_sens_def scfg_sens_axis_def gcfg_sens_axis_def scfg_deadzone_def gcfg_deadzone_def
    scfg_invert_def gcfg_invert_def scfg_axismap_def gcfg_axismap_def
  by (auto simp: Let_def intro!: servesI served_intros cfg_wf_request dest: served_cfg)

lemma button_requests_serve:
  "serves scfg_bnmap" "serves gcfg_bnmap" "serves scfg_bnaction" "serves gcfg_bnaction" "serves gcfg_kbmap"
  unfolding scfg_bnmap_def gcfg_bnmap_def scfg_bnaction_def gcfg_bnaction_def gcfg_kbmap_def
  by (auto simp: Let_def intro!: servesI served_intros cfg_wf_request dest: served_cfg)

lemma key_request_serves: "serves scfg_kbmap"
  unfolding scfg_kbmap_def
  by (auto simp: Let_def split_beta bn_valid_def cfg_calloc nat_less_iff intro!: servesI served_intros cfg_wf_keys)
    (simp_all add: requests_inv_def)

lemma switch_requests_serve:
  "serves scfg_swapyz" "serves gcfg_swapyz" "serves scfg_led" "serves gcfg_led" "serves scfg_grab" "serves gcfg_grab"
  "serves scfg_repeat" "serves gcfg_repeat" "serves gcfg_serdev" "serves gcfg_socket"
  unfolding scfg_swapyz_def gcfg_swapyz_def scfg_led_def gcfg_led_def scfg_grab_def gcfg_grab_def scfg_repeat_def
    gcfg_repeat_def gcfg_serdev_def gcfg_socket_def
  by (auto simp: Let_def intro!: servesI served_intros cfg_wf_request dest: served_cfg)

lemma path_requests_serve: "serves scfg_serdev" "serves scfg_socket"
proof -
  have "served (c_addr c) d (cfg_changed (change_cfg f d'))"
    if "requests_inv d" "c \<in> set (client_list d)" "length (rr_data req) = 7" "recv_str c req d = (res, sb, d')"
      "\<And>k :: cfg. cfg_wf k \<Longrightarrow> cfg_wf (f k)" for c d res sb d' f and req :: reqresp
    using recv_str_served [OF that(1-4)] that(5) by (auto intro!: served_intros dest: served_cfg)
  then show "serves scfg_serdev" "serves scfg_socket"
    unfolding scfg_serdev_def scfg_socket_def
    by (auto intro!: servesI split: prod.split simp: cfg_wf_request dest: recv_str_served)
qed

lemma file_requests_serve: "serves cfg_save" "serves cfg_restore" "serves cfg_reset"
proof -
  have def: "cfg_wf default_cfg"
    by (auto simp: cfg_wf_def default_cfg_def list_all_iff bn_valid_def bnact_valid_def)
  then show "serves cfg_save" "serves cfg_restore" "serves cfg_reset"
    unfolding cfg_save_def cfg_restore_def cfg_reset_def
    by (auto intro!: servesI served_intros split: prod.split simp: read_cfg_outcome)
qed

lemma bad_request_serves: "serves bad_request"
  unfolding bad_request_def by (auto intro!: servesI served_intros)

lemma requests_serve: "list_all (\<lambda>e. serves (snd e)) requests"
  unfolding requests_def
  by (simp add: client_requests_serve device_requests_serve axis_requests_serve button_requests_serve
      key_request_serves switch_requests_serve path_requests_serve file_requests_serve)

lemma handler_serves: "serves (handler_of ty)"
  using requests_serve
  by (fastforce simp: handler_of_def list_all_iff bad_request_serves dest: search_SomeD split: option.split)

section \<open>Answers to requests\<close>

definition packets_of :: "reqresp \<Rightarrow> client \<Rightarrow> daemon \<Rightarrow> daemon \<Rightarrow> bool" where
  \<comment> \<open>at least one packet has been sent to the client, all of the type of the request\<close>
  "packets_of req c d d' \<longleftrightarrow>
     (\<exists>rrs. rrs \<noteq> [] \<and> replies d' = replies d @ map (Reply (c_sock c)) rrs \<and>
        list_all (\<lambda>rr. rr_type rr = rr_type req \<and> length (rr_data rr) = 7) rrs)"

definition answers :: "handler \<Rightarrow> bool" where
  "answers h \<longleftrightarrow> (\<forall>c req d. requests_inv d \<longrightarrow> c \<in> set (client_list d) \<longrightarrow> length (rr_data req) = 7 \<longrightarrow>
     0 \<le> c_sock c \<longrightarrow> packets_of req c d (h c req d))"

definition silent :: "handler \<Rightarrow> bool" where
  "silent h \<longleftrightarrow> (\<forall>c req d. replies (h c req d) = replies d)"

lemma answersI: "(\<And>c req d. requests_inv d \<Longrightarrow> c \<in> set (client_list d) \<Longrightarrow> length (rr_data req) = 7 \<Longrightarrow>
    0 \<le> c_sock c \<Longrightarrow> packets_of req c d (h c req d)) \<Longrightarrow> answers h"
  by (simp add: answers_def)

lemma replies_frame [simp]:
  "replies (upd_client a f d) = replies d" "replies (change_cfg g d) = replies d" "replies (snd (calloc d)) = replies d"
  "replies (set_cff k d) = replies d" "replies (d\<lparr>fault := b\<rparr>) = replies d" "replies (cfg_changed d) = replies d"
  by (simp_all add: replies_def upd_client_def change_cfg_def calloc_def set_cff_def)
    (simp add: cfg_changed_host(30) [unfolded replies_def])

lemma sendresp_packets: "length (rr_data req) = 7 \<Longrightarrow> rr_type req' = rr_type req \<Longrightarrow> length (rr_data req') = 7 \<Longrightarrow>
    replies x = replies d \<Longrightarrow> packets_of req c d (sendresp c req' st x)"
  by (auto simp: packets_of_def sendresp_def emit_def replies_def)

lemma put_data_frame [simp]: "rr_type (put_data i ws req) = rr_type req"
  "length (rr_data req) = 7 \<Longrightarrow> i + length ws \<le> 7 \<Longrightarrow> length (rr_data (put_data i ws req)) = 7"
  by (simp_all add: put_data_def)

lemma answer_packets: "length (rr_data req) = 7 \<Longrightarrow> i + length ws \<le> 7 \<Longrightarrow> packets_of req c d (answer i ws c req d)"
  unfolding answer_def by (rule sendresp_packets) simp_all

lemma send_chunks_types: "length d = 7 \<Longrightarrow>
    list_all (\<lambda>rr. rr_type rr = ty \<and> length (rr_data rr) = 7) (send_chunks ty d str len) \<and> send_chunks ty d str len \<noteq> []"
proof (induction ty d str len rule: send_chunks.induct)
  case (1 ty d str len)
  then show ?case
    by (subst (1 2) send_chunks.simps) (auto simp: Let_def length_put_chars split: option.split)
qed

lemma send_str_packets: "0 \<le> c_sock c \<Longrightarrow> packets_of req c d (send_str str c req d)"
proof -
  assume sock: "0 \<le> c_sock c"
  have "replies (fold (\<lambda>rr. emit (Reply s rr)) rrs x) = replies x @ map (Reply s) rrs" for s rrs x
    by (induction rrs arbitrary: x) (simp_all add: replies_def emit_def)
  with sock send_chunks_types [of "(replicate 7 0)[6 := w32 (int (length str))]" "rr_type req" "Some str"] show ?thesis
    by (auto simp: packets_of_def send_str_def spnav_send_str_def Let_def)
qed

lemma ask_device_packets: "(\<And>dev c req d. length (rr_data req) = 7 \<Longrightarrow> 0 \<le> c_sock c \<Longrightarrow> packets_of req c d (f dev c req d)) \<Longrightarrow>
    answers (ask_device f)"
proof (rule answersI)
  fix c d and req :: reqresp
  assume f: "\<And>dev c req d. length (rr_data req) = 7 \<Longrightarrow> 0 \<le> c_sock c \<Longrightarrow> packets_of req c d (f dev c req d)"
    and inv: "requests_inv d" "c \<in> set (client_list d)" "length (rr_data req) = 7" "0 \<le> c_sock c"
  have "c_dev c = None" using inv(1,2) by (auto simp: requests_inv_def list_all_iff client_ok_def)
  moreover have "dev_list d = dev # devs \<Longrightarrow> get_device (d_addr dev) d = Some dev" for dev devs
    using inv(1) by (intro get_device_in) (auto simp: requests_inv_def)
  ultimately show "packets_of req c d (ask_device f c req d)"
    using inv f by (auto simp: ask_device_def get_client_device_def sendresp_packets split: list.split option.split)
qed

lemma device_requests_answer:
  "answers dev_name" "answers dev_path" "answers dev_naxes" "answers dev_nbuttons" "answers dev_usbid" "answers dev_type"
  unfolding dev_name_def dev_path_def dev_naxes_def dev_nbuttons_def dev_usbid_def dev_type_def
  by (rule ask_device_packets; simp add: send_str_packets answer_packets sendresp_packets)+

lemma cfg_lengths: "requests_inv d \<Longrightarrow> length (sens_trans (cfg d)) = 3 \<and> length (sens_rot (cfg d)) = 3"
  by (simp add: requests_inv_def cfg_wf_def)

lemma requests_answer:
  "list_all (\<lambda>e. if fst e \<in> {REQ_SET_NAME, REQ_SCFG_SERDEV, REQ_SCFG_SOCKET} then silent (snd e) else answers (snd e)) requests"
proof -
  note defs = set_sens_def get_sens_def set_evmask_def get_evmask_def scfg_sens_def gcfg_sens_def scfg_sens_axis_def
    gcfg_sens_axis_def scfg_deadzone_def gcfg_deadzone_def scfg_invert_def gcfg_invert_def scfg_axismap_def
    gcfg_axismap_def scfg_bnmap_def gcfg_bnmap_def scfg_bnaction_def gcfg_bnaction_def gcfg_kbmap_def
  note defs2 = scfg_kbmap_def scfg_swapyz_def gcfg_swapyz_def scfg_led_def gcfg_led_def scfg_grab_def gcfg_grab_def
    scfg_repeat_def gcfg_repeat_def gcfg_serdev_def gcfg_socket_def cfg_save_def cfg_restore_def cfg_reset_def
  have client: "answers set_sens" "answers get_sens" "answers set_evmask" "answers get_evmask"
    and axis: "answers scfg_sens" "answers gcfg_sens" "answers scfg_sens_axis" "answers gcfg_sens_axis"
      "answers scfg_deadzone" "answers gcfg_deadzone" "answers scfg_invert" "answers gcfg_invert"
      "answers scfg_axismap" "answers gcfg_axismap"
    and button: "answers scfg_bnmap" "answers gcfg_bnmap" "answers scfg_bnaction" "answers gcfg_bnaction" "answers gcfg_kbmap"
    unfolding defs by (auto simp: Let_def cfg_lengths intro!: answersI sendresp_packets answer_packets)
  have switch: "answers scfg_kbmap" "answers scfg_swapyz" "answers gcfg_swapyz" "answers scfg_led" "answers gcfg_led"
      "answers scfg_grab" "answers gcfg_grab" "answers scfg_repeat" "answers gcfg_repeat" "answers gcfg_serdev"
      "answers gcfg_socket" "answers cfg_save" "answers cfg_restore" "answers cfg_reset"
    unfolding defs2
    by (auto simp: Let_def split_beta intro!: answersI sendresp_packets answer_packets send_str_packets)
  have "silent set_name" "silent scfg_serdev" "silent scfg_socket"
    by (auto simp: silent_def set_name_def scfg_serdev_def scfg_socket_def recv_str_def split_beta Let_def)
  with client axis button switch device_requests_answer show ?thesis by (simp add: requests_def)
qed

lemma handler_answers:
  "if ty AND 0xffff \<in> {REQ_SET_NAME, REQ_SCFG_SERDEV, REQ_SCFG_SOCKET} then silent (handler_of ty) else answers (handler_of ty)"
proof (cases "search (\<lambda>e. fst e = ty AND 0xffff) requests")
  case None
  then have key: "ty AND 0xffff \<notin> {REQ_SET_NAME, REQ_SCFG_SERDEV, REQ_SCFG_SOCKET}"
    by (auto simp: search_None_iff requests_def)
  have "answers bad_request" unfolding bad_request_def by (auto intro!: answersI sendresp_packets)
  with None key show ?thesis by (simp only: handler_of_def option.case if_False)
next
  case (Some e)
  then have e: "fst e = ty AND 0xffff" "e \<in> set requests" by (auto dest: search_SomeD)
  have "if fst e \<in> {REQ_SET_NAME, REQ_SCFG_SERDEV, REQ_SCFG_SOCKET} then silent (snd e) else answers (snd e)"
    using requests_answer e(2) unfolding list_all_iff by (rule bspec)
  with Some e(1) show ?thesis by (simp only: handler_of_def option.case)
qed

section \<open>Settings\<close>

text \<open>
  The requests that set a value of the configuration, with the request that asks for it, the number of
  items that select what is set (the axis or the button), the number of items of the value, and the form
  in which the value is kept.
\<close>

definition flag :: "u32 \<Rightarrow> u32" where
  "flag w = (if w = 0 then 0 else 1)"

definition key_or_none :: "u32 \<Rightarrow> u32" where
  "key_or_none w = (if 0 < sint w then w else 0)"

definition settings :: "(u32 \<times> u32 \<times> nat \<times> nat \<times> (u32 \<Rightarrow> u32)) list" where
  "settings =
     [(REQ_SCFG_SENS, REQ_GCFG_SENS, 0, 1, id), (REQ_SCFG_SENS_AXIS, REQ_GCFG_SENS_AXIS, 0, 6, id),
      (REQ_SCFG_DEADZONE, REQ_GCFG_DEADZONE, 1, 1, id), (REQ_SCFG_INVERT, REQ_GCFG_INVERT, 0, 6, flag),
      (REQ_SCFG_AXISMAP, REQ_GCFG_AXISMAP, 1, 1, id), (REQ_SCFG_BNMAP, REQ_GCFG_BNMAP, 1, 1, id),
      (REQ_SCFG_BNACTION, REQ_GCFG_BNACTION, 1, 1, id), (REQ_SCFG_KBMAP, REQ_GCFG_KBMAP, 1, 1, key_or_none),
      (REQ_SCFG_SWAPYZ, REQ_GCFG_SWAPYZ, 0, 1, flag), (REQ_SCFG_LED, REQ_GCFG_LED, 0, 1, id),
      (REQ_SCFG_GRAB, REQ_GCFG_GRAB, 0, 1, flag), (REQ_SCFG_REPEAT, REQ_GCFG_REPEAT, 0, 1, id)]"

definition accepted :: "client \<Rightarrow> reqresp \<Rightarrow> daemon \<Rightarrow> bool" where
  \<comment> \<open>the last output is the packet with the status 0\<close>
  "accepted c req d' \<longleftrightarrow> last (out d') = Reply (c_sock c) (req\<lparr>rr_data := (rr_data req)[6 := 0]\<rparr>)"

definition reads_back :: "u32 \<times> u32 \<times> nat \<times> nat \<times> (u32 \<Rightarrow> u32) \<Rightarrow> bool" where
  "reads_back = (\<lambda>(s, g, k, n, canon). \<forall>c req c' q d.
     cfg_wf (cfg d) \<and> length (rr_data req) = 7 \<and> length (rr_data q) = 7 \<and>
     accepted c req (handler_of s c req d) \<and> take k (rr_data q) = take k (rr_data req) \<longrightarrow>
     (\<exists>rr. out (handler_of g c' q (handler_of s c req d)) = out (handler_of s c req d) @ [Reply (c_sock c') rr] \<and>
        rr_type rr = rr_type q \<and> length (rr_data rr) = 7 \<and> rr_data rr ! 6 = 0 \<and>
        take (k + n) (rr_data rr) = take k (rr_data req) @ map canon (take n (drop k (rr_data req)))))"

lemma seven: "length xs = 7 \<Longrightarrow> \<exists>a b c d e f g. xs = [a, b, c, d, e, f, g]"
  by (auto simp: numeral_eq_Suc length_Suc_conv)

lemma accepted_sendresp: "length (rr_data req) = 7 \<Longrightarrow> accepted c req (sendresp c req st d) = (w32 st = 0)"
  by (auto simp: accepted_def sendresp_def emit_def dest!: seven dest: arg_cong [where f = rr_data])

lemma w32_neg: "w32 (- 1) \<noteq> 0" "w32 0 = 0"
  by (simp_all add: w32_def)

lemma answer_out: "length (rr_data q) = 7 \<Longrightarrow> i + length ws \<le> 6 \<Longrightarrow>
    \<exists>rr. out (answer i ws c q d) = out d @ [Reply (c_sock c) rr] \<and> rr_type rr = rr_type q \<and> length (rr_data rr) = 7 \<and>
      rr_data rr ! 6 = 0 \<and> take (i + length ws) (rr_data rr) = take i (rr_data q) @ ws"
  by (auto simp: answer_def sendresp_def emit_def put_data_def w32_neg take_update_cancel nth_append)

lemma handlers:
  "handler_of REQ_SCFG_SENS = scfg_sens" "handler_of REQ_GCFG_SENS = gcfg_sens"
  "handler_of REQ_SCFG_SENS_AXIS = scfg_sens_axis" "handler_of REQ_GCFG_SENS_AXIS = gcfg_sens_axis"
  "handler_of REQ_SCFG_DEADZONE = scfg_deadzone" "handler_of REQ_GCFG_DEADZONE = gcfg_deadzone"
  "handler_of REQ_SCFG_INVERT = scfg_invert" "handler_of REQ_GCFG_INVERT = gcfg_invert"
  "handler_of REQ_SCFG_AXISMAP = scfg_axismap" "handler_of REQ_GCFG_AXISMAP = gcfg_axismap"
  "handler_of REQ_SCFG_BNMAP = scfg_bnmap" "handler_of REQ_GCFG_BNMAP = gcfg_bnmap"
  "handler_of REQ_SCFG_BNACTION = scfg_bnaction" "handler_of REQ_GCFG_BNACTION = gcfg_bnaction"
  "handler_of REQ_SCFG_KBMAP = scfg_kbmap" "handler_of REQ_GCFG_KBMAP = gcfg_kbmap"
  "handler_of REQ_SCFG_SWAPYZ = scfg_swapyz" "handler_of REQ_GCFG_SWAPYZ = gcfg_swapyz"
  "handler_of REQ_SCFG_LED = scfg_led" "handler_of REQ_GCFG_LED = gcfg_led"
  "handler_of REQ_SCFG_GRAB = scfg_grab" "handler_of REQ_GCFG_GRAB = gcfg_grab"
  "handler_of REQ_SCFG_REPEAT = scfg_repeat" "handler_of REQ_GCFG_REPEAT = gcfg_repeat"
  by (simp_all add: handler_of_def requests_def)

lemma reads_backI:
  assumes "k + n \<le> 6"
    and "\<And>c req c' q d. cfg_wf (cfg d) \<Longrightarrow> length (rr_data req) = 7 \<Longrightarrow> length (rr_data q) = 7 \<Longrightarrow>
      accepted c req (handler_of s c req d) \<Longrightarrow> take k (rr_data q) = take k (rr_data req) \<Longrightarrow>
      handler_of g c' q (handler_of s c req d) =
        answer k (map canon (take n (drop k (rr_data req)))) c' q (handler_of s c req d)"
  shows "reads_back (s, g, k, n, canon)"
proof -
  have "\<exists>rr. out (handler_of g c' q (handler_of s c req d)) = out (handler_of s c req d) @ [Reply (c_sock c') rr] \<and>
        rr_type rr = rr_type q \<and> length (rr_data rr) = 7 \<and> rr_data rr ! 6 = 0 \<and>
        take (k + n) (rr_data rr) = take k (rr_data req) @ map canon (take n (drop k (rr_data req)))"
    if "cfg_wf (cfg d)" "length (rr_data req) = 7" "length (rr_data q) = 7"
      "accepted c req (handler_of s c req d)" "take k (rr_data q) = take k (rr_data req)" for c req c' q d
  proof -
    have "length (map canon (take n (drop k (rr_data req)))) = n" using that assms(1) by simp
    with answer_out [OF that(3), of k "map canon (take n (drop k (rr_data req)))"] assms(1) that(5) show ?thesis
      by (simp only: assms(2) [OF that])
  qed
  then show ?thesis unfolding reads_back_def split by blast
qed

lemma cfg_after [simp]: "cfg (sendresp c req st d) = cfg d" "cfg (change_cfg f d) = f (cfg d)" "cfg (cfg_changed d) = cfg d"
  by (simp_all add: sendresp_def emit_def change_cfg_def cfg_changed_host)

lemma reads_back_value:
  assumes "\<And>c req c' q d. cfg_wf (cfg d) \<Longrightarrow> length (rr_data req) = 7 \<Longrightarrow> accepted c req (handler_of s c req d) \<Longrightarrow>
      handler_of g c' q (handler_of s c req d) = answer 0 [canon (rr_data req ! 0)] c' q (handler_of s c req d)"
  shows "reads_back (s, g, 0, Suc 0, canon)"
proof (rule reads_backI)
  have "xs \<noteq> [] \<Longrightarrow> map canon (take (Suc 0) xs) = [canon (xs ! 0)]" for xs by (cases xs) simp_all
  then show "handler_of g c' q (handler_of s c req d) =
      answer 0 (map canon (take (Suc 0) (drop 0 (rr_data req)))) c' q (handler_of s c req d)"
    if "cfg_wf (cfg d)" "length (rr_data req) = 7" "accepted c req (handler_of s c req d)" for c req c' q d
    using that assms by (cases "rr_data req") auto
qed simp

lemma reads_back_indexed:
  assumes "\<And>c req c' q d. cfg_wf (cfg d) \<Longrightarrow> length (rr_data req) = 7 \<Longrightarrow> accepted c req (handler_of s c req d) \<Longrightarrow>
      arg q 0 = arg req 0 \<Longrightarrow>
      handler_of g c' q (handler_of s c req d) = answer 1 [canon (rr_data req ! 1)] c' q (handler_of s c req d)"
  shows "reads_back (s, g, Suc 0, Suc 0, canon)"
proof (rule reads_backI)
  fix c c' d and req q :: reqresp
  assume a: "cfg_wf (cfg d)" "length (rr_data req) = 7" "length (rr_data q) = 7" "accepted c req (handler_of s c req d)"
    "take (Suc 0) (rr_data q) = take (Suc 0) (rr_data req)"
  from a(5) have "rr_data q ! 0 = rr_data req ! 0" by (metis nth_take zero_less_Suc)
  then have "arg q 0 = arg req 0" by (simp add: arg_def)
  moreover have "map canon (take (Suc 0) (drop (Suc 0) (rr_data req))) = [canon (rr_data req ! 1)]"
    using a(2) by (simp add: take_Suc hd_drop_conv_nth)
  ultimately show "handler_of g c' q (handler_of s c req d) =
      answer (Suc 0) (map canon (take (Suc 0) (drop (Suc 0) (rr_data req)))) c' q (handler_of s c req d)"
    using assms [OF a(1,2,4)] by simp
qed simp

lemma w32_arg [simp]: "w32 (arg req i) = rr_data req ! i"
  by (simp add: arg_def)

lemma accepted_if: "length (rr_data req) = 7 \<Longrightarrow> accepted c req (if b then sendresp c req (- 1) d else x) \<longleftrightarrow>
    \<not> b \<and> accepted c req x"
  by (simp add: accepted_sendresp w32_neg)

lemma reads_back_axes:
  "reads_back (REQ_SCFG_DEADZONE, REQ_GCFG_DEADZONE, Suc 0, Suc 0, id)"
  "reads_back (REQ_SCFG_AXISMAP, REQ_GCFG_AXISMAP, Suc 0, Suc 0, id)"
proof -
  show "reads_back (REQ_SCFG_DEADZONE, REQ_GCFG_DEADZONE, Suc 0, Suc 0, id)"
    by (rule reads_back_indexed)
      (simp add: handlers scfg_deadzone_def gcfg_deadzone_def accepted_if, simp add: axis_valid_def cfg_wf_def nat_less_iff)
  show "reads_back (REQ_SCFG_AXISMAP, REQ_GCFG_AXISMAP, Suc 0, Suc 0, id)"
    by (rule reads_back_indexed)
      (simp add: handlers scfg_axismap_def gcfg_axismap_def accepted_if, simp add: axis_valid_def cfg_wf_def nat_less_iff)
qed

lemma reads_back_vectors:
  "reads_back (REQ_SCFG_SENS_AXIS, REQ_GCFG_SENS_AXIS, 0, 6, id)" "reads_back (REQ_SCFG_INVERT, REQ_GCFG_INVERT, 0, 6, flag)"
proof -
  have "take 3 (take 6 xs) @ drop 3 (take 6 xs) = take 6 (xs :: u32 list)" for xs by (rule append_take_drop_id)
  then show "reads_back (REQ_SCFG_SENS_AXIS, REQ_GCFG_SENS_AXIS, 0, 6, id)"
    by (intro reads_backI)
      (simp_all add: handlers scfg_sens_axis_def gcfg_sens_axis_def accepted_sendresp w32_neg Let_def split: if_splits)
  have "sint w = 0 \<longleftrightarrow> w = 0" for w :: u32 by (simp add: signed_eq_0_iff)
  then have "map w32 (map (\<lambda>i. if arg req i \<noteq> 0 then 1 else 0) [0..<6]) = map flag (take 6 (rr_data req))"
    if "length (rr_data req) = 7" for req :: reqresp
    using that by (intro nth_equalityI) (auto simp: arg_def flag_def w32_def)
  then show "reads_back (REQ_SCFG_INVERT, REQ_GCFG_INVERT, 0, 6, flag)"
    by (intro reads_backI) (simp_all add: handlers scfg_invert_def gcfg_invert_def del: map_map)
qed

lemma reads_back_buttons:
  "reads_back (REQ_SCFG_BNMAP, REQ_GCFG_BNMAP, Suc 0, Suc 0, id)"
  "reads_back (REQ_SCFG_BNACTION, REQ_GCFG_BNACTION, Suc 0, Suc 0, id)"
  "reads_back (REQ_SCFG_KBMAP, REQ_GCFG_KBMAP, Suc 0, Suc 0, key_or_none)"
proof -
  show "reads_back (REQ_SCFG_BNMAP, REQ_GCFG_BNMAP, Suc 0, Suc 0, id)"
    by (rule reads_back_indexed)
      (simp add: handlers scfg_bnmap_def gcfg_bnmap_def accepted_if, simp add: bn_valid_def cfg_wf_def nat_less_iff)
  show "reads_back (REQ_SCFG_BNACTION, REQ_GCFG_BNACTION, Suc 0, Suc 0, id)"
    by (rule reads_back_indexed)
      (simp add: handlers scfg_bnaction_def gcfg_bnaction_def accepted_if, simp add: bn_valid_def cfg_wf_def nat_less_iff)
  have len: "cfg_wf k \<Longrightarrow> i < 64 \<Longrightarrow> length (kbmap k ! i) = 8 \<and> i < length (kbmap k) \<and> i < length (kbmap_count k)" for k i
    by (auto simp: cfg_wf_def list_all_length)
  show "reads_back (REQ_SCFG_KBMAP, REQ_GCFG_KBMAP, Suc 0, Suc 0, key_or_none)"
  proof (rule reads_back_indexed)
    fix c c' d and req q :: reqresp
    assume a: "cfg_wf (cfg d)" "length (rr_data req) = 7" "accepted c req (handler_of REQ_SCFG_KBMAP c req d)" "arg q 0 = arg req 0"
    then have valid: "bn_valid (arg req 0)" by (simp add: handlers scfg_kbmap_def Let_def accepted_if)
    then have "nat (arg req 0) < 64" by (simp add: bn_valid_def nat_less_iff)
    note len = len [OF a(1) this]
    from a valid have kb: "kbmap (cfg (handler_of REQ_SCFG_KBMAP c req d)) ! nat (arg req 0) ! 0 = rr_data req ! 1"
      "kbmap_count (cfg (handler_of REQ_SCFG_KBMAP c req d)) ! nat (arg req 0) = (if 0 < arg req 1 then 1 else 0)"
      using len by (auto simp: handlers scfg_kbmap_def Let_def accepted_if split_beta cfg_calloc)
    from valid a(4) show "handler_of REQ_GCFG_KBMAP c' q (handler_of REQ_SCFG_KBMAP c req d) =
        answer 1 [key_or_none (rr_data req ! 1)] c' q (handler_of REQ_SCFG_KBMAP c req d)"
      unfolding handlers(16) gcfg_kbmap_def a(4) kb by (simp add: key_or_none_def arg_def)
  qed
qed

lemma reads_back_switches:
  "reads_back (REQ_SCFG_SENS, REQ_GCFG_SENS, 0, Suc 0, id)"
  "reads_back (REQ_SCFG_SWAPYZ, REQ_GCFG_SWAPYZ, 0, Suc 0, flag)" "reads_back (REQ_SCFG_LED, REQ_GCFG_LED, 0, Suc 0, id)"
  "reads_back (REQ_SCFG_GRAB, REQ_GCFG_GRAB, 0, Suc 0, flag)" "reads_back (REQ_SCFG_REPEAT, REQ_GCFG_REPEAT, 0, Suc 0, id)"
proof -
  have flag: "w32 (if arg req 0 \<noteq> 0 then 1 else 0) = flag (rr_data req ! 0)" for req
    by (simp add: arg_def flag_def w32_def signed_eq_0_iff)
  show "reads_back (REQ_SCFG_SENS, REQ_GCFG_SENS, 0, Suc 0, id)"
    by (rule reads_back_value) (simp add: handlers scfg_sens_def gcfg_sens_def accepted_sendresp w32_neg split: if_splits)
  show "reads_back (REQ_SCFG_SWAPYZ, REQ_GCFG_SWAPYZ, 0, Suc 0, flag)"
    by (rule reads_back_value) (simp add: handlers scfg_swapyz_def gcfg_swapyz_def flag [symmetric])
  show "reads_back (REQ_SCFG_GRAB, REQ_GCFG_GRAB, 0, Suc 0, flag)"
    by (rule reads_back_value) (simp add: handlers scfg_grab_def gcfg_grab_def flag [symmetric])
  show "reads_back (REQ_SCFG_LED, REQ_GCFG_LED, 0, Suc 0, id)"
    by (rule reads_back_value) (simp add: handlers scfg_led_def gcfg_led_def accepted_if)
  show "reads_back (REQ_SCFG_REPEAT, REQ_GCFG_REPEAT, 0, Suc 0, id)"
    by (rule reads_back_value) (simp add: handlers scfg_repeat_def gcfg_repeat_def)
qed

lemma settings_read_back: "list_all reads_back settings"
  unfolding settings_def using reads_back_axes reads_back_vectors reads_back_buttons reads_back_switches by simp

section \<open>Properties\<close>


definition one_client :: daemon where
  "one_client = start_state\<lparr>fresh := 1, client_list := [(calloc_client 0)\<lparr>c_type := CLIENT_UNIX, c_sock := 7, c_proto := 1\<rparr>]\<rparr>"

lemma one_client_inv: "requests_inv one_client"
proof -
  have "cfg_wf default_cfg"
    by (auto simp: cfg_wf_def default_cfg_def list_all_iff bn_valid_def bnact_valid_def)
  then show ?thesis
    by (simp add: requests_inv_def one_client_def clients_wf_def devices_wf_def client_ok_def calloc_client_def
        strbuf_wf_def strbuf_init_def)
qed


text \<open>
  C26: every request of a client is answered, with at least one packet of the type of the request to the
  client's socket and with nothing else in between, except for those three that the protocol also documents
  to be answered by a status: the client's name, the serial device and the path of the socket are accepted
  or refused in silence.
\<close>

theorem every_request_answered:
  assumes "requests_inv d" "c \<in> set (client_list d)" "length (rr_data req) = 7" "0 \<le> c_sock c"
  shows "let d' = snd (handle_request c req d) in
    if rr_type req AND 0xffff \<in> {REQ_SET_NAME, REQ_SCFG_SERDEV, REQ_SCFG_SOCKET} then replies d' = replies d
    else \<exists>rrs. rrs \<noteq> [] \<and> replies d' = replies d @ map (Reply (c_sock c)) rrs \<and>
      list_all (\<lambda>rr. rr_type rr = rr_type req \<and> length (rr_data rr) = 7) rrs"
  using handler_answers [of "rr_type req"] assms
  by (auto simp: handle_request_def silent_def answers_def packets_of_def Let_def split: if_splits)

theorem every_request_answered_witness:
  "\<exists>rrs. rrs \<noteq> [] \<and> replies (snd (handle_request (hd (client_list one_client))
     \<lparr>rr_type = REQ_DEV_NAME, rr_data = replicate 7 0\<rparr> one_client)) = map (Reply 7) rrs"
  using every_request_answered [OF one_client_inv, of "hd (client_list one_client)" "\<lparr>rr_type = REQ_DEV_NAME, rr_data = replicate 7 0\<rparr>"]
  by (auto simp: one_client_def Let_def replies_def)

text \<open>
  C27: what a client sets can be read back: after a request that sets a value of the configuration has been
  answered with success, the request that asks for it, from any client, is answered with the same
  axis or button and the same value (a switch as 0 or 1, a key that is not positive as no key).
\<close>

theorem settings_read_back_by_clients:
  assumes "(set_req, get_req, k, n, canon) \<in> set settings" "cfg_wf (cfg d)"
    and "rr_type req = set_req" "length (rr_data req) = 7" "rr_type q = get_req" "length (rr_data q) = 7"
    and "handle_request c req d = (0, d')" "last (out d') = Reply (c_sock c) (req\<lparr>rr_data := (rr_data req)[6 := 0]\<rparr>)"
    and "take k (rr_data q) = take k (rr_data req)"
  shows "\<exists>rr. out (snd (handle_request c' q d')) = out d' @ [Reply (c_sock c') rr] \<and> rr_type rr = get_req \<and>
    rr_data rr ! 6 = 0 \<and> take (k + n) (rr_data rr) = take k (rr_data req) @ map canon (take n (drop k (rr_data req)))"
proof -
  have d': "d' = handler_of set_req c req d" using assms(3,7) by (simp add: handle_request_def)
  have "reads_back (set_req, get_req, k, n, canon)"
    using settings_read_back assms(1) unfolding list_all_iff by (rule bspec)
  then have "\<exists>rr. out (handler_of get_req c' q d') = out d' @ [Reply (c_sock c') rr] \<and> rr_type rr = rr_type q \<and>
      length (rr_data rr) = 7 \<and> rr_data rr ! 6 = 0 \<and>
      take (k + n) (rr_data rr) = take k (rr_data req) @ map canon (take n (drop k (rr_data req)))"
    using assms unfolding d' by (auto simp: reads_back_def accepted_def)
  with assms(5) show ?thesis by (auto simp: handle_request_def)
qed

theorem settings_read_back_by_clients_witness:
  "let c = hd (client_list one_client);
       d = snd (handle_request c \<lparr>rr_type = REQ_SCFG_DEADZONE, rr_data = [3, 9, 0, 0, 0, 0, 0]\<rparr> one_client)
   in \<exists>rr. out (snd (handle_request c \<lparr>rr_type = REQ_GCFG_DEADZONE, rr_data = [3, 0, 0, 0, 0, 0, 0]\<rparr> d)) =
       out d @ [Reply 7 rr] \<and> take 2 (rr_data rr) = [3, 9]"
proof -
  let ?c = "hd (client_list one_client)"
  let ?req = "\<lparr>rr_type = REQ_SCFG_DEADZONE, rr_data = [3, 9, 0, 0, 0, 0, 0]\<rparr> :: reqresp"
  let ?q = "\<lparr>rr_type = REQ_GCFG_DEADZONE, rr_data = [3, 0, 0, 0, 0, 0, 0]\<rparr> :: reqresp"
  let ?d = "snd (handle_request ?c ?req one_client)"
  have "cfg_wf (cfg one_client)" using one_client_inv by (simp add: requests_inv_def)
  moreover have "(REQ_SCFG_DEADZONE, REQ_GCFG_DEADZONE, 1, 1, id) \<in> set settings" by (simp add: settings_def)
  moreover have "last (out ?d) = Reply (c_sock ?c) (?req\<lparr>rr_data := (rr_data ?req)[6 := 0]\<rparr>)"
    by (simp add: handle_request_def handlers scfg_deadzone_def arg_def axis_valid_def sendresp_def emit_def w32_neg)
  moreover have "c_sock ?c = 7" by (simp add: one_client_def)
  ultimately show ?thesis
    using settings_read_back_by_clients [of REQ_SCFG_DEADZONE REQ_GCFG_DEADZONE 1 1 id one_client ?req ?q ?c ?d ?c]
    by (auto simp: Let_def numeral_2_eq_2 handle_request_def)
qed

end
