(* ===== verification/XProto.thy ===== *)
theory XProto
  imports Requests
begin

text \<open>
  The clients of the X server (src/proto_x11.c, without XInput2) and the wait for an X server
  (src/xdetect_linux.c). What Xlib finds on the connection comes from \<open>x_in\<close>: it calls the error handlers while
  \<open>handle_xevents\<close> reads. The environment variable XAUTHORITY, which only Xlib uses, is left out.
\<close>

section \<open>Waiting for the X server\<close>

definition inotify_init :: "daemon \<Rightarrow> int \<times> daemon" where
  "inotify_init d = (case ino_init d of [] \<Rightarrow> (- 1, d) | fd # fds \<Rightarrow> (fd, d\<lparr>ino_init := fds\<rparr>))"

definition inotify_add_watch :: "daemon \<Rightarrow> int \<times> daemon" where
  "inotify_add_watch d = (case ino_watch d of [] \<Rightarrow> (- 1, d) | w # ws \<Rightarrow> (w, d\<lparr>ino_watch := ws\<rparr>))"

definition xdet_start :: "daemon \<Rightarrow> int \<times> daemon" where
  "xdet_start d =
     (let (fd, d) = inotify_init d; d = d\<lparr>xdet_fd := fd\<rparr> in
      if fd = - 1 then (- 1, d)
      else
        let (w, d) = inotify_add_watch d; d = d\<lparr>watch_x11 := w\<rparr> in
        if w \<noteq> - 1 then (fd, d)
        else
          let (w, d) = inotify_add_watch d; d = d\<lparr>watch_tmp := w\<rparr> in
          if w \<noteq> - 1 then (fd, d)
          else (- 1, (emit (Close fd) d)\<lparr>xdet_fd := - 1\<rparr>))"

definition xdet_stop :: "daemon \<Rightarrow> daemon" where
  "xdet_stop d =
     (if xdet_fd d = - 1 then d
      else (emit (Close (xdet_fd d)) d)\<lparr>xdet_fd := - 1, watch_tmp := - 1, watch_x11 := - 1\<rparr>)"

section \<open>The connection\<close>

definition x_open_display :: "daemon \<Rightarrow> (nat \<times> int) option \<times> daemon" where
  "x_open_display d = (case x_open d of [] \<Rightarrow> (None, d) | r # rs \<Rightarrow> (r, d\<lparr>x_open := rs\<rparr>))"

definition init_x11 :: "daemon \<Rightarrow> int \<times> daemon" where
  "init_x11 d =
     (if dpy d \<noteq> None then (0, d)
      else
        let d = (if display_env d = None then d\<lparr>display_env := Some '':0.0''\<rparr> else d);
            (r, d) = x_open_display d in
        case r of
          None \<Rightarrow> (- 1, snd (xdet_start d))
        | Some (p, fd) \<Rightarrow>
            let d = d\<lparr>dpy := Some p, x_fd := fd\<rparr>;
                d = emit XCreateWindow d;
                d = fold (\<lambda>root. emit (XSetCommand root)) (e_roots (envt d)) d;
                d = kbemu_set_display (Some p) d in
            (0, xdet_stop d))"

fun remove_x11_loop :: "nat \<Rightarrow> nat option \<Rightarrow> daemon \<Rightarrow> daemon" where
  \<comment> \<open>the second loop of \<open>close_x11\<close>; the first number bounds its rounds\<close>
  "remove_x11_loop n None d = d"
| "remove_x11_loop 0 (Some p) d = d"
| "remove_x11_loop (Suc n) (Some p) d =
     (let (cnode, d) = next_client d in
      case get_client p d of
        None \<Rightarrow> d\<lparr>fault := True\<rparr>
      | Some c \<Rightarrow> remove_x11_loop n cnode (if c_type c = CLIENT_X11 then remove_client p d else d))"

definition remove_x11_clients :: "daemon \<Rightarrow> daemon" where
  "remove_x11_clients d = (let (cnode, d) = first_client d in remove_x11_loop (length (client_list d)) cnode d)"

definition close_x11 :: "daemon \<Rightarrow> daemon" where
  "close_x11 d =
     (let d = (case dpy d of
          None \<Rightarrow> d
        | Some p \<Rightarrow>
            let d = fold (\<lambda>root. emit (XDeleteCommand root)) (e_roots (envt d)) d;
                d = emit (XClose p) (emit XDestroyWindow d) in
            kbemu_set_display None (d\<lparr>dpy := None\<rparr>)) in
      remove_x11_clients d)"

definition get_x11_socket :: "daemon \<Rightarrow> int" where
  "get_x11_socket d = (if dpy d \<noteq> None then x_fd d else xdet_fd d)"

section \<open>Clients by their window\<close>

fun find_window :: "nat \<Rightarrow> u32 \<Rightarrow> nat option \<Rightarrow> daemon \<Rightarrow> nat option \<times> daemon" where
  \<comment> \<open>the loop of \<open>set_client_window\<close>: the first client with a window\<close>
  "find_window n win None d = (None, d)"
| "find_window 0 win (Some p) d = (None, d)"
| "find_window (Suc n) win (Some p) d =
     (case get_client p d of
        None \<Rightarrow> (None, d\<lparr>fault := True\<rparr>)
      | Some c \<Rightarrow>
          if c_win c = win then (Some p, d)
          else let (cnode, d) = next_client d in find_window n win cnode d)"

definition set_client_window :: "u32 \<Rightarrow> daemon \<Rightarrow> daemon" where
  "set_client_window win d =
     (if win \<in> set (e_roots (envt d)) then d
      else
        let (cnode, d) = first_client d; (found, d) = find_window (length (client_list d)) win cnode d in
        if found \<noteq> None then d else snd (add_client CLIENT_X11 0 win d))"

fun remove_window_loop :: "nat \<Rightarrow> u32 \<Rightarrow> nat option \<Rightarrow> daemon \<Rightarrow> daemon" where
  "remove_window_loop n win None d = d"
| "remove_window_loop 0 win (Some p) d = d"
| "remove_window_loop (Suc n) win (Some p) d =
     (let (cnode, d) = next_client d in
      case get_client p d of
        None \<Rightarrow> d\<lparr>fault := True\<rparr>
      | Some c \<Rightarrow> if c_win c = win then remove_client p d else remove_window_loop n win cnode d)"

definition remove_client_window :: "u32 \<Rightarrow> daemon \<Rightarrow> daemon" where
  "remove_client_window win d =
     (let (cnode, d) = first_client d in remove_window_loop (length (client_list d)) win cnode d)"

section \<open>Events\<close>

definition xerr :: "bool \<Rightarrow> u32 \<Rightarrow> daemon \<Rightarrow> daemon" where
  "xerr bad_window res d = (if bad_window then remove_client_window res d else d)"

definition xioerr :: "daemon \<Rightarrow> daemon" where
  "xioerr d = snd (xdet_start (close_x11 (d\<lparr>dpy := None\<rparr>)))"

abbreviation (input) CMD_APP_WINDOW :: int where "CMD_APP_WINDOW \<equiv> 27695"
abbreviation (input) CMD_APP_SENS :: int where "CMD_APP_SENS \<equiv> 27696"

definition window_of :: "int \<Rightarrow> int \<Rightarrow> u32" where
  \<comment> \<open>from the first two shorts: the second is extended with its sign\<close>
  "window_of s0 s1 = w32 s1 OR push_bit 16 (w32 s0)"

definition float_of_shorts :: "int \<Rightarrow> int \<Rightarrow> f32" where
  "float_of_shorts s0 s1 = w32 (s0 mod 65536 + 65536 * (s1 mod 65536))"

definition x_message :: "xmsg \<Rightarrow> daemon \<Rightarrow> daemon" where
  "x_message m d =
     (if \<not> m_cmd m then d
      else if m_s2 m = CMD_APP_WINDOW then set_client_window (window_of (m_s0 m) (m_s1 m)) d
      else if m_s2 m = CMD_APP_SENS then d\<lparr>x11_sens := float_of_shorts (m_s0 m) (m_s1 m)\<rparr>
      else d)"

fun x_events :: "x_input list \<Rightarrow> daemon \<Rightarrow> daemon" where
  \<comment> \<open>the loop over \<open>XPending\<close>; the handler for a lost server leaves it with \<open>longjmp\<close>\<close>
  "x_events [] d = d\<lparr>x_in := []\<rparr>"
| "x_events (Xmsg m # xs) d = x_events xs (x_message m d)"
| "x_events (Xerror bad res # xs) d = x_events xs (xerr bad res d)"
| "x_events (Xlost # xs) d = xioerr (d\<lparr>x_in := []\<rparr>)"

primrec try_xconnect :: "nat \<Rightarrow> daemon \<Rightarrow> int \<times> daemon" where
  \<comment> \<open>so many tries, a second apart\<close>
  "try_xconnect 0 d = (- 1, d)"
| "try_xconnect (Suc n) d = (let (r, d) = init_x11 d in if r \<noteq> - 1 then (0, d) else try_xconnect n d)"

definition display_number :: "daemon \<Rightarrow> int" where
  "display_number d =
     (case display_env d of
        None \<Rightarrow> 0
      | Some str \<Rightarrow>
          (case dropWhile (\<lambda>c. c \<noteq> CHR '':'') str of
             _ # c # cs \<Rightarrow> if is_digit 10 c then the (scan_d (c # cs)) else 0
           | _ \<Rightarrow> 0))"

definition xdet_event :: "int \<Rightarrow> string \<Rightarrow> daemon \<Rightarrow> bool \<times> daemon" where
  \<comment> \<open>a watch and the name of a new file; whether the server has been connected to\<close>
  "xdet_event wd name d =
     (if wd = watch_tmp d then
        (if watch_x11 d \<noteq> - 1 then (False, d)
         else if name = ''.X11-unix'' then
           (let (w, d) = inotify_add_watch d; d = d\<lparr>watch_x11 := w\<rparr> in
            if w = - 1 then (False, d) else let (r, d) = try_xconnect 15 d in (r = 0, d))
         else (False, d))
      else if wd = watch_x11 d \<and> name = ''X'' @ print_d (display_number d) then
        (let (r, d) = try_xconnect 15 d in (r = 0, d))
      else (False, d))"

lemma xdet_start_shrinks:
  "length (ino_init (snd (xdet_start d))) < length (ino_init d) \<or>
     ino_init (snd (xdet_start d)) = ino_init d \<and> xdet_fd (snd (xdet_start d)) = - 1"
  by (auto simp: xdet_start_def inotify_init_def inotify_add_watch_def emit_def Let_def split: list.split)

lemma init_x11_shrinks:
  assumes "fst (init_x11 d) = - 1"
  shows "length (ino_init (snd (init_x11 d))) < length (ino_init d) \<or>
     ino_init (snd (init_x11 d)) = ino_init d \<and> xdet_fd (snd (init_x11 d)) = - 1"
proof -
  let ?d = "if display_env d = None then d\<lparr>display_env := Some '':0.0''\<rparr> else d"
  let ?x = "snd (x_open_display ?d)"
  have "ino_init ?x = ino_init d" by (simp add: x_open_display_def split: list.split)
  moreover have "snd (init_x11 d) = snd (xdet_start ?x)"
    using assms by (auto simp: init_x11_def split_beta Let_def split: if_splits option.splits)
  ultimately show ?thesis using xdet_start_shrinks [of ?x] by simp
qed

lemma try_xconnect_shrinks:
  "0 < n \<Longrightarrow> fst (try_xconnect n d) \<noteq> 0 \<Longrightarrow>
     length (ino_init (snd (try_xconnect n d))) < length (ino_init d) \<or>
     ino_init (snd (try_xconnect n d)) = ino_init d \<and> xdet_fd (snd (try_xconnect n d)) = - 1"
proof (induction n arbitrary: d)
  case (Suc n)
  then have fail: "fst (init_x11 d) = - 1" by (auto simp: split_beta split: if_splits)
  then have eq: "try_xconnect (Suc n) d = try_xconnect n (snd (init_x11 d))" by (simp add: split_beta)
  show ?case
  proof (cases n)
    case 0
    with init_x11_shrinks [OF fail] fail show ?thesis by (simp add: split_beta)
  next
    case (Suc m)
    then show ?thesis using Suc.IH [of "snd (init_x11 d)"] Suc.prems init_x11_shrinks [OF fail] unfolding eq by auto
  qed
qed simp

lemma xdet_event_shrinks:
  assumes "\<not> fst (xdet_event wd name d)"
  shows "length (ino_init (snd (xdet_event wd name d))) < length (ino_init d) \<or>
     ino_init (snd (xdet_event wd name d)) = ino_init d \<and>
     (xdet_fd (snd (xdet_event wd name d)) = - 1 \<or>
      xdet_fd (snd (xdet_event wd name d)) = xdet_fd d \<and> ino_in (snd (xdet_event wd name d)) = ino_in d)"
proof -
  have w: "ino_init (snd (inotify_add_watch d)) = ino_init d" "xdet_fd (snd (inotify_add_watch d)) = xdet_fd d"
    "ino_in (snd (inotify_add_watch d)) = ino_in d"
    by (simp_all add: inotify_add_watch_def split: list.split)
  show ?thesis
    using assms try_xconnect_shrinks [of 15 d]
      try_xconnect_shrinks [of 15 "(snd (inotify_add_watch d))\<lparr>watch_x11 := fst (inotify_add_watch d)\<rparr>"]
    by (auto simp: xdet_event_def split_beta Let_def w split: if_splits)
qed

function xdet_loop :: "daemon \<Rightarrow> int \<times> daemon" where
  \<comment> \<open>each round reads; of the events that it gets, only the first is looked at\<close>
  "xdet_loop d =
     (if xdet_fd d = - 1 then (- 1, d)
      else case ino_in d (xdet_fd d) of
        [] \<Rightarrow> (- 1, d)
      | [] # rest \<Rightarrow> (- 1, d\<lparr>ino_in := (ino_in d)(xdet_fd d := rest)\<rparr>)
      | ((wd, name) # evs) # rest \<Rightarrow>
          let (found, d) = xdet_event wd name (d\<lparr>ino_in := (ino_in d)(xdet_fd d := rest)\<rparr>) in
          if found then (0, d) else xdet_loop d)"
  by pat_completeness auto
termination
proof (relation "measures [\<lambda>d. length (ino_init d), \<lambda>d. if xdet_fd d = - 1 then 0 else length (ino_in d (xdet_fd d))]", goal_cases)
  case (2 d r rest ev evs wd name p found d')
  then have "(found, d') = xdet_event wd name (d\<lparr>ino_in := (ino_in d)(xdet_fd d := rest)\<rparr>)" "\<not> found" by simp_all
  then have "\<not> fst (xdet_event wd name (d\<lparr>ino_in := (ino_in d)(xdet_fd d := rest)\<rparr>))"
    "d' = snd (xdet_event wd name (d\<lparr>ino_in := (ino_in d)(xdet_fd d := rest)\<rparr>))"
    by (metis fst_conv, metis snd_conv)
  with xdet_event_shrinks [OF this(1)] 2 show ?case by auto
qed simp

declare xdet_loop.simps [simp del]

definition handle_xdet_events :: "int list \<Rightarrow> daemon \<Rightarrow> int \<times> daemon" where
  "handle_xdet_events rset d = (if xdet_fd d = - 1 \<or> xdet_fd d \<notin> set rset then (- 1, d) else xdet_loop d)"

definition handle_xevents :: "int list \<Rightarrow> daemon \<Rightarrow> int \<times> daemon" where
  "handle_xevents rset d =
     (if dpy d = None then (- 1, if xdet_fd d \<noteq> - 1 then snd (handle_xdet_events rset d) else d)
      else (0, if x_fd d \<in> set rset then x_events (x_in d) d else d))"

section \<open>What the loops over the clients do\<close>

abbreviation (input) unix :: "client \<Rightarrow> bool" where "unix c \<equiv> c_type c \<noteq> CLIENT_X11"

lemma filter_addr:
  assumes "distinct (map c_addr (as @ c # cs))"
  shows "filter (\<lambda>x. c_addr x \<noteq> c_addr c) (as @ c # cs) = as @ cs"
proof -
  have "\<forall>x \<in> set as \<union> set cs. c_addr x \<noteq> c_addr c" using assms by (auto simp: image_iff)
  then show ?thesis by (simp add: filter_id_conv)
qed

lemma clients_wf_iter [simp]: "clients_wf (d\<lparr>client_iter := p\<rparr>) = clients_wf d" "clients_wf (emit e d) = clients_wf d"
  by (simp_all add: clients_wf_def emit_def)

lemma all_leds_frame [simp]: "all_leds st (d\<lparr>client_list := cs\<rparr>) = all_leds st d" "all_leds st (d\<lparr>client_iter := p\<rparr>) = all_leds st d"
  "all_leds st (d\<lparr>out := os\<rparr>) = all_leds st d"
  by (simp_all add: all_leds_def)

lemma remove_x11_loop_eq:
  "client_list d = as @ cs \<Longrightarrow> clients_wf d \<Longrightarrow> client_iter d = client_at cs \<Longrightarrow> length cs \<le> n \<Longrightarrow>
   remove_x11_loop n (client_at cs) d =
     d\<lparr>client_iter := None, client_list := as @ filter unix cs,
       out := out d @ (if cs \<noteq> [] \<and> as @ filter unix cs = [] \<and> led (cfg d) = LED_AUTO then all_leds 0 d else [])\<rparr>"
proof (induction cs arbitrary: as d n)
  case Nil
  then show ?case by (simp add: client_at_def)
next
  case (Cons c cs)
  then obtain m where n: "n = Suc m" by (cases n) auto
  have at: "client_at (c # cs) = Some (c_addr c)" by (simp add: client_at_def)
  have dist: "distinct (map c_addr (client_list d))" using Cons.prems(2) by (simp add: clients_wf_def)
  from Cons.prems have iter: "client_iter d = Some (c_addr c)" by (simp add: at)
  note nx = next_client_at [OF Cons.prems(1) dist iter]
  let ?d = "d\<lparr>client_iter := client_at cs\<rparr>"
  have gc: "get_client (c_addr c) ?d = Some c" using nx(2) by (simp add: get_client_def)
  show ?case
  proof (cases "unix c")
    case True
    have "remove_x11_loop n (Some (c_addr c)) d = remove_x11_loop m (client_at cs) ?d"
      unfolding n using True by (simp add: nx gc)
    also have "\<dots> = ?d\<lparr>client_iter := None, client_list := (as @ [c]) @ filter unix cs, out := out ?d @ []\<rparr>"
      by (subst Cons.IH [of _ "as @ [c]"]) (use Cons.prems n in simp_all)
    finally show ?thesis using True by (simp add: at)
  next
    case False
    let ?e = "remove_client (c_addr c) ?d"
    have rm: "?e = ?d\<lparr>client_list := as @ cs,
        out := out d @ (if as @ cs = [] \<and> led (cfg d) = LED_AUTO then all_leds 0 d else [])\<rparr>"
      using Cons.prems(2) filter_addr [of as c cs] dist
      by (subst remove_client_eq) (simp_all add: Cons.prems(1) Let_def)
    have "remove_x11_loop n (Some (c_addr c)) d = remove_x11_loop m (client_at cs) ?e"
      unfolding n using False by (simp add: nx gc)
    also have "\<dots> = ?e\<lparr>client_iter := None, client_list := as @ filter unix cs,
       out := out ?e @ (if cs \<noteq> [] \<and> as @ filter unix cs = [] \<and> led (cfg ?e) = LED_AUTO then all_leds 0 ?e else [])\<rparr>"
    proof (rule Cons.IH)
      show "clients_wf ?e" using clients_wf_step [of ?d "Remove (c_addr c)"] Cons.prems(2) by simp
    qed (use Cons.prems n in \<open>simp_all add: rm\<close>)
    finally show ?thesis using False by (auto simp: at rm)
  qed
qed

lemma remove_x11_clients_eq:
  assumes "clients_wf d"
  shows "remove_x11_clients d =
    d\<lparr>client_iter := None, client_list := filter unix (client_list d),
      out := out d @ (if client_list d \<noteq> [] \<and> filter unix (client_list d) = [] \<and> led (cfg d) = LED_AUTO then all_leds 0 d else [])\<rparr>"
  using remove_x11_loop_eq [of "d\<lparr>client_iter := client_at (client_list d)\<rparr>" "[]" "client_list d" "length (client_list d)"] assms
  by (simp add: remove_x11_clients_def first_client_def Let_def)

lemma find_window_eq:
  "client_list d = as @ cs \<Longrightarrow> distinct (map c_addr (client_list d)) \<Longrightarrow> client_iter d = client_at cs \<Longrightarrow> length cs \<le> n \<Longrightarrow>
   find_window n win (client_at cs) d =
     (map_option c_addr (search (\<lambda>c. c_win c = win) cs),
      d\<lparr>client_iter := map_option c_addr (search (\<lambda>c. c_win c = win) cs)\<rparr>)"
proof (induction cs arbitrary: as d n)
  case Nil
  then show ?case by (simp add: client_at_def)
next
  case (Cons c cs)
  then obtain m where n: "n = Suc m" by (cases n) auto
  have at: "client_at (c # cs) = Some (c_addr c)" by (simp add: client_at_def)
  from Cons.prems have iter: "client_iter d = Some (c_addr c)" by (simp add: at)
  note nx = next_client_at [OF Cons.prems(1,2) iter]
  show ?case
  proof (cases "c_win c = win")
    case True
    have "d = d\<lparr>client_iter := Some (c_addr c)\<rparr>" using iter by simp
    with True show ?thesis by (simp add: at n nx)
  next
    case False
    then have "find_window n win (client_at (c # cs)) d = find_window m win (client_at cs) (d\<lparr>client_iter := client_at cs\<rparr>)"
      by (simp add: at n nx)
    with False Cons.IH [of "d\<lparr>client_iter := client_at cs\<rparr>" "as @ [c]" m] Cons.prems n show ?thesis by simp
  qed
qed

lemma set_client_window_eq:
  assumes "clients_wf d"
  shows "\<exists>p. set_client_window win d =
    (if win \<in> set (e_roots (envt d)) then d
     else if win \<in> c_win ` set (client_list d) then d\<lparr>client_iter := p\<rparr>
     else snd (add_client CLIENT_X11 0 win (d\<lparr>client_iter := None\<rparr>)))"
proof -
  let ?d = "d\<lparr>client_iter := client_at (client_list d)\<rparr>" and ?r = "search (\<lambda>c. c_win c = win) (client_list d)"
  have f: "find_window (length (client_list d)) win (client_at (client_list d)) ?d =
      (map_option c_addr ?r, d\<lparr>client_iter := map_option c_addr ?r\<rparr>)"
    using find_window_eq [of ?d "[]" "client_list d" "length (client_list d)" win] assms by (simp add: clients_wf_def)
  have "?r = None \<longleftrightarrow> win \<notin> c_win ` set (client_list d)" by (auto simp: search_None_iff)
  then show ?thesis
    by (cases ?r) (auto simp: set_client_window_def first_client_def Let_def f)
qed

lemma remove_window_loop_eq:
  "client_list d = as @ cs \<Longrightarrow> distinct (map c_addr (client_list d)) \<Longrightarrow> client_iter d = client_at cs \<Longrightarrow> length cs \<le> n \<Longrightarrow>
   \<exists>p. remove_window_loop n win (client_at cs) d =
     (case search (\<lambda>c. c_win c = win) cs of
        None \<Rightarrow> d\<lparr>client_iter := p\<rparr> | Some c \<Rightarrow> remove_client (c_addr c) (d\<lparr>client_iter := p\<rparr>))"
proof (induction cs arbitrary: as d n)
  case Nil
  then show ?case by (intro exI [of _ "client_iter d"]) (simp add: client_at_def)
next
  case (Cons c cs)
  then obtain m where n: "n = Suc m" by (cases n) auto
  have at: "client_at (c # cs) = Some (c_addr c)" by (simp add: client_at_def)
  from Cons.prems have iter: "client_iter d = Some (c_addr c)" by (simp add: at)
  note nx = next_client_at [OF Cons.prems(1,2) iter]
  let ?d = "d\<lparr>client_iter := client_at cs\<rparr>"
  have gc: "get_client (c_addr c) ?d = Some c" using nx(2) by (simp add: get_client_def)
  show ?case
  proof (cases "c_win c = win")
    case True
    then show ?thesis by (intro exI [of _ "client_at cs"]) (simp add: at n nx gc)
  next
    case False
    have "\<exists>p. remove_window_loop m win (client_at cs) ?d =
       (case search (\<lambda>c. c_win c = win) cs of
          None \<Rightarrow> ?d\<lparr>client_iter := p\<rparr> | Some c \<Rightarrow> remove_client (c_addr c) (?d\<lparr>client_iter := p\<rparr>))"
      by (rule Cons.IH [of _ "as @ [c]"]) (use Cons.prems n in simp_all)
    with False show ?thesis by (simp add: at n nx gc cong: option.case_cong)
  qed
qed

lemma remove_client_window_eq:
  assumes "clients_wf d"
  shows "\<exists>p. remove_client_window win d =
    (case search (\<lambda>c. c_win c = win) (client_list d) of
       None \<Rightarrow> d\<lparr>client_iter := p\<rparr> | Some c \<Rightarrow> remove_client (c_addr c) (d\<lparr>client_iter := p\<rparr>))"
  using remove_window_loop_eq [of "d\<lparr>client_iter := client_at (client_list d)\<rparr>" "[]" "client_list d" "length (client_list d)" win] assms
  by (simp add: remove_client_window_def first_client_def clients_wf_def Let_def cong: option.case_cong)

section \<open>What the operations may change\<close>

definition unplugged :: "daemon \<Rightarrow> daemon" where
  \<comment> \<open>without the state of the connection, the clients and the output\<close>
  "unplugged d = d\<lparr>client_list := [], client_iter := None, fresh := 0, fault := False, out := [], dpy := None, x_fd := 0,
     x11_sens := 0, kb_send := None, kb_dpy := None, xdet_fd := 0, watch_tmp := 0, watch_x11 := 0, display_env := None,
     x_open := [], x_in := [], ino_init := [], ino_watch := [], ino_in := (\<lambda>_. [])\<rparr>"

definition x_keeps :: "daemon \<Rightarrow> daemon \<Rightarrow> bool" where
  "x_keeps d d' \<longleftrightarrow> requests_inv d' \<and> unplugged d' = unplugged d \<and> fresh d \<le> fresh d' \<and> (kb_send d \<noteq> None \<longrightarrow> kb_send d' \<noteq> None)"

lemma x_keeps_refl: "requests_inv d \<Longrightarrow> x_keeps d d"
  by (simp add: x_keeps_def)

lemma x_keeps_trans: "x_keeps a b \<Longrightarrow> x_keeps b c \<Longrightarrow> x_keeps a c"
  by (auto simp: x_keeps_def)

lemma unplugged_sel:
  assumes "unplugged d' = unplugged d"
  shows "cfg d' = cfg d" "dev_list d' = dev_list d" "envt d' = envt d" "tables_wf d' = tables_wf d"
    "evdev_in d' = evdev_in d" "serial_in d' = serial_in d" "hotplug_fd d' = hotplug_fd d" "poll_pipe d' = poll_pipe d"
    "delay_pending d' = delay_pending d" "delay_pipe d' = delay_pipe d"
proof -
  have "cfg (unplugged d') = cfg (unplugged d)" "dev_list (unplugged d') = dev_list (unplugged d)"
    "envt (unplugged d') = envt (unplugged d)" "tables_wf (unplugged d') = tables_wf (unplugged d)"
    "evdev_in (unplugged d') = evdev_in (unplugged d)" "serial_in (unplugged d') = serial_in (unplugged d)"
    "hotplug_fd (unplugged d') = hotplug_fd (unplugged d)" "poll_pipe (unplugged d') = poll_pipe (unplugged d)"
    "delay_pending (unplugged d') = delay_pending (unplugged d)" "delay_pipe (unplugged d') = delay_pipe (unplugged d)"
    using assms by simp_all
  then show "cfg d' = cfg d" "dev_list d' = dev_list d" "envt d' = envt d" "tables_wf d' = tables_wf d"
    "evdev_in d' = evdev_in d" "serial_in d' = serial_in d" "hotplug_fd d' = hotplug_fd d" "poll_pipe d' = poll_pipe d"
    "delay_pending d' = delay_pending d" "delay_pipe d' = delay_pipe d"
    by (simp_all add: unplugged_def tables_wf_def)
qed

lemma requests_inv_connection:
  "requests_inv (x\<lparr>dpy := a\<rparr>) = requests_inv x" "requests_inv (x\<lparr>x_fd := i\<rparr>) = requests_inv x"
  "requests_inv (x\<lparr>x11_sens := w\<rparr>) = requests_inv x" "requests_inv (x\<lparr>kb_send := k\<rparr>) = requests_inv x"
  "requests_inv (x\<lparr>kb_dpy := a\<rparr>) = requests_inv x" "requests_inv (x\<lparr>xdet_fd := i\<rparr>) = requests_inv x"
  "requests_inv (x\<lparr>watch_tmp := i\<rparr>) = requests_inv x" "requests_inv (x\<lparr>watch_x11 := i\<rparr>) = requests_inv x"
  "requests_inv (x\<lparr>display_env := s\<rparr>) = requests_inv x" "requests_inv (x\<lparr>x_open := os\<rparr>) = requests_inv x"
  "requests_inv (x\<lparr>x_in := xs\<rparr>) = requests_inv x" "requests_inv (x\<lparr>ino_init := fds\<rparr>) = requests_inv x"
  "requests_inv (x\<lparr>ino_watch := fds\<rparr>) = requests_inv x" "requests_inv (x\<lparr>ino_in := f\<rparr>) = requests_inv x"
  "requests_inv (x\<lparr>fault := b\<rparr>) = requests_inv x" "requests_inv (x\<lparr>client_iter := p\<rparr>) = requests_inv x"
  "requests_inv (x\<lparr>out := es\<rparr>) = requests_inv x" "requests_inv (emit e x) = requests_inv x"
  by (simp_all add: requests_inv_def clients_wf_def devices_wf_def emit_def)

lemma x_keeps_fields:
  "x_keeps d (x\<lparr>dpy := a\<rparr>) = x_keeps d x" "x_keeps d (x\<lparr>x_fd := i\<rparr>) = x_keeps d x"
  "x_keeps d (x\<lparr>x11_sens := w\<rparr>) = x_keeps d x" "x_keeps d (x\<lparr>kb_dpy := a\<rparr>) = x_keeps d x"
  "x_keeps d (x\<lparr>xdet_fd := i\<rparr>) = x_keeps d x" "x_keeps d (x\<lparr>watch_tmp := i\<rparr>) = x_keeps d x"
  "x_keeps d (x\<lparr>watch_x11 := i\<rparr>) = x_keeps d x" "x_keeps d (x\<lparr>display_env := s\<rparr>) = x_keeps d x"
  "x_keeps d (x\<lparr>x_open := os\<rparr>) = x_keeps d x" "x_keeps d (x\<lparr>x_in := xs\<rparr>) = x_keeps d x"
  "x_keeps d (x\<lparr>ino_init := fds\<rparr>) = x_keeps d x" "x_keeps d (x\<lparr>ino_watch := fds\<rparr>) = x_keeps d x"
  "x_keeps d (x\<lparr>ino_in := f\<rparr>) = x_keeps d x" "x_keeps d (x\<lparr>fault := b\<rparr>) = x_keeps d x"
  "x_keeps d (x\<lparr>client_iter := p\<rparr>) = x_keeps d x" "x_keeps d (x\<lparr>out := es\<rparr>) = x_keeps d x" "x_keeps d (emit e x) = x_keeps d x"
  by (simp_all add: x_keeps_def requests_inv_connection) (simp_all add: unplugged_def emit_def)

lemma x_keeps_clients: "x_keeps d x \<Longrightarrow> clients_wf x"
  by (simp add: x_keeps_def requests_inv_def)

lemma x_keeps_filter: "x_keeps d x \<Longrightarrow> x_keeps d (x\<lparr>client_list := filter P (client_list x)\<rparr>)"
  by (auto simp: x_keeps_def requests_inv_def clients_wf_def unplugged_def distinct_map_filter list_all_iff intro: devices_wf_cong)

lemma x_keeps_remove: "x_keeps d x \<Longrightarrow> x_keeps d (remove_client a x)"
  by (simp add: remove_client_eq [OF x_keeps_clients] Let_def x_keeps_fields x_keeps_filter)

lemma x_keeps_add: "x_keeps d x \<Longrightarrow> x_keeps d (snd (add_client ty s w x))"
proof -
  assume x: "x_keeps d x"
  then have "clients_wf (snd (add_client ty s w x))"
    using clients_wf_step [OF x_keeps_clients [OF x], of "Add ty s w"] by simp
  moreover have "client_ok (add_result ty s w a)" for a
    by (simp add: client_ok_def add_result_def calloc_client_def strbuf_wf_def strbuf_init_def Let_def)
  ultimately show ?thesis
    using x by (auto simp: x_keeps_def unplugged_def requests_inv_def add_client_eq intro: devices_wf_cong)
qed

lemma x_keeps_display: "x_keeps d x \<Longrightarrow> x_keeps d (kbemu_set_display p x)"
  by (auto simp: kbemu_set_display_def kbemu_x11_init_def x_keeps_def requests_inv_connection unplugged_def)

lemma x_keeps_fold: "x_keeps d x \<Longrightarrow> x_keeps d (fold (\<lambda>r. emit (f r)) rs x)"
  by (induction rs arbitrary: x) (simp_all add: x_keeps_fields)

lemma x_keeps_system:
  "x_keeps d x \<Longrightarrow> x_keeps d (snd (inotify_init x))" "x_keeps d x \<Longrightarrow> x_keeps d (snd (inotify_add_watch x))"
  "x_keeps d x \<Longrightarrow> x_keeps d (snd (x_open_display x))"
  by (simp_all add: inotify_init_def inotify_add_watch_def x_open_display_def x_keeps_fields split: list.split)

lemma x_keeps_xdet: "x_keeps d x \<Longrightarrow> x_keeps d (snd (xdet_start x))" "x_keeps d x \<Longrightarrow> x_keeps d (xdet_stop x)"
  by (simp_all add: xdet_start_def xdet_stop_def split_beta Let_def x_keeps_fields x_keeps_system)

lemma x_keeps_init: "x_keeps d x \<Longrightarrow> x_keeps d (snd (init_x11 x))"
  by (simp add: init_x11_def split_beta Let_def x_keeps_fields x_keeps_system x_keeps_xdet x_keeps_display x_keeps_fold
      split: option.split)

lemma x_keeps_remove_x11: "x_keeps d x \<Longrightarrow> x_keeps d (remove_x11_clients x)"
  using x_keeps_filter [of d "x\<lparr>client_iter := None\<rparr>" unix]
  by (simp add: remove_x11_clients_eq [OF x_keeps_clients] x_keeps_fields)

lemma x_keeps_close: "x_keeps d x \<Longrightarrow> x_keeps d (close_x11 x)"
  by (simp add: close_x11_def Let_def x_keeps_fields x_keeps_display x_keeps_fold x_keeps_remove_x11 split: option.split)

lemma x_keeps_windows:
  "x_keeps d x \<Longrightarrow> x_keeps d (set_client_window win x)" "x_keeps d x \<Longrightarrow> x_keeps d (remove_client_window win x)"
proof -
  assume x: "x_keeps d x"
  obtain p where p: "set_client_window win x = (if win \<in> set (e_roots (envt x)) then x
     else if win \<in> c_win ` set (client_list x) then x\<lparr>client_iter := p\<rparr>
     else snd (add_client CLIENT_X11 0 win (x\<lparr>client_iter := None\<rparr>)))"
    using set_client_window_eq [OF x_keeps_clients [OF x], of win] by blast
  from x have "x_keeps d (x\<lparr>client_iter := None\<rparr>)" by (simp add: x_keeps_fields)
  from x x_keeps_add [OF this] show "x_keeps d (set_client_window win x)" unfolding p by (simp add: x_keeps_fields)
  obtain q where q: "remove_client_window win x = (case search (\<lambda>c. c_win c = win) (client_list x) of
       None \<Rightarrow> x\<lparr>client_iter := q\<rparr> | Some c \<Rightarrow> remove_client (c_addr c) (x\<lparr>client_iter := q\<rparr>))"
    using remove_client_window_eq [OF x_keeps_clients [OF x], of win] by blast
  from x have "x_keeps d (x\<lparr>client_iter := q\<rparr>)" by (simp add: x_keeps_fields)
  with x_keeps_remove [OF this] show "x_keeps d (remove_client_window win x)" unfolding q by (simp split: option.split)
qed

lemma x_keeps_events: "x_keeps d x \<Longrightarrow> x_keeps d (x_events xs x)"
  by (induction xs x rule: x_events.induct)
    (simp_all add: x_keeps_fields x_message_def x_keeps_windows xerr_def xioerr_def x_keeps_xdet x_keeps_close)

lemma x_keeps_try: "x_keeps d x \<Longrightarrow> x_keeps d (snd (try_xconnect n x))"
  by (induction n arbitrary: x) (simp_all add: split_beta x_keeps_init)

lemma x_keeps_xdet_event: "x_keeps d x \<Longrightarrow> x_keeps d (snd (xdet_event wd name x))"
  by (simp add: xdet_event_def split_beta Let_def x_keeps_try x_keeps_system x_keeps_fields)

lemma x_keeps_xdet_loop: "x_keeps d x \<Longrightarrow> x_keeps d (snd (xdet_loop x))"
proof (induction x rule: xdet_loop.induct)
  case (1 x)
  show ?case
  proof (cases "xdet_fd x = - 1 \<or> ino_in x (xdet_fd x) = [] \<or> hd (ino_in x (xdet_fd x)) = []")
    case True
    with 1(2) show ?thesis by (subst xdet_loop.simps) (auto simp: x_keeps_fields split: list.split)
  next
    case False
    then obtain wd name evs rest where e: "ino_in x (xdet_fd x) = ((wd, name) # evs) # rest"
      by (cases "ino_in x (xdet_fd x)"; cases "hd (ino_in x (xdet_fd x))") auto
    let ?y = "x\<lparr>ino_in := (ino_in x)(xdet_fd x := rest)\<rparr>"
    have y: "x_keeps d (snd (xdet_event wd name ?y))" using 1(2) by (simp add: x_keeps_xdet_event x_keeps_fields)
    have "\<not> fst (xdet_event wd name ?y) \<Longrightarrow> x_keeps d (snd (xdet_loop (snd (xdet_event wd name ?y))))"
      using 1(1) [OF _ e refl refl refl prod.collapse] False y by simp
    with y False e show ?thesis by (subst xdet_loop.simps) (simp add: split_beta Let_def)
  qed
qed

lemma x_keeps_handle: "x_keeps d x \<Longrightarrow> x_keeps d (snd (handle_xevents rset x))"
  by (simp add: handle_xevents_def handle_xdet_events_def x_keeps_xdet_loop x_keeps_events)

section \<open>The clients of the X server\<close>

definition x_windows :: "daemon \<Rightarrow> u32 list" where
  "x_windows d = map c_win (filter (\<lambda>c. c_type c = CLIENT_X11) (client_list d))"

definition x_inv :: "daemon \<Rightarrow> bool" where
  \<comment> \<open>each window once, no root window, and none without a connection\<close>
  "x_inv d \<longleftrightarrow> distinct (x_windows d) \<and> set (x_windows d) \<inter> set (e_roots (envt d)) = {} \<and> (dpy d = None \<longrightarrow> x_windows d = [])"

definition x_calm :: "daemon \<Rightarrow> daemon \<Rightarrow> bool" where
  "x_calm d x \<longleftrightarrow> client_list x = client_list d \<and> envt x = envt d \<and> (dpy x = None \<longrightarrow> dpy d = None)"

lemma x_calm_refl: "x_calm d d"
  by (simp add: x_calm_def)

lemma x_calm_inv: "x_calm d x \<Longrightarrow> x_inv d \<Longrightarrow> x_inv x"
  by (auto simp: x_calm_def x_inv_def x_windows_def)

lemma x_calm_fields:
  "x_calm d (x\<lparr>xdet_fd := i\<rparr>) = x_calm d x" "x_calm d (x\<lparr>watch_tmp := i\<rparr>) = x_calm d x" "x_calm d (x\<lparr>watch_x11 := i\<rparr>) = x_calm d x"
  "x_calm d (x\<lparr>display_env := s\<rparr>) = x_calm d x" "x_calm d (x\<lparr>x_open := os\<rparr>) = x_calm d x" "x_calm d (x\<lparr>x_in := xs\<rparr>) = x_calm d x"
  "x_calm d (x\<lparr>ino_init := fds\<rparr>) = x_calm d x" "x_calm d (x\<lparr>ino_watch := fds\<rparr>) = x_calm d x" "x_calm d (x\<lparr>ino_in := f\<rparr>) = x_calm d x"
  "x_calm d (x\<lparr>x_fd := i\<rparr>) = x_calm d x" "x_calm d (emit e x) = x_calm d x" "x_calm d (x\<lparr>kb_dpy := p\<rparr>) = x_calm d x"
  "x_calm d (x\<lparr>kb_send := k\<rparr>) = x_calm d x" "x_calm d (x\<lparr>x11_sens := w\<rparr>) = x_calm d x" "x_calm d (x\<lparr>fault := b\<rparr>) = x_calm d x"
  "x_calm d (x\<lparr>client_iter := it\<rparr>) = x_calm d x" "x_calm d (x\<lparr>fresh := n\<rparr>) = x_calm d x" "x_calm d (x\<lparr>out := es\<rparr>) = x_calm d x"
  "x_calm d x \<Longrightarrow> x_calm d (x\<lparr>dpy := Some q\<rparr>)"
  by (simp_all add: x_calm_def emit_def)

lemma x_calm_fold: "x_calm d x \<Longrightarrow> x_calm d (fold (\<lambda>r. emit (f r)) rs x)"
  by (induction rs arbitrary: x) (simp_all add: x_calm_fields)

lemma x_calm_init: "x_calm d x \<Longrightarrow> x_calm d (snd (init_x11 x))"
proof -
  have xdet: "x_calm d x \<Longrightarrow> x_calm d (snd (xdet_start x))" "x_calm d x \<Longrightarrow> x_calm d (xdet_stop x)"
    "x_calm d x \<Longrightarrow> x_calm d (snd (x_open_display x))" "x_calm d x \<Longrightarrow> x_calm d (kbemu_set_display p x)" for x p
    by (simp_all add: xdet_start_def xdet_stop_def inotify_init_def inotify_add_watch_def x_open_display_def
        kbemu_set_display_def kbemu_x11_init_def split_beta Let_def x_calm_fields split: list.split)
  then show "x_calm d x \<Longrightarrow> ?thesis"
    by (simp add: init_x11_def split_beta Let_def x_calm_fields x_calm_fold split: option.split)
qed

lemma x_calm_try: "x_calm d x \<Longrightarrow> x_calm d (snd (try_xconnect n x))"
  by (induction n arbitrary: x) (simp_all add: split_beta x_calm_init)

lemma x_calm_xdet_event: "x_calm d x \<Longrightarrow> x_calm d (snd (xdet_event wd name x))"
proof -
  assume x: "x_calm d x"
  then have "x_calm d (snd (inotify_add_watch x))" by (simp add: inotify_add_watch_def x_calm_fields split: list.split)
  with x show ?thesis by (simp add: xdet_event_def split_beta Let_def x_calm_try x_calm_fields)
qed

lemma x_calm_xdet_loop: "x_calm d x \<Longrightarrow> x_calm d (snd (xdet_loop x))"
proof (induction x rule: xdet_loop.induct)
  case (1 x)
  show ?case
  proof (cases "xdet_fd x = - 1 \<or> ino_in x (xdet_fd x) = [] \<or> hd (ino_in x (xdet_fd x)) = []")
    case True
    with 1(2) show ?thesis by (subst xdet_loop.simps) (auto simp: x_calm_fields split: list.split)
  next
    case False
    then obtain wd name evs rest where e: "ino_in x (xdet_fd x) = ((wd, name) # evs) # rest"
      by (cases "ino_in x (xdet_fd x)"; cases "hd (ino_in x (xdet_fd x))") auto
    let ?y = "x\<lparr>ino_in := (ino_in x)(xdet_fd x := rest)\<rparr>"
    have y: "x_calm d (snd (xdet_event wd name ?y))" using 1(2) by (simp add: x_calm_xdet_event x_calm_fields)
    have "\<not> fst (xdet_event wd name ?y) \<Longrightarrow> x_calm d (snd (xdet_loop (snd (xdet_event wd name ?y))))"
      using 1(1) [OF _ e refl refl refl prod.collapse] False y by simp
    with y False e show ?thesis by (subst xdet_loop.simps) (simp add: split_beta Let_def)
  qed
qed

lemma close_x11_result:
  assumes "clients_wf d"
  shows "client_list (close_x11 d) = filter unix (client_list d)" "dpy (close_x11 d) = None" "x_inv (close_x11 d)"
    "envt (close_x11 d) = envt d"
    "out (close_x11 d) = out d @
      (case dpy d of None \<Rightarrow> [] | Some p \<Rightarrow> map XDeleteCommand (e_roots (envt d)) @ [XDestroyWindow, XClose p]) @
      (if client_list d \<noteq> [] \<and> filter unix (client_list d) = [] \<and> led (cfg d) = LED_AUTO then all_leds 0 d else [])"
proof -
  have f: "fold (\<lambda>r. emit (XDeleteCommand r)) rs x = x\<lparr>out := out x @ map XDeleteCommand rs\<rparr>" for rs x
    by (induction rs arbitrary: x) (simp_all add: emit_def)
  let ?d = "case dpy d of None \<Rightarrow> d | Some p \<Rightarrow>
      d\<lparr>out := out d @ map XDeleteCommand (e_roots (envt d)) @ [XDestroyWindow, XClose p], dpy := None\<rparr>"
  have eq: "close_x11 d = remove_x11_clients ?d"
    by (simp add: close_x11_def kbemu_set_display_def f emit_def Let_def split: option.split)
  have wf: "clients_wf ?d" using assms by (simp add: clients_wf_def split: option.split)
  have leds: "all_leds 0 (x\<lparr>dpy := q\<rparr>) = all_leds 0 x" for x q by (simp add: all_leds_def)
  note r = remove_x11_clients_eq [OF wf]
  show "client_list (close_x11 d) = filter unix (client_list d)" "dpy (close_x11 d) = None" "envt (close_x11 d) = envt d"
    unfolding eq r by (simp_all split: option.split)
  then show "x_inv (close_x11 d)" by (auto simp: x_inv_def x_windows_def)
  show "out (close_x11 d) = out d @
      (case dpy d of None \<Rightarrow> [] | Some p \<Rightarrow> map XDeleteCommand (e_roots (envt d)) @ [XDestroyWindow, XClose p]) @
      (if client_list d \<noteq> [] \<and> filter unix (client_list d) = [] \<and> led (cfg d) = LED_AUTO then all_leds 0 d else [])"
    unfolding eq r by (auto split: option.split simp: leds)
qed

lemma x_inv_removed: "clients_wf x \<Longrightarrow> x_inv x \<Longrightarrow> x_inv (remove_client a x) \<and> dpy (remove_client a x) = dpy x"
proof -
  have sub: "set (map c_win (filter P (filter Q cs))) \<subseteq> set (map c_win (filter P cs))" for P Q and cs :: "client list"
    by auto
  have dist: "distinct (map c_win (filter P cs)) \<Longrightarrow> distinct (map c_win (filter P (filter Q cs)))" for P Q and cs :: "client list"
    by (induction cs) auto
  assume x: "clients_wf x" "x_inv x"
  let ?y = "remove_client a x"
  have y: "client_list ?y = filter (\<lambda>c. c_addr c \<noteq> a) (client_list x)" "dpy ?y = dpy x" "envt ?y = envt x"
    unfolding remove_client_eq [OF x(1)] by (simp_all add: Let_def)
  have "set (x_windows ?y) \<subseteq> set (x_windows x)" "distinct (x_windows x) \<Longrightarrow> distinct (x_windows ?y)"
    unfolding x_windows_def y(1) using sub dist by blast+
  moreover from this(1) have "x_windows x = [] \<Longrightarrow> x_windows ?y = []" by simp
  ultimately show ?thesis using x(2) y(2,3) by (simp add: x_inv_def) blast
qed

lemma x_inv_fields: "x_inv (x\<lparr>client_iter := p\<rparr>) = x_inv x" "x_inv (x\<lparr>fresh := n\<rparr>) = x_inv x" "x_inv (x\<lparr>x_in := xs\<rparr>) = x_inv x"
  "x_inv (x\<lparr>x11_sens := w\<rparr>) = x_inv x"
  by (simp_all add: x_inv_def x_windows_def)

lemma x_inv_windows:
  assumes "clients_wf x" "x_inv x" "dpy x \<noteq> None"
  shows "x_inv (set_client_window win x) \<and> dpy (set_client_window win x) = dpy x"
    "x_inv (remove_client_window win x) \<and> dpy (remove_client_window win x) = dpy x"
proof -
  obtain p where p: "set_client_window win x = (if win \<in> set (e_roots (envt x)) then x
     else if win \<in> c_win ` set (client_list x) then x\<lparr>client_iter := p\<rparr>
     else snd (add_client CLIENT_X11 0 win (x\<lparr>client_iter := None\<rparr>)))"
    using set_client_window_eq [OF assms(1), of win] by blast
  have "c_win (add_result CLIENT_X11 0 win a) = win" "c_type (add_result CLIENT_X11 0 win a) = CLIENT_X11" for a
    by (simp_all add: add_result_def calloc_client_def Let_def)
  with assms(2,3) show "x_inv (set_client_window win x) \<and> dpy (set_client_window win x) = dpy x"
    unfolding p by (auto simp: x_inv_fields add_client_eq) (auto simp: x_inv_def x_windows_def)
  obtain q where q: "remove_client_window win x = (case search (\<lambda>c. c_win c = win) (client_list x) of
       None \<Rightarrow> x\<lparr>client_iter := q\<rparr> | Some c \<Rightarrow> remove_client (c_addr c) (x\<lparr>client_iter := q\<rparr>))"
    using remove_client_window_eq [OF assms(1), of win] by blast
  show "x_inv (remove_client_window win x) \<and> dpy (remove_client_window win x) = dpy x"
    unfolding q using x_inv_removed [of "x\<lparr>client_iter := q\<rparr>"] assms by (simp add: x_inv_fields split: option.split)
qed

lemma xioerr_inv: "clients_wf d \<Longrightarrow> x_inv (xioerr d)"
proof -
  assume "clients_wf d"
  then have "clients_wf (d\<lparr>dpy := None\<rparr>)" by (simp add: clients_wf_def)
  from close_x11_result(3) [OF this] have "x_inv (close_x11 (d\<lparr>dpy := None\<rparr>))" .
  moreover have "x_calm x (snd (xdet_start x))" for x
    by (simp add: xdet_start_def inotify_init_def inotify_add_watch_def x_calm_fields x_calm_refl split_beta Let_def split: list.split)
  ultimately show ?thesis unfolding xioerr_def by (rule x_calm_inv [rotated])
qed

lemma x_events_inv: "requests_inv x \<Longrightarrow> x_inv x \<Longrightarrow> dpy x \<noteq> None \<Longrightarrow> x_inv (x_events xs x)"
proof (induction xs x rule: x_events.induct)
  case (2 m xs x)
  have "requests_inv (x_message m x)"
    using x_keeps_windows(1) [OF x_keeps_refl [OF "2.prems"(1)], of "window_of (m_s0 m) (m_s1 m)"] "2.prems"(1)
    by (simp add: x_message_def x_keeps_def requests_inv_connection)
  moreover have "x_inv (x_message m x) \<and> dpy (x_message m x) = dpy x"
    using "2.prems" x_inv_windows(1) [of x] by (simp add: x_message_def x_inv_fields requests_inv_def)
  ultimately show ?case using "2.IH" "2.prems" by simp
next
  case (3 bad res xs x)
  have "requests_inv (xerr bad res x)"
    using x_keeps_windows(2) [OF x_keeps_refl [OF "3.prems"(1)]] "3.prems"(1) by (simp add: xerr_def x_keeps_def)
  moreover have "x_inv (xerr bad res x) \<and> dpy (xerr bad res x) = dpy x"
    using "3.prems" x_inv_windows(2) [of x] by (simp add: xerr_def requests_inv_def)
  ultimately show ?case using "3.IH" "3.prems" by simp
qed (auto simp: x_inv_fields requests_inv_def clients_wf_def intro!: xioerr_inv)

text \<open>The operations as steps.\<close>

datatype x_op = X_start | X_stop | X_ready "int list" | X_arrives "x_input list"

fun x_step :: "x_op \<Rightarrow> daemon \<Rightarrow> daemon" where
  "x_step X_start d = snd (init_x11 d)"
| "x_step X_stop d = close_x11 d"
| "x_step (X_ready rset) d = snd (handle_xevents rset d)"
| "x_step (X_arrives xs) d = d\<lparr>x_in := x_in d @ xs\<rparr>"

definition x_state_inv :: "daemon \<Rightarrow> bool" where
  "x_state_inv d \<longleftrightarrow> requests_inv d \<and> x_inv d"

interpretation x_ops: step_invariant x_step x_state_inv
proof
  fix d op assume inv: "x_state_inv d"
  then have wf: "requests_inv d" "clients_wf d" "x_inv d" by (simp_all add: x_state_inv_def requests_inv_def)
  note keep = x_keeps_refl [OF wf(1)]
  have "requests_inv (x_step op d)"
    using x_keeps_init [OF keep] x_keeps_close [OF keep] x_keeps_handle [OF keep] wf(1)
    by (cases op) (simp_all add: x_keeps_def requests_inv_connection)
  moreover have "x_inv (x_step op d)"
  proof (cases op)
    case X_start
    then show ?thesis using x_calm_inv [OF x_calm_init [OF x_calm_refl] wf(3)] by simp
  next
    case X_stop
    then show ?thesis using close_x11_result(3) [OF wf(2)] by simp
  next
    case (X_ready rset)
    then show ?thesis
      using x_calm_inv [OF x_calm_xdet_loop [OF x_calm_refl] wf(3)] x_events_inv [OF wf(1,3)] wf(3)
      by (auto simp: handle_xevents_def handle_xdet_events_def)
  qed (use wf(3) in \<open>simp add: x_inv_fields\<close>)
  ultimately show "x_state_inv (x_step op d)" by (simp add: x_state_inv_def)
qed

section \<open>Properties\<close>

text \<open>
  C30: through any sequence of connecting to the X server, closing the connection (or losing it), messages and errors,
  every window is listed as a client at most once, never a root window, and clients of the X server are
  only listed while there is a connection; the other parts of the state stay well formed.
\<close>

theorem x11_clients_invariant:
  assumes "x_state_inv d"
  shows "let d' = fold x_step ops d in
    distinct (x_windows d') \<and> set (x_windows d') \<inter> set (e_roots (envt d')) = {} \<and> (dpy d' = None \<longrightarrow> x_windows d' = []) \<and>
    requests_inv d'"
  using x_ops.run_inv [OF assms, of ops] by (simp add: x_state_inv_def x_inv_def Let_def)

definition with_server :: daemon where
  \<comment> \<open>one client of the socket; the X server can be reached twice\<close>
  "with_server = one_client\<lparr>x_open := [Some (40, 9), Some (41, 9)]\<rparr>"

lemma with_server_inv: "x_state_inv with_server"
proof -
  have "x_windows with_server = []" by (simp add: x_windows_def with_server_def one_client_def calloc_client_def)
  with one_client_inv show ?thesis by (simp add: x_state_inv_def with_server_def requests_inv_connection x_inv_def)
qed

definition command :: "int \<Rightarrow> int \<Rightarrow> int \<Rightarrow> x_input" where
  "command s0 s1 s2 = Xmsg \<lparr>m_cmd = True, m_s0 = s0, m_s1 = s1, m_s2 = s2\<rparr>"

theorem x11_clients_invariant_witness:
  "let d = fold x_step [X_start, X_arrives [command 2 5 27695, command 2 5 27695, command 0 1 27695, command 3 7 27695,
        Xerror True 0x20005], X_ready [9]] with_server in
     distinct (x_windows d) \<and> x_windows d = [0x30007]"
proof -
  let ?ops = "[X_start, X_arrives [command 2 5 27695, command 2 5 27695, command 0 1 27695, command 3 7 27695,
        Xerror True 0x20005], X_ready [9]]"
  have "x_windows (fold x_step ?ops with_server) = [0x30007]" by code_simp
  with x11_clients_invariant [OF with_server_inv, of ?ops] show ?thesis by (simp add: Let_def)
qed

text \<open>
  C31: closing the connection leaves nothing behind. The property is deleted from every root window, the window
  destroyed and the connection closed once, all clients of the X server are removed and only they, in order, and if no
  client is left the LEDs that are automatic go off. After \<open>init_x11\<close> has succeeded, every root window has the property.
\<close>

theorem x11_session:
  assumes "clients_wf d" "dpy d = None" "x_open d = Some (p, fd) # rs" "xdet_fd d = - 1"
  shows "let d1 = snd (init_x11 d); d2 = close_x11 d1 in
    dpy d1 = Some p \<and> get_x11_socket d1 = fd \<and> client_list d1 = client_list d \<and>
    out d1 = out d @ [XCreateWindow] @ map XSetCommand (e_roots (envt d)) \<and>
    dpy d2 = None \<and> client_list d2 = filter (\<lambda>c. c_type c = CLIENT_UNIX) (client_list d) \<and>
    out d2 = out d1 @ map XDeleteCommand (e_roots (envt d)) @ [XDestroyWindow, XClose p] @
      (if client_list d \<noteq> [] \<and> client_list d2 = [] \<and> led (cfg d) = LED_AUTO then all_leds 0 d1 else [])"
proof -
  have f: "fold (\<lambda>r. emit (XSetCommand r)) rs x = x\<lparr>out := out x @ map XSetCommand rs\<rparr>" for rs x
    by (induction rs arbitrary: x) (simp_all add: emit_def)
  have kb: "client_list (kbemu_set_display q x) = client_list x" "out (kbemu_set_display q x) = out x"
    "dpy (kbemu_set_display q x) = dpy x" "x_fd (kbemu_set_display q x) = x_fd x" "xdet_fd (kbemu_set_display q x) = xdet_fd x"
    "envt (kbemu_set_display q x) = envt x" "cfg (kbemu_set_display q x) = cfg x" "fresh (kbemu_set_display q x) = fresh x"
    for q x
    by (simp_all add: kbemu_set_display_def kbemu_x11_init_def)
  define d1 where "d1 = snd (init_x11 d)"
  have d1: "dpy d1 = Some p" "x_fd d1 = fd" "client_list d1 = client_list d" "envt d1 = envt d" "cfg d1 = cfg d"
    "fresh d1 = fresh d" "out d1 = out d @ [XCreateWindow] @ map XSetCommand (e_roots (envt d))"
    using assms(2-4) by (simp_all add: d1_def init_x11_def x_open_display_def xdet_stop_def f kb emit_def Let_def)
  have unix: "c_type c \<noteq> CLIENT_X11 \<longleftrightarrow> c_type c = CLIENT_UNIX" for c by (cases "c_type c") simp_all
  have "clients_wf d1" using assms(1) d1 by (simp add: clients_wf_def)
  from close_x11_result [OF this] d1 show ?thesis
    by (simp add: d1_def [symmetric] get_x11_socket_def unix Let_def)
qed

theorem x11_session_witness:
  "out (close_x11 (snd (init_x11 with_server))) = [XCreateWindow, XSetCommand 1, XDeleteCommand 1, XDestroyWindow, XClose 40]"
proof -
  have d: "clients_wf with_server" "dpy with_server = None" "x_open with_server = Some (40, 9) # [Some (41, 9)]"
    "xdet_fd with_server = - 1" "out with_server = []" "e_roots (envt with_server) = [1]"
    "filter (\<lambda>c. c_type c = CLIENT_UNIX) (client_list with_server) = client_list with_server" "client_list with_server \<noteq> []"
    using with_server_inv
    by (simp_all add: x_state_inv_def requests_inv_def) (simp_all add: with_server_def one_client_def bare_environment_def)
  from x11_session [OF d(1-4)] d(5-8) show ?thesis by (simp add: Let_def)
qed

text \<open>
  The window of a client is decoded with the sign of its lower half. The identifier is right exactly when bit 15 is
  clear or the upper half has all bits set; for any other window a client is listed that does not exist, and the
  window gets no events.
\<close>

theorem window_decoding:
  fixes w :: u32
  shows "window_of (sint (ucast (drop_bit 16 w) :: 16 word)) (sint (ucast w :: 16 word)) = w \<longleftrightarrow>
    \<not> bit w 15 \<or> drop_bit 16 w = 0xffff"
proof -
  let ?v = "window_of (sint (ucast (drop_bit 16 w) :: 16 word)) (sint (ucast w :: 16 word))"
  have bits: "bit ?v n \<longleftrightarrow> (if n < 16 then bit w n else n < 32 \<and> (bit w 15 \<or> bit w n))" for n
  proof -
    consider "n < 15" | "n = 15" | "16 \<le> n \<and> n < 31" | "n = 31" | "32 \<le> n" by linarith
    then show ?thesis by cases (auto simp: window_of_def w32_def bit_simps min_def)
  qed
  have mask: "(0xffff :: u32) = mask 16" by (simp add: mask_eq_exp_minus_1)
  have "drop_bit 16 w = 0xffff \<longleftrightarrow> (\<forall>n < 32. bit w (16 + n) = (n < 16))"
    unfolding mask by (auto simp: bit_eq_iff bit_simps)
  also have "\<dots> \<longleftrightarrow> (\<forall>n. 16 \<le> n \<longrightarrow> n < 32 \<longrightarrow> bit w n)"
  proof (intro iffI allI impI)
    fix n :: nat assume a: "\<forall>n < 32. bit w (16 + n) = (n < 16)" "16 \<le> n" "n < 32"
    from a(1) [rule_format, of "n - 16"] a(2,3) show "bit w n" by simp
  qed (auto dest: bit_imp_le_length)
  finally have "drop_bit 16 w = 0xffff \<longleftrightarrow> (\<forall>n. 16 \<le> n \<longrightarrow> n < 32 \<longrightarrow> bit w n)" .
  moreover have "?v = w \<longleftrightarrow> (\<forall>n. 16 \<le> n \<longrightarrow> n < 32 \<longrightarrow> bit w 15 \<longrightarrow> bit w n)"
    by (auto simp: bit_eq_iff bits)
  ultimately show ?thesis by blast
qed

text \<open>
  Every failed attempt to connect leaks an inotify descriptor. \<open>init_x11\<close> starts the detection anew each
  time it fails, without closing the descriptor of the one before: of the fifteen descriptors that \<open>try_xconnect\<close>
  opens while the server does not answer, only the last one is known afterwards, and none has been closed. The events
  that were waiting on the first one are lost.
\<close>

theorem failed_connection_leaks:
  assumes "dpy d = None" "x_open d = []" "ino_init d = fds @ rest" "length fds = 15" "- 1 \<notin> set fds"
    "15 \<le> length (ino_watch d)" "- 1 \<notin> set (ino_watch d)"
  shows "let (r, d') = try_xconnect 15 d in
    r = - 1 \<and> xdet_fd d' = last fds \<and> ino_init d' = rest \<and> out d' = out d \<and> ino_in d' = ino_in d"
proof -
  have step: "fst (init_x11 x) = - 1 \<and> xdet_fd (snd (init_x11 x)) = f \<and> ino_init (snd (init_x11 x)) = fs \<and>
      out (snd (init_x11 x)) = out x \<and> ino_in (snd (init_x11 x)) = ino_in x \<and> dpy (snd (init_x11 x)) = None \<and>
      x_open (snd (init_x11 x)) = [] \<and> ino_watch (snd (init_x11 x)) = vs"
    if "dpy x = None" "x_open x = []" "ino_init x = f # fs" "f \<noteq> - 1" "ino_watch x = v # vs" "v \<noteq> - 1" for x f fs v vs
    using that by (simp add: init_x11_def x_open_display_def xdet_start_def inotify_init_def inotify_add_watch_def Let_def)
  have "n = length gs \<Longrightarrow> dpy x = None \<Longrightarrow> x_open x = [] \<Longrightarrow> ino_init x = gs @ rest \<Longrightarrow> - 1 \<notin> set gs \<Longrightarrow>
      n \<le> length (ino_watch x) \<Longrightarrow> - 1 \<notin> set (ino_watch x) \<Longrightarrow>
      fst (try_xconnect n x) = - 1 \<and> ino_init (snd (try_xconnect n x)) = rest \<and> out (snd (try_xconnect n x)) = out x \<and>
      ino_in (snd (try_xconnect n x)) = ino_in x \<and> (gs \<noteq> [] \<longrightarrow> xdet_fd (snd (try_xconnect n x)) = last gs)" for n gs x
  proof (induction n arbitrary: gs x)
    case (Suc n)
    then obtain f fs v vs where l: "gs = f # fs" "ino_watch x = v # vs" by (cases gs; cases "ino_watch x") auto
    with Suc.prems step [of x f "fs @ rest" v vs] have s: "fst (init_x11 x) = - 1" "xdet_fd (snd (init_x11 x)) = f"
      "ino_init (snd (init_x11 x)) = fs @ rest" "out (snd (init_x11 x)) = out x" "ino_in (snd (init_x11 x)) = ino_in x"
      "dpy (snd (init_x11 x)) = None" "x_open (snd (init_x11 x)) = []" "ino_watch (snd (init_x11 x)) = vs"
      by auto
    have "n = length fs" "n \<le> length vs" "- 1 \<notin> set vs" "- 1 \<notin> set fs" using Suc.prems l by auto
    with Suc.IH [of fs "snd (init_x11 x)"] s show ?case by (cases fs) (auto simp: l split_beta)
  qed simp
  from this [where n = 15 and gs = fds and x = d] assms have t: "fst (try_xconnect 15 d) = - 1"
    "ino_init (snd (try_xconnect 15 d)) = rest" "out (snd (try_xconnect 15 d)) = out d"
    "ino_in (snd (try_xconnect 15 d)) = ino_in d" "xdet_fd (snd (try_xconnect 15 d)) = last fds"
    by auto
  then show ?thesis by (simp add: split_beta)
qed

theorem failed_connection_leaks_witness:
  "(let (r, d') = try_xconnect 15 (start_state\<lparr>ino_init := map int [20..<36], ino_watch := replicate 15 1\<rparr>) in
     r = - 1 \<and> xdet_fd d' = 34 \<and> out d' = [])"
proof -
  let ?d = "start_state\<lparr>ino_init := map int [20..<36], ino_watch := replicate 15 1\<rparr>"
  have u: "map int [20..<36] = map int [20..<35] @ [35]" by simp
  have l: "last (map int [20..<35]) = 34" by simp
  have d: "dpy ?d = None" "x_open ?d = []" "ino_init ?d = map int [20..<35] @ [35]" "length (map int [20..<35]) = 15"
    "- 1 \<notin> set (map int [20..<35])" "15 \<le> length (ino_watch ?d)" "- 1 \<notin> set (ino_watch ?d)" "out ?d = []"
    by (simp_all only: u daemon.select_convs daemon.simps start_state_sel) auto
  from failed_connection_leaks [OF d(1-7)] show ?thesis unfolding d(8) l by (auto simp: split_beta Let_def)
qed

end
