(* ===== verification/UnixProto.thy ===== *)
theory UnixProto
  imports XProto
begin

text \<open>
  The socket (src/proto_unix.c): opening and closing it, accepting clients, and the loop over the clients that
  reads their messages. \<open>rset\<close> are the file descriptors that \<open>select\<close> has found ready. The loop and the
  requests it serves share one iterator (src/client.c), so that a request can make the loop start again.
\<close>

section \<open>Opening and closing\<close>

definition SOCK_NAME :: string where
  "SOCK_NAME = ''/var/run/spnav.sock''"

definition bound_path :: "daemon \<Rightarrow> string" where
  \<comment> \<open>what the pointer \<open>sockpath\<close> points to\<close>
  "bound_path d = (if sock_own d then sockpath (cfg d) else SOCK_NAME)"

definition init_unix :: "daemon \<Rightarrow> int \<times> daemon" where
  \<comment> \<open>\<open>sun_path\<close> has room for 108 characters\<close>
  "init_unix d =
     (if 0 \<le> lsock d then (0, d)
      else
        let d = d\<lparr>sock_own := (sockpath (cfg d) \<noteq> [])\<rparr>; s = e_socket (envt d) in
        if s = - 1 then (- 1, d)
        else
          let d = emit (Unlink SOCK_NAME) d;
              d = (if length (bound_path d) < 108 then d else d\<lparr>fault := True\<rparr>) in
          if \<not> e_bind (envt d) then (- 1, emit (Close s) d)
          else if \<not> e_listen (envt d) then (- 1, emit (Unlink (bound_path d)) (emit (Close s) d))
          else (0, d\<lparr>lsock := s\<rparr>))"

definition close_unix :: "daemon \<Rightarrow> daemon" where
  "close_unix d =
     (if lsock d = - 1 then d
      else let d = emit (Close (lsock d)) d; d = d\<lparr>lsock := - 1\<rparr> in emit (Unlink (bound_path d)) d)"

section \<open>Messages\<close>

abbreviation (input) MAX_PROTO_VER :: int where "MAX_PROTO_VER \<equiv> 1"
abbreviation (input) CHANGE_PROTO :: u32 where "CHANGE_PROTO \<equiv> 0x7faa5500" \<comment> \<open>\<open>REQ_TAG | REQ_CHANGE_PROTO\<close>\<close>

definition drop_client :: "client \<Rightarrow> daemon \<Rightarrow> daemon" where
  "drop_client c d = remove_client (c_addr c) (emit (Close (c_sock c)) d)"

definition take_input :: "int \<Rightarrow> nat \<Rightarrow> daemon \<Rightarrow> char list \<times> daemon" where
  \<comment> \<open>\<open>read\<close>; nothing read stands for the end of the file and for an error\<close>
  "take_input s n d = (take n (sock_in d s), d\<lparr>sock_in := (sock_in d)(s := drop n (sock_in d s))\<rparr>)"

definition change_proto :: "client \<Rightarrow> u32 \<Rightarrow> daemon \<Rightarrow> daemon" where
  "change_proto c msg d =
     (let proto = uint (msg AND 0xff);
          (proto, msg) = (if proto > MAX_PROTO_VER then (MAX_PROTO_VER, CHANGE_PROTO OR w32 MAX_PROTO_VER) else (proto, msg));
          d = upd_client (c_addr c) (\<lambda>c. c\<lparr>c_proto := proto\<rparr>) d;
          d = emit (ProtoReply (c_sock c) msg) d in
      if proto > 0
      then upd_client (c_addr c) (\<lambda>c. c\<lparr>c_evmask := EVMASK_MOTION OR EVMASK_BUTTON OR EVMASK_DEV\<rparr>) d else d)"

definition read_proto0 :: "client \<Rightarrow> daemon \<Rightarrow> daemon" where
  \<comment> \<open>of a message that is cut short, the rest of \<open>msg\<close> is what was there before\<close>
  "read_proto0 c d =
     (let (bytes, d) = take_input (c_sock c) 4 d in
      if bytes = [] then drop_client c d
      else
        let msg = le_word (take 4 (bytes @ drop (length bytes) (e_junk (envt d)))) in
        if msg AND 0xffffff00 = CHANGE_PROTO then change_proto c msg d
        else if isfinite msg then upd_client (c_addr c) (\<lambda>c. c\<lparr>c_sens := msg\<rparr>) d
        else d)"

definition decode_request :: "char list \<Rightarrow> reqresp" where
  "decode_request buf =
     \<lparr>rr_type = le_word (take 4 buf), rr_data = map (\<lambda>i. le_word (take 4 (drop (4 * i + 4) buf))) [0..<7]\<rparr>"

abbreviation (input) REQ_SIZE :: nat where "REQ_SIZE \<equiv> 32" \<comment> \<open>\<open>sizeof(struct reqresp)\<close>\<close>

definition read_proto1 :: "client \<Rightarrow> daemon \<Rightarrow> daemon" where
  "read_proto1 c d =
     (let (bytes, d) = take_input (c_sock c) (REQ_SIZE - length (c_reqbuf c)) d in
      if bytes = [] then drop_client c d
      else
        let buf = c_reqbuf c @ bytes in
        if length buf < REQ_SIZE then upd_client (c_addr c) (\<lambda>c. c\<lparr>c_reqbuf := buf\<rparr>) d
        else
          let d = upd_client (c_addr c) (\<lambda>c. c\<lparr>c_reqbuf := []\<rparr>) d;
              (res, d) = handle_request (c\<lparr>c_reqbuf := []\<rparr>) (decode_request buf) d in
          if res = - 1 then drop_client c d else d)"

definition client_input :: "int list \<Rightarrow> nat \<Rightarrow> daemon \<Rightarrow> daemon" where
  "client_input rset p d =
     (case get_client p d of
        None \<Rightarrow> d\<lparr>fault := True\<rparr>
      | Some c \<Rightarrow>
          if c_type c = CLIENT_UNIX \<and> c_sock c \<in> set rset then
            (if c_proto c = 0 then read_proto0 c d else if c_proto c = 1 then read_proto1 c d else d)
          else d)"

section \<open>The loop over the clients\<close>

definition accept_client :: "int list \<Rightarrow> daemon \<Rightarrow> daemon" where
  "accept_client rset d =
     (if lsock d \<notin> set rset then d
      else case accept_in d of
        [] \<Rightarrow> d
      | s # ss \<Rightarrow>
          let d = d\<lparr>accept_in := ss\<rparr> in
          if s = - 1 then d else snd (add_client CLIENT_UNIX s 0 d))"

partial_function (option) uevents_loop :: "int list \<Rightarrow> nat option \<Rightarrow> daemon \<Rightarrow> daemon option" where
  "uevents_loop rset citer d =
     (case citer of
        None \<Rightarrow> Some d
      | Some p \<Rightarrow> let (citer, d) = next_client d in uevents_loop rset citer (client_input rset p d))"

definition handle_uevents :: "int list \<Rightarrow> daemon \<Rightarrow> (int \<times> daemon) option" where
  "handle_uevents rset d =
     (if lsock d = - 1 then Some (- 1, d)
      else
        let d = accept_client rset d; (citer, d) = first_client d in
        map_option (Pair 0) (uevents_loop rset citer d))"

section \<open>Serving a client\<close>

text \<open>\<open>workload\<close> is what is left to do: the bytes that wait for the clients, and the clients themselves.\<close>

definition workload :: "daemon \<Rightarrow> nat" where
  "workload d = sum_list (map (\<lambda>c. length (sock_in d (c_sock c)) + 1) (client_list d))"

text \<open>\<open>unheard\<close> is the state without what serving the sockets may change.\<close>

definition unheard :: "daemon \<Rightarrow> daemon" where
  "unheard d = (outside d)\<lparr>sock_in := (\<lambda>_. []), accept_in := []\<rparr>"

definition hears :: "daemon \<Rightarrow> daemon \<Rightarrow> bool" where
  "hears d d' \<longleftrightarrow> requests_inv d' \<and> unheard d' = unheard d \<and> grows d d' \<and> (x_inv d \<longrightarrow> x_inv d')"

definition advances :: "daemon \<Rightarrow> daemon \<Rightarrow> bool" where
  "advances d d' \<longleftrightarrow> hears d d' \<and> workload d' < workload d"

lemma hears_refl: "requests_inv d \<Longrightarrow> hears d d"
  by (simp add: hears_def grows_refl)

lemma hears_trans: "hears a b \<Longrightarrow> hears b c \<Longrightarrow> hears a c"
  by (auto simp: hears_def intro: grows_trans)

lemma unheard_fields:
  "unheard (x\<lparr>fault := b\<rparr>) = unheard x" "unheard (x\<lparr>client_list := cs\<rparr>) = unheard x" "unheard (x\<lparr>fresh := n\<rparr>) = unheard x"
  "unheard (x\<lparr>out := os\<rparr>) = unheard x" "unheard (x\<lparr>sock_in := f\<rparr>) = unheard x" "unheard (x\<lparr>accept_in := ss\<rparr>) = unheard x"
  "unheard (x\<lparr>client_iter := p\<rparr>) = unheard x" "unheard (emit e x) = unheard x"
  by (simp_all add: unheard_def outside_def host_def emit_def)

lemma grows_sockets:
  "grows d (x\<lparr>sock_in := f\<rparr>) = grows d x" "grows d (x\<lparr>accept_in := ss\<rparr>) = grows d x"
  "grows d (x\<lparr>client_iter := p\<rparr>) = grows d x" "grows d (emit e x) = grows d x"
  by (simp_all add: grows_def tables_wf_def emit_def)

lemma x_inv_sockets:
  "x_inv (x\<lparr>sock_in := f\<rparr>) = x_inv x" "x_inv (x\<lparr>accept_in := ss\<rparr>) = x_inv x" "x_inv (x\<lparr>fault := b\<rparr>) = x_inv x"
  "x_inv (emit e x) = x_inv x"
  by (simp_all add: x_inv_def x_windows_def emit_def)

lemmas hears_fields = hears_def unheard_fields grows_fields grows_request grows_sockets x_inv_fields x_inv_sockets

lemma workload_identity:
  assumes "map identity (client_list d') = map identity (client_list d)" "sock_in d' = sock_in d"
  shows "workload d' = workload d"
proof -
  have "workload x = sum_list (map (\<lambda>i. length (sock_in x (fst (snd (snd i)))) + 1) (map identity (client_list x)))" for x
    by (simp add: workload_def identity_def comp_def)
  then show ?thesis by (simp only: assms)
qed

lemma sum_list_filter_less: "x \<in> set xs \<Longrightarrow> \<not> P x \<Longrightarrow> (\<And>y. 0 < g y) \<Longrightarrow>
    sum_list (map g (filter P xs)) < sum_list (map (g :: 'a \<Rightarrow> nat) xs)"
proof (induction xs)
  case (Cons y ys)
  have le: "sum_list (map g (filter P ys)) \<le> sum_list (map g ys)" by (induction ys) auto
  have pos: "0 < g y" by (rule Cons.prems(3))
  show ?case
  proof (cases "P y")
    case True
    with Cons show ?thesis by auto
  next
    case False
    with le pos show ?thesis by simp
  qed
qed simp

lemma requests_inv_frame:
  "requests_inv d \<Longrightarrow> requests_inv (emit e d)" "requests_inv d \<Longrightarrow> requests_inv (d\<lparr>sock_in := f\<rparr>)"
  "requests_inv d \<Longrightarrow> requests_inv (d\<lparr>fault := b\<rparr>)" "requests_inv d \<Longrightarrow> requests_inv (d\<lparr>client_iter := p\<rparr>)"
  "requests_inv d \<Longrightarrow> requests_inv (d\<lparr>accept_in := ss\<rparr>)"
  by (auto simp: requests_inv_def emit_def clients_wf_def intro: devices_wf_cong)

lemma upd_client_inv:
  assumes "requests_inv d" "\<And>c. c_addr (f c) = c_addr c" "\<And>c. client_ok c \<Longrightarrow> client_ok (f c)"
  shows "requests_inv (upd_client a f d)"
proof -
  have "c_addr \<circ> (\<lambda>c. if c_addr c = a then f c else c) = c_addr" using assms(2) by (simp add: fun_eq_iff)
  with assms show ?thesis
    by (auto simp: requests_inv_def clients_wf_def upd_client_def list_all_iff intro: devices_wf_cong)
qed

lemma upd_client_apart [simp]: "unheard (upd_client a f x) = unheard x" "grows d (upd_client a f x) = grows d x"
  by (simp_all add: upd_client_def unheard_fields grows_request)

lemma hears_steps:
  "hears d x \<Longrightarrow> hears d (emit e x)" "hears d x \<Longrightarrow> hears d (x\<lparr>sock_in := f\<rparr>)"
  "hears d x \<Longrightarrow> hears d (x\<lparr>fault := b\<rparr>)" "hears d x \<Longrightarrow> hears d (x\<lparr>client_iter := p\<rparr>)"
  "hears d x \<Longrightarrow> hears d (x\<lparr>accept_in := ss\<rparr>)" "hears d x \<Longrightarrow> hears d (snd (take_input s n x))"
  by (simp_all add: take_input_def hears_fields requests_inv_frame)

lemma x_windows_upd:
  assumes "\<And>c. c_type (g c) = c_type c" "\<And>c. c_win (g c) = c_win c"
  shows "x_windows (upd_client a g x) = x_windows x"
proof -
  have "map c_win (filter (\<lambda>c. c_type c = CLIENT_X11) (map (\<lambda>c. if c_addr c = a then g c else c) cs)) =
      map c_win (filter (\<lambda>c. c_type c = CLIENT_X11) cs)" for cs
    by (induction cs) (simp_all add: assms)
  then show ?thesis by (simp add: x_windows_def upd_client_def)
qed

lemma x_inv_upd: "(\<And>c. c_type (g c) = c_type c) \<Longrightarrow> (\<And>c. c_win (g c) = c_win c) \<Longrightarrow> x_inv (upd_client a g x) = x_inv x"
  by (simp add: x_inv_def x_windows_upd) (simp add: upd_client_def)

lemma hears_upd_client:
  "hears d x \<Longrightarrow> (\<And>c. c_addr (g c) = c_addr c) \<Longrightarrow> (\<And>c. c_type (g c) = c_type c) \<Longrightarrow> (\<And>c. c_win (g c) = c_win c) \<Longrightarrow>
    (\<And>c. client_ok c \<Longrightarrow> client_ok (g c)) \<Longrightarrow> hears d (upd_client a g x)"
  by (simp add: hears_def upd_client_inv x_inv_upd)

lemma upd_client_workload: "(\<And>c. c_sock (f c) = c_sock c) \<Longrightarrow> workload (upd_client a f d) = workload d"
  by (simp add: workload_def upd_client_def comp_def) (rule arg_cong [where f = sum_list], auto)

lemma workload_emit [simp]: "workload (emit e d) = workload d"
  by (simp add: workload_def emit_def)

lemma take_input_frame [simp]: "client_list (snd (take_input s n d)) = client_list d" "envt (snd (take_input s n d)) = envt d"
  by (simp_all add: take_input_def)

lemma take_input_less: "c \<in> set (client_list d) \<Longrightarrow> fst (take_input (c_sock c) n d) \<noteq> [] \<Longrightarrow>
    workload (snd (take_input (c_sock c) n d)) < workload d"
proof -
  assume c: "c \<in> set (client_list d)" "fst (take_input (c_sock c) n d) \<noteq> []"
  let ?f = "sock_in (snd (take_input (c_sock c) n d))"
  have "length (?f s) \<le> length (sock_in d s)" "length (?f (c_sock c)) < length (sock_in d (c_sock c))" for s
    using c(2) by (auto simp: take_input_def)
  then have "sum_list (map (\<lambda>c. length (?f (c_sock c)) + 1) cs) \<le> sum_list (map (\<lambda>c. length (sock_in d (c_sock c)) + 1) cs) \<and>
      (c \<in> set cs \<longrightarrow>
       sum_list (map (\<lambda>c. length (?f (c_sock c)) + 1) cs) < sum_list (map (\<lambda>c. length (sock_in d (c_sock c)) + 1) cs))" for cs
    by (induction cs) (auto intro: add_mono add_less_le_mono add_le_less_mono)
  with c(1) show ?thesis by (simp add: workload_def)
qed

lemma drop_client_advances:
  assumes "hears d0 d" "c \<in> set (client_list d)" "workload d \<le> workload d0"
  shows "advances d0 (drop_client c d)"
proof -
  let ?d = "emit (Close (c_sock c)) d"
  have inv: "requests_inv d" using assms(1) by (simp add: hears_def)
  then have wf: "clients_wf ?d" using requests_inv_frame(1) by (simp add: requests_inv_def)
  have list: "client_list (drop_client c d) = filter (\<lambda>x. c_addr x \<noteq> c_addr c) (client_list d)"
    "sock_in (drop_client c d) = sock_in d" "cfg (drop_client c d) = cfg d"
    "dev_list (drop_client c d) = dev_list d" "fresh (drop_client c d) = fresh d"
    and apart: "unheard (drop_client c d) = unheard d" "grows d0 (drop_client c d) = grows d0 d"
    unfolding drop_client_def remove_client_eq [OF wf]
    by (simp_all add: Let_def unheard_fields grows_request grows_sockets) (simp_all add: emit_def)
  have "workload (drop_client c d) < workload d"
    unfolding workload_def list using assms(2) by (intro sum_list_filter_less) auto
  moreover have "clients_wf (drop_client c d)"
    using clients_wf_step [OF wf, of "Remove (c_addr c)"] by (simp add: drop_client_def)
  ultimately show ?thesis
    using assms(1,3) apart x_inv_removed [OF wf, of "c_addr c"]
    by (auto simp: advances_def hears_fields requests_inv_def list list_all_iff drop_client_def [symmetric] intro: devices_wf_cong)
qed

lemma drop_client_idle:
  assumes "requests_inv d" "c \<in> set (client_list d)"
  shows "advances d (drop_client c (snd (take_input (c_sock c) n d)))"
proof (rule drop_client_advances [OF hears_steps(6) [OF hears_refl [OF assms(1)]]])
  have "length (sock_in (snd (take_input (c_sock c) n d)) s) \<le> length (sock_in d s)" for s by (simp add: take_input_def)
  then show "workload (snd (take_input (c_sock c) n d)) \<le> workload d"
    unfolding workload_def take_input_frame by (intro sum_list_mono) simp
qed (use assms in simp)

lemma change_proto_inv: "hears d x \<Longrightarrow> hears d (change_proto c msg x) \<and> workload (change_proto c msg x) = workload x"
proof -
  have "\<not> 0 < uint (msg AND 0xff) \<Longrightarrow> uint (msg AND 0xff) = 0"
    using uint_nonnegative [of "msg AND 0xff"] by linarith
  then show "hears d x \<Longrightarrow> ?thesis"
    by (auto simp: change_proto_def Let_def client_ok_def upd_client_workload intro!: hears_upd_client hears_steps)
qed

lemma read_proto0_advances:
  assumes "requests_inv d" "c \<in> set (client_list d)"
  shows "advances d (read_proto0 c d)"
proof (cases "fst (take_input (c_sock c) 4 d) = []")
  case True
  with drop_client_idle [OF assms] show ?thesis by (simp add: read_proto0_def split_beta Let_def)
next
  case False
  let ?d = "snd (take_input (c_sock c) 4 d)"
  have "hears d ?d" "workload ?d < workload d"
    using hears_steps(6) [OF hears_refl [OF assms(1)]] take_input_less [OF assms(2) False] by simp_all
  moreover from this(1) have "hears d (upd_client (c_addr c) (\<lambda>c. c\<lparr>c_sens := w\<rparr>) ?d)" for w
    by (rule hears_upd_client) (simp_all add: client_ok_def)
  ultimately show ?thesis
    using False change_proto_inv by (auto simp: read_proto0_def advances_def split_beta Let_def upd_client_workload)
qed

lemma upd_client_mem: "c \<in> set (client_list d) \<Longrightarrow> f c \<in> set (client_list (upd_client (c_addr c) f d))"
  by (auto simp: upd_client_def intro!: image_eqI [of _ _ c])

lemma served_hears: "served a d x \<Longrightarrow> hears d0 d \<Longrightarrow> hears d0 x"
proof -
  assume s: "served a d x" "hears d0 d"
  have "x_windows y = map (\<lambda>i. fst (snd (snd (snd (snd i))))) (filter (\<lambda>i. fst (snd i) = CLIENT_X11) (map identity (client_list y)))" for y
    by (simp add: x_windows_def filter_map comp_def identity_def)
  then have w: "x_windows x = x_windows d" using s(1) by (simp only: served_def)
  have "envt (outside x) = envt (outside d)" "dpy (outside x) = dpy (outside d)" using s(1) by (simp_all only: served_def)
  then have "envt x = envt d" "dpy x = dpy d" by (simp_all add: outside_def host_def)
  with w have "x_inv x = x_inv d" by (simp add: x_inv_def)
  with s show "hears d0 x" by (auto simp: served_def hears_def unheard_def intro: grows_trans)
qed

lemma read_proto1_advances:
  assumes "requests_inv d" "c \<in> set (client_list d)"
  shows "advances d (read_proto1 c d)"
proof (cases "fst (take_input (c_sock c) (REQ_SIZE - length (c_reqbuf c)) d) = []")
  case True
  with drop_client_idle [OF assms] show ?thesis by (simp add: read_proto1_def split_beta Let_def)
next
  case False
  let ?n = "REQ_SIZE - length (c_reqbuf c)"
  let ?d = "snd (take_input (c_sock c) ?n d)" and ?buf = "c_reqbuf c @ fst (take_input (c_sock c) ?n d)"
  have inv: "hears d ?d" "workload ?d < workload d" "c \<in> set (client_list ?d)"
    using hears_steps(6) [OF hears_refl [OF assms(1)]] take_input_less [OF assms(2) False] assms(2) by simp_all
  show ?thesis
  proof (cases "length ?buf < REQ_SIZE")
    case True
    have "hears d (upd_client (c_addr c) (\<lambda>c. c\<lparr>c_reqbuf := ?buf\<rparr>) ?d)"
      using inv(1) True by (intro hears_upd_client) (simp_all add: client_ok_def)
    with True False inv show ?thesis
      by (simp add: read_proto1_def advances_def split_beta Let_def upd_client_workload)
  next
    case full: False
    let ?c = "c\<lparr>c_reqbuf := []\<rparr>" and ?x = "upd_client (c_addr c) (\<lambda>c. c\<lparr>c_reqbuf := []\<rparr>) ?d"
    have x: "hears d ?x" using inv(1) by (intro hears_upd_client) (simp_all add: client_ok_def)
    then have "requests_inv ?x" by (simp add: hears_def)
    moreover have "?c \<in> set (client_list ?x)" using upd_client_mem [OF inv(3), of "\<lambda>c. c\<lparr>c_reqbuf := []\<rparr>"] by simp
    moreover have "length (rr_data (decode_request ?buf)) = 7" by (simp add: decode_request_def)
    ultimately have s: "served (c_addr c) ?x (handler_of (rr_type (decode_request ?buf)) ?c (decode_request ?buf) ?x)"
      using handler_serves [unfolded serves_def, rule_format, of ?x ?c "decode_request ?buf" "rr_type (decode_request ?buf)"]
      by simp
    have "hears d (snd (handle_request ?c (decode_request ?buf) ?x))"
      "workload (snd (handle_request ?c (decode_request ?buf) ?x)) = workload ?x"
      using served_hears [OF s x] s by (auto simp: served_def handle_request_def intro: workload_identity)
    with False full inv(2) show ?thesis
      by (simp add: read_proto1_def advances_def split_beta Let_def upd_client_workload handle_request_def)
  qed
qed

lemma get_client_Some: "get_client p d = Some c \<Longrightarrow> c \<in> set (client_list d) \<and> c_addr c = p"
  by (auto simp: get_client_def dest: search_SomeD)

lemma client_input_cases:
  assumes "requests_inv d"
  shows "client_input rset p d = d \<or> client_input rset p d = d\<lparr>fault := True\<rparr> \<or> advances d (client_input rset p d)"
  using read_proto0_advances [OF assms] read_proto1_advances [OF assms]
  by (auto simp: client_input_def split: option.split dest: get_client_Some)

section \<open>The loop ends\<close>

definition to_go :: "daemon \<Rightarrow> nat" where
  \<comment> \<open>the clients from the iterator on\<close>
  "to_go d = (case client_iter d of None \<Rightarrow> 0 | Some p \<Rightarrow> length (dropWhile (\<lambda>c. c_addr c \<noteq> p) (client_list d)))"

lemma next_client_to_go:
  assumes "next_client d = (Some q, d')" "clients_wf d"
  shows "d' = d\<lparr>client_iter := Some q\<rparr> \<and> to_go d' < to_go d"
proof -
  obtain p c cs where p: "client_iter d = Some p" "dropWhile (\<lambda>c. c_addr c \<noteq> p) (client_list d) = c # cs"
    "client_at cs = Some q" "d' = d\<lparr>client_iter := Some q\<rparr>"
    using assms(1) by (auto simp: next_client_def Let_def split: option.splits list.splits)
  then obtain c' cs' where cs: "cs = c' # cs'" "c_addr c' = q" by (auto simp: client_at_def split: list.splits)
  have split: "client_list d = takeWhile (\<lambda>c. c_addr c \<noteq> p) (client_list d) @ c # cs"
    using p(2) takeWhile_dropWhile_id [of "\<lambda>c. c_addr c \<noteq> p" "client_list d"] by simp
  have dist: "distinct (map c_addr (client_list d))" using assms(2) by (simp add: clients_wf_def)
  have "dropWhile (\<lambda>c. c_addr c \<noteq> q) (client_list d) = dropWhile (\<lambda>c. c_addr c \<noteq> q) cs"
  proof -
    have "\<forall>x \<in> set (takeWhile (\<lambda>c. c_addr c \<noteq> p) (client_list d) @ [c]). c_addr x \<noteq> q"
      using dist cs by (subst (asm) split) (fastforce simp: image_iff)
    then have "dropWhile (\<lambda>c. c_addr c \<noteq> q) ((takeWhile (\<lambda>c. c_addr c \<noteq> p) (client_list d) @ [c]) @ cs) =
        dropWhile (\<lambda>c. c_addr c \<noteq> q) cs"
      by (simp add: dropWhile_append2)
    then show ?thesis by (subst split) simp
  qed
  also have "\<dots> = cs" using cs by simp
  finally show ?thesis using p by (simp add: to_go_def)
qed

lemma next_client_inv: "hears d0 d \<Longrightarrow> next_client d = (q, d1) \<Longrightarrow> hears d0 d1 \<and> workload d1 = workload d"
  by (auto simp: next_client_def Let_def workload_def split: option.splits list.splits intro!: hears_steps)

lemma uevents_loop_ends: "hears d0 d \<Longrightarrow> \<exists>d'. uevents_loop rset citer d = Some d' \<and> hears d0 d'"
proof (induction "(workload d, to_go d)" arbitrary: citer d rule: wf_induct_rule [OF wf_lex_prod [OF wf_less wf_less]])
  case (1 d citer)
  show ?case
  proof (cases citer)
    case None
    with 1 show ?thesis by (simp add: uevents_loop.simps)
  next
    case (Some p)
    obtain q d1 where n: "next_client d = (q, d1)" by force
    have d1: "hears d0 d1" "workload d1 = workload d" using next_client_inv [OF 1(2) n] by simp_all
    let ?x = "client_input rset p d1"
    have x: "?x = d1 \<or> ?x = d1\<lparr>fault := True\<rparr> \<or> advances d1 ?x"
      using client_input_cases [of d1] d1(1) by (simp add: hears_def)
    have "advances d1 ?x \<Longrightarrow> hears d0 ?x" using hears_trans [OF d1(1)] by (simp add: advances_def)
    then have inv: "hears d0 ?x" using x d1(1) hears_steps(3) [OF d1(1), of True] by metis
    have eq: "uevents_loop rset citer d = uevents_loop rset q ?x"
      by (subst uevents_loop.simps) (simp add: Some n)
    show ?thesis
    proof (cases q)
      case None
      with eq inv show ?thesis by (simp add: uevents_loop.simps)
    next
      case (Some q')
      have "to_go d1 < to_go d"
        using next_client_to_go [OF n [unfolded Some]] 1(2) by (auto simp only: hears_def requests_inv_def)
      moreover have "to_go (d1\<lparr>fault := True\<rparr>) = to_go d1" "workload (d1\<lparr>fault := True\<rparr>) = workload d1"
        unfolding to_go_def workload_def by (simp_all split: option.split)
      ultimately have "workload ?x < workload d \<or> workload ?x = workload d \<and> to_go ?x < to_go d"
        using x d1 by (auto simp: advances_def hears_def)
      with 1(1) [of "?x" q] inv eq show ?thesis by simp
    qed
  qed
qed

lemma add_client_hears: "hears d x \<Longrightarrow> hears d (snd (add_client CLIENT_UNIX s w x))"
proof -
  assume x: "hears d x"
  then have "clients_wf (snd (add_client CLIENT_UNIX s w x))"
    using clients_wf_step [of x "Add CLIENT_UNIX s w"] by (simp add: hears_def requests_inv_def)
  moreover have "client_ok (add_result CLIENT_UNIX s w a)" for a
    by (simp add: client_ok_def add_result_def calloc_client_def strbuf_wf_def strbuf_init_def Let_def)
  moreover have "c_type (add_result CLIENT_UNIX s w a) = CLIENT_UNIX" for a
    by (simp add: add_result_def calloc_client_def Let_def)
  ultimately show ?thesis
    using x by (auto simp: hears_fields requests_inv_def add_client_eq intro: devices_wf_cong)
      (auto simp: x_inv_def x_windows_def)
qed

lemma accept_client_hears: "hears d x \<Longrightarrow> hears d (accept_client rset x)"
  by (auto simp: accept_client_def Let_def split: list.split intro!: hears_steps add_client_hears)

lemma handle_uevents_ends: "requests_inv d \<Longrightarrow> \<exists>r d'. handle_uevents rset d = Some (r, d') \<and> hears d d'"
proof -
  assume inv: "requests_inv d"
  then have "hears d (snd (first_client (accept_client rset d)))"
    by (auto simp: first_client_def Let_def intro!: hears_steps accept_client_hears hears_refl)
  from uevents_loop_ends [OF this, of rset "fst (first_client (accept_client rset d))"] show ?thesis
    using inv hears_refl by (auto simp: handle_uevents_def split_beta Let_def)
qed

section \<open>Requests as bytes\<close>

definition packet :: "u32 \<Rightarrow> u32 list \<Rightarrow> char list" where
  \<comment> \<open>the bytes of a request\<close>
  "packet ty ws = concat (map le_chars (ty # ws @ replicate (7 - length ws) 0))"

lemma byte_char_of: "byte (char_of n) = n mod 256"
  by (simp add: byte_def)

lemma base_256: "256 * m + a = n \<Longrightarrow> 256 * k + b = m \<Longrightarrow> 256 * e + c = k \<Longrightarrow>
    a + 256 * b + 65536 * c + 16777216 * e = (n :: nat)"
  by simp

lemma le_word_chars: "le_word (le_chars w) = w"
proof -
  let ?n = "unat w"
  let ?k = "?n div 256 div 256"
  have n: "?n < 4294967296" using unsigned_less [of w, where ?'a = nat] by (simp del: unsigned_less)
  have "?n div 65536 = ?k" "?n div 16777216 = ?k div 256" by (simp_all add: div_mult2_eq [symmetric])
  moreover have "?n div 16777216 mod 256 = ?n div 16777216" using n by (intro mod_less less_mult_imp_div_less) simp
  ultimately have "?n mod 256 + 256 * (?n div 256 mod 256) + 65536 * (?n div 65536 mod 256) +
      16777216 * (?n div 16777216 mod 256) = ?n"
    using base_256 [OF mult_div_mod_eq [of 256 ?n] mult_div_mod_eq [of 256 "?n div 256"] mult_div_mod_eq [of 256 ?k]]
    by simp
  then have "of_nat (?n mod 256 + 256 * (?n div 256 mod 256) + 65536 * (?n div 65536 mod 256) +
      16777216 * (?n div 16777216 mod 256)) = w" by (simp only: of_nat_unat unsigned_of_nat ucast_id id_apply)
  then show ?thesis by (simp add: le_word_def le_chars_def Let_def byte_char_of del: of_nat_add of_nat_mult)
qed

lemma packet_words: "length ws = 7 \<Longrightarrow> packet ty ws = concat (map le_chars (ty # ws))"
  by (simp add: packet_def)

lemma packet_pad: "length ws \<le> 7 \<Longrightarrow> packet ty ws = packet ty (ws @ replicate (7 - length ws) 0)"
  by (simp add: packet_def)

lemma packet_length [simp]: "length ws \<le> 7 \<Longrightarrow> length (packet ty ws) = 32"
  by (simp add: packet_def length_concat comp_def sum_list_triv sum_list_replicate)

lemma decode_packet:
  assumes "length ws \<le> 7"
  shows "decode_request (packet ty ws) = \<lparr>rr_type = ty, rr_data = ws @ replicate (7 - length ws) 0\<rparr>"
proof -
  obtain a b c d e f g where seven: "ws @ replicate (7 - length ws) 0 = [a, b, c, d, e, f, g]"
    using seven [of "ws @ replicate (7 - length ws) 0"] assms by auto
  have "packet ty ws = le_chars ty @ le_chars a @ le_chars b @ le_chars c @ le_chars d @ le_chars e @ le_chars f @ le_chars g"
    using seven by (simp add: packet_def)
  then show ?thesis
    unfolding seven by (simp add: decode_request_def le_word_chars upt_rec)
qed

section \<open>Properties\<close>

text \<open>
  C28: handling the sockets ends, whatever the clients have sent and although a request may move the iterator
  of the loop back to the first client: every round but the last serves a client, which uses up input or
  removes it, or moves the iterator forward. The state is well formed afterwards.
\<close>

theorem socket_handling_ends:
  assumes "requests_inv d"
  shows "\<exists>r d'. handle_uevents rset d = Some (r, d') \<and> requests_inv d' \<and> (r = - 1 \<longleftrightarrow> lsock d = - 1)"
proof -
  obtain r d' where "handle_uevents rset d = Some (r, d')" "requests_inv d'"
    using handle_uevents_ends [OF assms, of rset] by (auto simp: hears_def)
  then show ?thesis by (auto simp: handle_uevents_def split_beta Let_def split: if_splits)
qed

theorem socket_handling_ends_witness:
  "\<exists>r d. handle_uevents [7] (one_client\<lparr>sock_in := (\<lambda>_. packet REQ_SCFG_LED [2] @ packet REQ_GET_SENS [])\<rparr>) = Some (r, d)"
  using socket_handling_ends [OF requests_inv_frame(2) [OF one_client_inv], of "[7]" "\<lambda>_. packet REQ_SCFG_LED [2] @ packet REQ_GET_SENS []"]
  by blast

text \<open>Two clients and a USB device; the first client asks for automatic LEDs.\<close>

definition two_requests :: "char list \<Rightarrow> daemon" where
  "two_requests str = start_state\<lparr>fresh := 3, dev_list := [(sample_dev 8)\<lparr>d_addr := 2, d_fd := 9, d_set_led := Some Evdev_driver\<rparr>],
     client_list := [(calloc_client 1)\<lparr>c_type := CLIENT_UNIX, c_sock := 7, c_proto := 1, c_sens := one_f32\<rparr>,
       (calloc_client 0)\<lparr>c_type := CLIENT_UNIX, c_sock := 8, c_proto := 1, c_sens := one_f32\<rparr>],
     sock_in := (\<lambda>s. if s = 7 then packet REQ_SCFG_LED [2] else str)\<rparr>"

lemma packet_nonempty [simp]: "length ws \<le> 7 \<Longrightarrow> packet ty ws \<noteq> []"
  using packet_length [of ws ty] by (cases "packet ty ws") simp_all

lemma handler_get_sens: "handler_of REQ_GET_SENS = get_sens"
  by (simp add: handler_of_def requests_def)

lemmas two_requests_run =
  handle_uevents_def accept_client_def first_client_def next_client_def client_at_def uevents_loop.simps client_input_def
  two_requests_def get_client_def read_proto1_def take_input_def decode_packet calloc_client_def handle_request_def
  handlers handler_get_sens scfg_led_def get_sens_def answer_def put_data_def arg_def sendresp_def change_cfg_def
  upd_client_def cfg_changed_def led_changed_def serial_changed_def set_device_led_def set_led_evdev_def
  is_device_valid_def get_device_fd_def drop_client_def remove_client_def unlink_client_def emit_def


end
