(* ===== verification/Hotplug.thy ===== *)
theory Hotplug
  imports DeviceFrame
begin

text \<open>
  Watching for devices that are plugged in (src/hotplug_linux.c, a build with USE_NETLINK). With a netlink socket, a
  message schedules a search for devices one second later, through the alarm signal and a pipe to
  itself; without one, the alarm signal itself is to trigger the search, after 1, 2, 4 and so on seconds. A pipe is
  known by its read end, where \<open>pipe_in\<close> counts the bytes.
\<close>

section \<open>Opening and closing\<close>

definition con_hotplug :: "daemon \<Rightarrow> int \<times> daemon" where
  "con_hotplug d =
     (let s = e_netlink (envt d) in
      if s = - 1 then (- 1, d)
      else if \<not> e_netbind (envt d) then (- 1, emit (Close s) d)
      else (s, d))"

definition init_hotplug :: "daemon \<Rightarrow> int \<times> daemon" where
  "init_hotplug d =
     (if hotplug_fd d \<noteq> - 1 then (hotplug_fd d, d)
      else
        let (fd, d) = con_hotplug d; d = d\<lparr>hotplug_fd := fd\<rparr> in
        if fd = - 1 then
          (case e_pipe (envt d) of
             None \<Rightarrow> (- 1, d)
           | Some (r, w) \<Rightarrow>
               let d = d\<lparr>poll_pipe := w, hotplug_fd := r, poll_time := 1, on_alarm := Poll_timeout\<rparr> in
               (r, emit (Alarm 1) d))
        else
          (case e_pipe (envt d) of None \<Rightarrow> (- 1, d) | Some p \<Rightarrow> (fd, d\<lparr>delay_pipe := p\<rparr>)))"

definition shutdown_hotplug :: "daemon \<Rightarrow> daemon" where
  "shutdown_hotplug d =
     (let d = (if hotplug_fd d \<noteq> - 1 then (emit (Close (hotplug_fd d)) d)\<lparr>hotplug_fd := - 1\<rparr> else d);
          d = (if poll_pipe d \<noteq> - 1 then (emit (Close (poll_pipe d)) d)\<lparr>poll_pipe := - 1\<rparr> else d) in
      if fst (delay_pipe d) \<noteq> - 1
      then (emit (Close (snd (delay_pipe d))) (emit (Close (fst (delay_pipe d))) d))\<lparr>delay_pipe := (- 1, - 1)\<rparr>
      else d)"

definition get_hotplug_fd :: "daemon \<Rightarrow> int" where
  "get_hotplug_fd d = (if delay_pending d then fst (delay_pipe d) else hotplug_fd d)"

section \<open>Messages and alarms\<close>

definition read_pipe :: "int \<Rightarrow> nat \<Rightarrow> daemon \<Rightarrow> daemon" where
  \<comment> \<open>at most so many bytes; reading from -1 fails\<close>
  "read_pipe fd n d = (if fd = - 1 then d else d\<lparr>pipe_in := (pipe_in d)(fd := pipe_in d fd - n)\<rparr>)"

definition write_pipe :: "int \<Rightarrow> int \<Rightarrow> daemon \<Rightarrow> daemon" where
  \<comment> \<open>a byte, with the read end and the write end of the pipe\<close>
  "write_pipe r w d = (if w = - 1 then d else d\<lparr>pipe_in := (pipe_in d)(r := pipe_in d r + 1)\<rparr>)"

definition handle_hotplug :: "daemon \<Rightarrow> int \<times> daemon" where
  \<comment> \<open>the last line but two is \<open>while(read(hotplug_fd, buf, sizeof buf) > 0);\<close>\<close>
  "handle_hotplug d =
     (if poll_pipe d \<noteq> - 1 \<or> delay_pending d then
        (let d = read_pipe (fst (delay_pipe d)) 64 (d\<lparr>delay_pending := False\<rparr>);
             (r, d) = init_devices_usb d in
         (if r = - 1 then - 1 else 0, d))
      else
        let d = d\<lparr>pipe_in := (pipe_in d)(hotplug_fd d := 0)\<rparr>;
            d = d\<lparr>delay_pending := True, on_alarm := Delay_timeout\<rparr> in
        (0, emit (Alarm 1) d))"

definition delay_timeout :: "daemon \<Rightarrow> daemon" where
  "delay_timeout d = write_pipe (fst (delay_pipe d)) (snd (delay_pipe d)) d"

definition poll_timeout :: "daemon \<Rightarrow> daemon" where
  "poll_timeout d =
     (let d = d\<lparr>on_alarm := Poll_timeout\<rparr> in
      if poll_pipe d \<noteq> - 1 then
        (let d = write_pipe (hotplug_fd d) (poll_pipe d) d; d = d\<lparr>poll_time := int32 (poll_time d * 2)\<rparr> in
         emit (Alarm (poll_time d)) d)
      else d)"

definition alarm_signal :: "daemon \<Rightarrow> daemon" where
  "alarm_signal d =
     (case on_alarm d of No_alarm \<Rightarrow> d | Delay_timeout \<Rightarrow> delay_timeout d | Poll_timeout \<Rightarrow> poll_timeout d)"

section \<open>The state machine\<close>

text \<open>
  What this is to do, as a state machine: a message schedules a search, the pipe that the alarm fills triggers it. In
  \<open>Deaf\<close>, no pipe could be created for a search to be triggered. The events are the start, something to be
  read from the descriptor that is watched, and the alarm; a step tells whether devices are searched for.
\<close>

datatype mode = Off | Idle | Pending | Polling | Deaf

datatype hotplug_event = Start | Readable | Ring

inductive hotplug_trans :: "mode \<Rightarrow> hotplug_event \<Rightarrow> bool \<Rightarrow> mode \<Rightarrow> bool" where
  start_net: "hotplug_trans Off Start False Idle"
| start_poll: "hotplug_trans Off Start False Polling"
| start_fail: "hotplug_trans Off Start False Off"
| start_deaf: "hotplug_trans Off Start False Deaf"
| start_again: "m \<noteq> Off \<Longrightarrow> hotplug_trans m Start False m"
| schedule: "hotplug_trans Idle Readable False Pending"
| search: "hotplug_trans Pending Readable True Idle"
| poll: "hotplug_trans Polling Readable True Polling"
| ignored: "hotplug_trans Deaf Readable False Deaf"
| ring: "hotplug_trans m Ring False m"

inductive_cases from_pending: "hotplug_trans Pending Readable b m"
inductive_simps searching: "hotplug_trans m e True m'"

definition mode_of :: "daemon \<Rightarrow> mode" where
  "mode_of d =
     (if hotplug_fd d = - 1 then Off
      else if poll_pipe d \<noteq> - 1 then Polling
      else if fst (delay_pipe d) = - 1 then Deaf
      else if delay_pending d then Pending else Idle)"

definition hotplug_ok :: "daemon \<Rightarrow> bool" where
  \<comment> \<open>only the descriptors of the mode are open\<close>
  "hotplug_ok d \<longleftrightarrow>
     (mode_of d \<in> {Off, Polling} \<longrightarrow> \<not> delay_pending d \<and> delay_pipe d = (- 1, - 1)) \<and>
     (mode_of d \<noteq> Polling \<longrightarrow> poll_pipe d = - 1) \<and>
     (fst (delay_pipe d) = - 1 \<longleftrightarrow> snd (delay_pipe d) = - 1)"

definition pipes_ok :: "environment \<Rightarrow> bool" where
  \<comment> \<open>\<open>pipe\<close> returns descriptors\<close>
  "pipes_ok e \<longleftrightarrow> (case e_pipe e of None \<Rightarrow> True | Some (r, w) \<Rightarrow> 0 \<le> r \<and> 0 \<le> w)"

fun hotplug_do :: "hotplug_event \<Rightarrow> daemon \<Rightarrow> daemon" where
  "hotplug_do Start d = snd (init_hotplug d)"
| "hotplug_do Readable d = snd (handle_hotplug d)"
| "hotplug_do Ring d = alarm_signal d"

lemma mode_host: "host x = host y \<Longrightarrow> mode_of x = mode_of y \<and> hotplug_ok x = hotplug_ok y"
  by (simp add: mode_of_def hotplug_ok_def host_sel [of x y])

lemma mode_fields:
  "mode_of (emit e d) = mode_of d" "mode_of (d\<lparr>on_alarm := h\<rparr>) = mode_of d" "mode_of (d\<lparr>pipe_in := p\<rparr>) = mode_of d"
  "mode_of (d\<lparr>poll_time := t\<rparr>) = mode_of d" "mode_of (d\<lparr>out := os\<rparr>) = mode_of d"
  by (simp_all add: mode_of_def emit_def)

lemma hotplug_ok_fields:
  "hotplug_ok (emit e d) = hotplug_ok d" "hotplug_ok (d\<lparr>on_alarm := h\<rparr>) = hotplug_ok d"
  "hotplug_ok (d\<lparr>pipe_in := p\<rparr>) = hotplug_ok d" "hotplug_ok (d\<lparr>poll_time := t\<rparr>) = hotplug_ok d"
  "hotplug_ok (d\<lparr>out := os\<rparr>) = hotplug_ok d"
  by (simp_all add: hotplug_ok_def mode_fields) (simp_all add: emit_def)

definition same_nodes :: "daemon \<Rightarrow> daemon \<Rightarrow> bool" where
  "same_nodes d d' \<longleftrightarrow> dev_list d' = dev_list d \<and> envt d' = envt d \<and> client_list d' = client_list d \<and> cfg d' = cfg d"

lemma ring_keeps:
  "mode_of (alarm_signal d) = mode_of d" "hotplug_ok (alarm_signal d) = hotplug_ok d" "same_nodes d (alarm_signal d)"
  by (simp_all add: alarm_signal_def delay_timeout_def poll_timeout_def write_pipe_def mode_fields hotplug_ok_fields
      same_nodes_def emit_def Let_def split: alarm_handler.split)

lemma start_step:
  assumes "hotplug_ok d" "pipes_ok (envt d)"
  shows "hotplug_trans (mode_of d) Start False (mode_of (snd (init_hotplug d))) \<and> hotplug_ok (snd (init_hotplug d)) \<and>
    same_nodes d (snd (init_hotplug d))"
proof (cases "hotplug_fd d = - 1")
  case True
  with assms have "delay_pipe d = (- 1, - 1)" "poll_pipe d = - 1" "\<not> delay_pending d"
    by (simp_all add: hotplug_ok_def mode_of_def)
  with True assms(2) show ?thesis
    by (auto simp: init_hotplug_def con_hotplug_def pipes_ok_def mode_of_def hotplug_ok_def same_nodes_def emit_def Let_def
        intro: hotplug_trans.intros split: option.split)
next
  case False
  with assms(1) show ?thesis
    by (auto simp: init_hotplug_def same_nodes_def mode_of_def intro!: start_again)
qed

lemma schedule_step:
  assumes "hotplug_ok d" "hotplug_fd d \<noteq> - 1" "poll_pipe d = - 1" "\<not> delay_pending d"
  shows "hotplug_trans (mode_of d) Readable False (mode_of (snd (handle_hotplug d))) \<and>
    hotplug_ok (snd (handle_hotplug d)) \<and> same_nodes d (snd (handle_hotplug d))"
  using assms by (auto simp: handle_hotplug_def Let_def mode_of_def hotplug_ok_def same_nodes_def emit_def
      intro: hotplug_trans.intros)

lemma search_step:
  assumes "hotplug_ok d" "get_hotplug_fd d \<noteq> - 1" "poll_pipe d \<noteq> - 1 \<or> delay_pending d"
  shows "hotplug_trans (mode_of d) Readable True (mode_of (snd (handle_hotplug d))) \<and>
    hotplug_ok (snd (handle_hotplug d)) \<and> (\<exists>x. same_nodes d x \<and> snd (handle_hotplug d) = snd (init_devices_usb x))"
proof -
  let ?x = "read_pipe (fst (delay_pipe d)) 64 (d\<lparr>delay_pending := False\<rparr>)"
  have eq: "snd (handle_hotplug d) = snd (init_devices_usb ?x)"
    using assms(3) by (auto simp: handle_hotplug_def split_beta Let_def)
  have fields: "hotplug_fd ?x = hotplug_fd d" "poll_pipe ?x = poll_pipe d" "delay_pipe ?x = delay_pipe d" "\<not> delay_pending ?x"
    and same: "same_nodes d ?x"
    by (simp_all add: read_pipe_def same_nodes_def)
  have "hotplug_trans (mode_of d) Readable True (mode_of ?x) \<and> hotplug_ok ?x"
  proof (cases "poll_pipe d = - 1")
    case True
    with assms have "mode_of d = Pending" "mode_of ?x = Idle"
      by (auto simp: mode_of_def fields get_hotplug_fd_def hotplug_ok_def split: if_splits)
    then show ?thesis using assms(1) True by (simp add: searching hotplug_ok_def fields)
  next
    case False
    with assms have "mode_of d = Polling" "mode_of ?x = Polling"
      by (auto simp: mode_of_def fields get_hotplug_fd_def hotplug_ok_def split: if_splits)
    then show ?thesis using assms(1) unfolding hotplug_ok_def fields by (simp add: searching read_pipe_def)
  qed
  with same have x: "hotplug_trans (mode_of d) Readable True (mode_of ?x)" "hotplug_ok ?x" "same_nodes d ?x" by simp_all
  have m: "mode_of (snd (handle_hotplug d)) = mode_of ?x" "hotplug_ok (snd (handle_hotplug d)) = hotplug_ok ?x"
    using mode_host [OF host_init_devices_usb [of ?x]] by (simp_all only: eq)
  show ?thesis unfolding m using x eq by (intro conjI exI [of _ ?x])
qed

section \<open>Properties\<close>


definition with_netlink :: daemon where
  "with_netlink = start_state\<lparr>envt := bare_environment\<lparr>e_netlink := 7\<rparr>\<rparr>"

definition plugged :: daemon where
  \<comment> \<open>watching, with three messages waiting\<close>
  "plugged = (snd (init_hotplug with_netlink))\<lparr>pipe_in := (\<lambda>fd. if fd = 7 then 3 else 0)\<rparr>"

lemma plugged_ok: "hotplug_ok plugged" "pipes_ok (envt plugged)" "get_hotplug_fd plugged = 7" "mode_of plugged = Idle"
  by (simp_all add: plugged_def with_netlink_def init_hotplug_def con_hotplug_def bare_environment_def hotplug_ok_def mode_of_def
      pipes_ok_def get_hotplug_fd_def)




end
