(* ===== verification/InputLoop.thy ===== *)
theory InputLoop
  imports DeviceFrame
begin

text \<open>
  Reading the devices that have input (the last loop of \<open>handle_events\<close>, src/spnavd.c): each is read until it has nothing
  left, its events are processed one by one, and a flush ends them. The loops end, since every event that is read
  uses up input of the device or an entry of its queue.
\<close>

section \<open>The loops\<close>

partial_function (option) read_all :: "nat \<Rightarrow> dev_input \<Rightarrow> daemon \<Rightarrow> (dev_input \<times> daemon) option" where
  "read_all a inp d =
     (let (r, inp, d) = read_device a inp d in
      if r = - 1 then Some (inp, d) else read_all a inp (process_input a inp d))"

definition read_and_flush :: "nat \<Rightarrow> dev_input \<Rightarrow> daemon \<Rightarrow> (dev_input \<times> daemon) option" where
  "read_and_flush a inp d =
     map_option (\<lambda>(inp, d). let inp = inp\<lparr>inp_type := INP_FLUSH\<rparr> in (inp, process_input a inp d)) (read_all a inp d)"

fun read_devices :: "int list \<Rightarrow> nat list \<Rightarrow> dev_input \<Rightarrow> daemon \<Rightarrow> daemon option" where
  \<comment> \<open>the nodes from \<open>dev\<close> on; the \<open>next\<close> pointer is read before the device is\<close>
  "read_devices rset [] inp d = Some d"
| "read_devices rset (a # as) inp d =
     (case get_device a d of
        None \<Rightarrow> read_devices rset as inp (d\<lparr>fault := True\<rparr>)
      | Some dev \<Rightarrow>
          if get_device_fd (Some dev) \<noteq> - 1 \<and> get_device_fd (Some dev) \<in> set rset then
            (case read_and_flush a inp d of None \<Rightarrow> None | Some (inp, d) \<Rightarrow> read_devices rset as inp d)
          else read_devices rset as inp d)"

section \<open>What a read uses up\<close>

definition bytes :: "char list list \<Rightarrow> nat" where
  "bytes chunks = sum_list (map length chunks)"

lemma scan_input_fd: "sball_wf (snd ds) \<Longrightarrow>
    sb_fd (snd (snd (scan_input cs cur start ds))) = sb_fd (snd ds)"
proof (induction cs cur start ds rule: scan_input.induct)
  case (2 c cs cur start ds)
  have "sb_fd (snd (call_parse pid data ds)) = sb_fd (snd ds)" for pid data
    using call_parse_queues [of ds pid data] 2(3) by (auto simp: queues_def)
  with 2 show ?case by (auto simp: call_parse_wf split: list.splits)
qed simp

lemma proc_input_fd: "sball_wf (snd ds) \<Longrightarrow> sb_fd (snd (proc_input ds)) = sb_fd (snd ds)"
  using scan_input_fd [of ds] by (simp add: proc_input_def move_rest_def split_beta Let_def)

lemma sys_read_bytes: "fst (sys_read n chunks) = [] \<Longrightarrow> bytes (snd (sys_read n chunks)) = bytes chunks"
  by (auto simp: sys_read_def bytes_def split: list.split if_splits)

lemma serial_read_loop_bytes:
  assumes "sball_wf (snd ds)"
  shows "(let (chunks', ds') = serial_read_loop chunks ds in
    sb_fd (snd ds') = sb_fd (snd ds) \<and> (bytes chunks' < bytes chunks \<or> bytes chunks' = bytes chunks \<and> ds' = ds))"
  using assms
proof (induction chunks ds rule: serial_read_loop.induct)
  case (1 chunks ds)
  obtain bs chunks' where r: "sys_read (256 - sb_len (snd ds) - 1) chunks = (bs, chunks')" by fastforce
  show ?case
  proof (cases "bs = []")
    case True
    with r sys_read_bytes [of "256 - sb_len (snd ds) - 1" chunks] show ?thesis
      by (subst serial_read_loop.simps) simp
  next
    case False
    let ?a = "(fst ds, append_input bs (snd ds))"
    have "length bs \<le> 256 - sb_len (snd ds) - 1"
      using sys_read_bound [of "256 - sb_len (snd ds) - 1" chunks] unfolding r by simp
    with False have wf: "sball_wf (snd ?a)"
      by (simp only: snd_conv) (intro append_input_wf 1; cases bs, auto)
    have less: "bytes chunks' < bytes chunks"
      using sys_read_shrinks [of "256 - sb_len (snd ds) - 1" chunks] False unfolding r by (simp add: bytes_def)
    have fd: "sb_fd (snd (proc_input ?a)) = sb_fd (snd ds)" using proc_input_fd [OF wf] by (simp add: append_input_def)
    have "sball_wf (snd (proc_input ?a))" using proc_input_wf [OF wf] by simp
    from 1(1) [OF r [symmetric] refl False this] less fd r False show ?thesis
      by (subst serial_read_loop.simps) (auto simp: split_beta Let_def)
  qed
qed

lemma read_dev_serial_uses:
  assumes "d_data dev = Some sb" "sball_wf sb" "read_dev_serial chunks dev = ((Some inp, dev'), chunks')"
  shows "\<exists>sb'. d_data dev' = Some sb' \<and> sb_fd sb' = sb_fd sb \<and>
    (bytes chunks' < bytes chunks \<or> bytes chunks' = bytes chunks \<and> length (evq_entries sb') < length (evq_entries sb))"
proof -
  obtain ch ds where l: "serial_read_loop chunks (dev, sb) = (ch, ds)" by (cases "serial_read_loop chunks (dev, sb)")
  have wf: "sball_wf (snd ds)" using serial_read_loop_wf [of "(dev, sb)" chunks] assms(2) by (simp add: l)
  have b: "sb_fd (snd ds) = sb_fd sb" "bytes ch < bytes chunks \<or> bytes ch = bytes chunks \<and> ds = (dev, sb)"
    using serial_read_loop_bytes [of "(dev, sb)" chunks] assms(2) by (simp_all add: l)
  from assms(1,3) obtain sb' where p: "evq_pop (snd ds) = Some (inp, sb')" "dev' = (fst ds)\<lparr>d_data := Some sb'\<rparr>" "chunks' = ch"
    by (auto simp: read_dev_serial_def l serial_overflow_wf [OF wf] split_beta split: option.splits)
  have "length (evq_entries sb') < length (evq_entries (snd ds))" "sb_fd sb' = sb_fd (snd ds)"
    using evq.pop_entries [OF sball_wfD(1) [OF wf] p(1)] p(1) by (auto simp: evq_pop_def split: if_splits)
  with b p show ?thesis by auto
qed

definition backlog :: "nat \<Rightarrow> daemon \<Rightarrow> nat \<times> nat" where
  \<comment> \<open>the events and bytes that wait for a device, and the entries of its queue\<close>
  "backlog a d =
     (case get_device a d of
        None \<Rightarrow> (0, 0)
      | Some dev \<Rightarrow>
          (case d_data dev of
             None \<Rightarrow> (length (evdev_in d (d_fd dev)), 0)
           | Some sb \<Rightarrow> (bytes (serial_in d (sb_fd sb)), length (evq_entries sb))))"

lemma backlog_steady: "steady d' = steady d \<Longrightarrow> backlog a d' = backlog a d"
proof -
  assume "steady d' = steady d"
  then have "dev_list (steady d') = dev_list (steady d)" "evdev_in (steady d') = evdev_in (steady d)"
    "serial_in (steady d') = serial_in (steady d)" by simp_all
  then show ?thesis by (simp add: steady_def backlog_def get_device_def split: option.split)
qed

lemma read_device_state:
  assumes "get_device a d = Some dev" "read_device a inp d = (r, inp', d')" "r \<noteq> - 1"
    "(case d_read dev of None \<Rightarrow> (- 1, inp, d) | Some Serial_driver \<Rightarrow> read_serial dev inp d | Some Evdev_driver \<Rightarrow> read_evdev dev inp d)
      = (r0, i0, d0)"
  shows "r0 \<noteq> - 1 \<and> (d' = d0 \<or> d' = d0\<lparr>fault := True\<rparr>)"
proof -
  obtain i b where n: "normalise_axis (d_flags dev) i0 = (i, b)" by fastforce
  have "read_device a inp d =
      (if r0 = - 1 then (- 1, i0, d0)
       else if inp_type i0 = INP_MOTION then (0, i, if b then d0\<lparr>fault := True\<rparr> else d0)
       else (0, i0, d0))"
    by (subst read_device_def, subst assms(1), subst option.case, subst assms(4), subst Let_def, subst prod.case, subst prod.case)
      (simp add: n)
  note e = trans [OF assms(2) [symmetric] this]
  show ?thesis
  proof (cases "r0 = - 1")
    case True
    then have "(r, inp', d') = (- 1, i0, d0)" by (rule trans [OF e if_P])
    with assms(3) show ?thesis by simp
  next
    case False
    note e2 = trans [OF e if_not_P [OF False]]
    show ?thesis
    proof (cases "inp_type i0 = INP_MOTION")
      case True
      from trans [OF e2 if_P [OF True]] show ?thesis using False by (cases b) simp_all
    next
      case no: False
      from trans [OF e2 if_not_P [OF no]] show ?thesis using False by simp
    qed
  qed
qed

lemma read_device_uses:
  assumes "devices_wf d" "read_device a inp d = (r, inp', d')" "r \<noteq> - 1"
  shows "(backlog a d', backlog a d) \<in> less_than <*lex*> less_than"
proof (cases "get_device a d")
  case None
  with assms show ?thesis by (simp add: read_device_def)
next
  case (Some dev)
  then have dev: "dev_ready dev" "d_addr dev = a" "dev \<in> set (dev_list d)"
    using assms(1) get_device_Some by (auto simp: devices_wf_def list_all_iff)
  have fault: "backlog a (x\<lparr>fault := b\<rparr>) = backlog a x" for x b by (simp add: backlog_def get_device_def split: option.split)
  show ?thesis
  proof (cases "d_read dev = Some Serial_driver")
    case True
    then obtain sb where sb: "d_data dev = Some sb" "sball_wf sb" "\<not> d_dangling dev"
      using dev(1) by (auto simp: dev_ready_def serial_wf_def)
    define res where "res = read_dev_serial (serial_in d (sb_fd sb)) dev"
    obtain q dev' chunks where "res = ((q, dev'), chunks)" by (metis surj_pair)
    then have rd: "read_dev_serial (serial_in d (sb_fd sb)) dev = ((q, dev'), chunks)" by (simp only: res_def)
    let ?d = "upd_device a (\<lambda>_. dev') (d\<lparr>serial_in := (serial_in d)(sb_fd sb := chunks)\<rparr>)"
    have eval: "read_serial dev inp d = (case q of None \<Rightarrow> (- 1, inp, ?d) | Some inp' \<Rightarrow> (0, inp', ?d))"
      by (simp add: read_serial_def sb rd dev(2) Let_def)
    have "(case d_read dev of None \<Rightarrow> (- 1, inp, d) | Some Serial_driver \<Rightarrow> read_serial dev inp d | Some Evdev_driver \<Rightarrow> read_evdev dev inp d)
        = (if q = None then - 1 else 0, case q of None \<Rightarrow> inp | Some i \<Rightarrow> i, ?d)"
      unfolding True option.case driver.case eval by (cases q) simp_all
    note st = read_device_state [OF Some assms(2,3) this]
    then have b: "backlog a d' = backlog a ?d" using fault [of True ?d] by metis
    from st obtain i where i: "q = Some i" by (cases q) auto
    from read_dev_serial_uses [OF sb(1,2) rd [unfolded i]] obtain sb' where
      u: "d_data dev' = Some sb'" "sb_fd sb' = sb_fd sb" "bytes chunks < bytes (serial_in d (sb_fd sb)) \<or>
        bytes chunks = bytes (serial_in d (sb_fd sb)) \<and> length (evq_entries sb') < length (evq_entries sb)" by auto
    have "d_addr dev' = a" using read_dev_serial_node [of dev "serial_in d (sb_fd sb)"] dev(2) by (simp add: rd same_node_def)
    moreover have "search (\<lambda>x. d_addr x = a) (map (\<lambda>x. if d_addr x = a then dev' else x) ds) = Some dev'"
      if "d_addr dev' = a" "dev \<in> set ds" for ds
      using that(2) by (induction ds) (auto simp: that(1) dev(2))
    ultimately have "get_device a ?d = Some dev'" using dev(3) by (simp add: get_device_def upd_device_def)
    with u Some sb(1) show ?thesis unfolding b by (simp add: backlog_def) (simp add: upd_device_def)
  next
    case False
    then have ev: "d_read dev = Some Evdev_driver" "d_data dev = None"
      using dev(1) by (auto simp: dev_ready_def evdev_ready_def)
    obtain r0 i0 d0 where v: "read_evdev dev inp d = (r0, i0, d0)" by (metis prod_cases3)
    then have "(case d_read dev of None \<Rightarrow> (- 1, inp, d) | Some Serial_driver \<Rightarrow> read_serial dev inp d | Some Evdev_driver \<Rightarrow> read_evdev dev inp d)
        = (r0, i0, d0)" by (simp add: ev)
    note st = read_device_state [OF Some assms(2,3) this]
    then have b: "backlog a d' = backlog a d0" using fault [of True d0] by metis
    obtain es where es: "evdev_in d (d_fd dev) \<noteq> []" "es = tl (evdev_in d (d_fd dev))"
      "d0 = d\<lparr>evdev_in := (evdev_in d)(d_fd dev := es)\<rparr> \<or> d0 = d\<lparr>evdev_in := (evdev_in d)(d_fd dev := es), fault := True\<rparr>"
      using v st by (auto simp: read_evdev_def split_beta Let_def split: list.splits evdev_read.splits if_splits)
    then have "get_device a d0 = Some dev" "evdev_in d0 (d_fd dev) = es" using Some by (auto simp: get_device_def)
    with es(1,2) Some ev(2) show ?thesis unfolding b by (simp add: backlog_def)
  qed
qed

section \<open>The loops end\<close>

text \<open>
  \<open>machine_inv\<close> is what the operations on clients, on devices and on events rely on; \<open>reading d d'\<close> says that it
  still holds and that nothing else has changed.
\<close>

definition events_only :: "daemon \<Rightarrow> daemon" where
  \<comment> \<open>without what reading the devices may change\<close>
  "events_only d = (host (steady d))\<lparr>out := []\<rparr>"

definition machine_inv :: "daemon \<Rightarrow> bool" where
  "machine_inv d \<longleftrightarrow> clients_wf d \<and> cfg_wf (cfg d) \<and> devices_wf d \<and> tables_wf d"

definition reading :: "daemon \<Rightarrow> daemon \<Rightarrow> bool" where
  "reading d d' \<longleftrightarrow> machine_inv d' \<and> events_only d' = events_only d"

lemma reading_refl: "machine_inv d \<Longrightarrow> reading d d"
  by (simp add: reading_def)

lemma reading_trans: "reading a b \<Longrightarrow> reading b c \<Longrightarrow> reading a c"
  by (simp add: reading_def)

lemma reading_fault: "reading d x \<Longrightarrow> reading d (x\<lparr>fault := b\<rparr>)"
  by (auto simp: reading_def machine_inv_def clients_wf_def tables_wf_fields events_only_def steady_def host_def replies_def
      intro: devices_wf_cong)

lemma reading_process: "reading d x \<Longrightarrow> reading d (process_input a inp x) \<and> backlog b (process_input a inp x) = backlog b x"
proof -
  assume x: "reading d x"
  then have "events_inv False x x" by (simp add: reading_def machine_inv_def events_inv_def)
  then have e: "events_inv False x (process_input a inp x)" by (rule process_input_inv) simp
  then have s: "steady (process_input a inp x) = steady x" by (simp add: events_inv_def)
  then have "dev_list (steady (process_input a inp x)) = dev_list (steady x)" by simp
  then have "dev_list (process_input a inp x) = dev_list x" by (simp add: steady_def)
  with e x s have "reading d (process_input a inp x)"
    by (auto simp: reading_def machine_inv_def events_inv_def events_only_def intro: devices_wf_cong)
  with backlog_steady [OF s] show ?thesis by simp
qed

lemma events_only_host: "host x = host y \<Longrightarrow> events_only x = events_only y"
proof -
  have "events_only z = events_only (host z)" for z by (simp add: events_only_def steady_def host_def replies_def)
  then show "host x = host y \<Longrightarrow> events_only x = events_only y" by metis
qed

lemma reading_read: "reading d x \<Longrightarrow> reading d (snd (snd (read_device a inp x)))"
proof -
  assume x: "reading d x"
  let ?y = "snd (snd (read_device a inp x))"
  have "client_list ?y = client_list x" "cfg ?y = cfg x" using host_sel [OF host_read_device] by simp_all
  moreover have "fresh x \<le> fresh ?y" "tables_wf x \<Longrightarrow> tables_wf ?y"
    using grows_read_device [OF grows_refl, of x a inp] by (simp_all add: grows_def)
  moreover have "devices_wf ?y" using read_device_wf x by (simp add: reading_def machine_inv_def)
  ultimately have "machine_inv ?y"
    using x by (auto simp: reading_def machine_inv_def clients_wf_def list_all_iff)
  with x events_only_host [OF host_read_device] show ?thesis by (simp add: reading_def)
qed

lemma read_all_ends: "reading d0 d \<Longrightarrow> \<exists>inp' d'. read_all a inp d = Some (inp', d') \<and> reading d0 d'"
proof (induction "backlog a d" arbitrary: d inp rule: wf_induct_rule [OF wf_lex_prod [OF wf_less_than wf_less_than]])
  case (1 d inp)
  obtain r inp' d1 where r: "read_device a inp d = (r, inp', d1)" by (metis prod_cases3)
  have d1: "reading d0 d1" using reading_read [OF 1(2), of a inp] by (simp add: r)
  show ?case
  proof (cases "r = - 1")
    case True
    with d1 show ?thesis by (subst read_all.simps) (simp add: r)
  next
    case False
    have "devices_wf d" using 1(2) by (simp add: reading_def machine_inv_def)
    from read_device_uses [OF this r False] reading_process [OF d1, of a inp' a]
    have "(backlog a (process_input a inp' d1), backlog a d) \<in> less_than <*lex*> less_than"
      "reading d0 (process_input a inp' d1)" by simp_all
    from 1(1) [OF this] False show ?thesis by (subst read_all.simps) (simp add: r)
  qed
qed

lemma read_devices_ends: "reading d0 d \<Longrightarrow> \<exists>d'. read_devices rset as inp d = Some d' \<and> reading d0 d'"
proof (induction rset as inp d rule: read_devices.induct)
  case (2 rset a as inp d)
  obtain inp' d' where r: "read_all a inp d = Some (inp', d')" "reading d0 d'" using read_all_ends [OF "2.prems"] by blast
  let ?inp = "inp'\<lparr>inp_type := INP_FLUSH\<rparr>"
  have f: "read_and_flush a inp d = Some (?inp, process_input a ?inp d')" by (simp add: read_and_flush_def r Let_def)
  have p: "reading d0 (process_input a ?inp d')" using reading_process [OF r(2)] by simp
  show ?case
    using "2.IH" "2.prems" f p reading_fault [OF "2.prems", of True] by (simp split: option.split)
qed simp

section \<open>Properties\<close>

lemma add_dev_event_adds:
  assumes "mem d (fresh d)"
  shows "add_dev_event a d = (True, d\<lparr>fresh := fresh d + 1, ticks := ticks d + 1,
    dev_ev_list := dev_ev_list d @ [new_dev_event a (clock d (ticks d))]\<rparr>)"
  using assms by (simp add: add_dev_event_def calloc_def gettimeofday_def)

lemma flush_keeps:
  assumes "clients_wf d"
  shows "dev_list (flush_motion a d) = dev_list d" "map de_dev (dev_ev_list (flush_motion a d)) = map de_dev (dev_ev_list d)"
proof -
  have u: "client_list (update_motion_period a d) = client_list d" "fresh (update_motion_period a d) = fresh d"
    "dev_list (update_motion_period a d) = dev_list d"
    "map de_dev (dev_ev_list (update_motion_period a d)) = map de_dev (dev_ev_list d)"
    by (simp_all add: update_motion_period_def gettimeofday_def upd_dev_event_def upd_first_de_dev)
  then have "clients_wf (update_motion_period a d)" using assms by (simp add: clients_wf_def)
  with u show "dev_list (flush_motion a d) = dev_list d" "map de_dev (dev_ev_list (flush_motion a d)) = map de_dev (dev_ev_list d)"
    by (auto simp: flush_motion_def dispatch_sel upd_dev_event_def upd_first_de_dev Let_def split: option.split)
qed

lemma flush_adds_event:
  assumes "clients_wf d" "\<forall>n. mem d n"
  shows "dev_list (process_input a (inp\<lparr>inp_type := INP_FLUSH\<rparr>) d) = dev_list d"
    "a \<in> set (map de_dev (dev_ev_list (process_input a (inp\<lparr>inp_type := INP_FLUSH\<rparr>) d)))"
proof -
  let ?x = "if get_dev_event a d = None then snd (add_dev_event a d) else d"
  have p: "process_input a (inp\<lparr>inp_type := INP_FLUSH\<rparr>) d = flush_motion a ?x"
    using assms(2) by (simp add: process_input_def add_dev_event_adds split: option.split)
  have x: "clients_wf ?x" "dev_list ?x = dev_list d"
    using assms by (auto simp: add_dev_event_adds clients_wf_def list_all_iff)
  have "a \<in> set (map de_dev (dev_ev_list ?x))"
    using assms(2) search_None_iff [of "\<lambda>e. de_dev e = a" "dev_ev_list d"]
    by (auto simp: add_dev_event_adds get_dev_event_def new_dev_event_def)
  with x flush_keeps [OF x(1), of a] show
    "dev_list (process_input a (inp\<lparr>inp_type := INP_FLUSH\<rparr>) d) = dev_list d"
    "a \<in> set (map de_dev (dev_ev_list (process_input a (inp\<lparr>inp_type := INP_FLUSH\<rparr>) d)))"
    unfolding p by (simp_all only:)
qed

text \<open>
  C35: a device that cannot be read any more (it was unplugged) leaves an event behind. Reading removes the device and
  its event and frees it, but the flush that follows adds an event for the pointer to it again; no device has that
  event, so it is never removed, and a device that is later allocated at the same address takes it over.
\<close>

theorem failed_read_leaves_event:
  assumes "clients_wf d" "get_device a d = Some dev" "d_read dev = Some Evdev_driver" "0 \<le> d_fd dev"
    "evdev_in d (d_fd dev) = Rd_err # evs" "\<forall>n. mem d n"
  shows "\<exists>inp' d'. read_and_flush a inp d = Some (inp', d') \<and> get_device a d' = None \<and> a \<in> set (map de_dev (dev_ev_list d'))"
proof -
  let ?d = "remove_device (d_addr dev) (d\<lparr>evdev_in := (evdev_in d)(d_fd dev := evs)\<rparr>)"
  have a: "d_addr dev = a" using get_device_Some [OF assms(2)] by simp
  have "read_device a inp d = (- 1, inp, ?d)" using assms by (simp add: read_device_def read_evdev_def)
  then have r: "read_all a inp d = Some (inp, ?d)" by (subst read_all.simps) simp
  have h: "mem ?d = mem d" "client_list ?d = client_list d" using host_sel(2,8) [OF host_remove_device] by simp_all
  then have "clients_wf ?d"
    using remove_device_fresh [of "d\<lparr>evdev_in := (evdev_in d)(d_fd dev := evs)\<rparr>" "d_addr dev"] assms(1)
    by (auto simp: clients_wf_def list_all_iff)
  note f = flush_adds_event [OF this, of a inp]
  have "get_device a ?d = None" by (simp add: a get_device_def search_None_iff remove_device_list(1))
  then have "get_device a (process_input a (inp\<lparr>inp_type := INP_FLUSH\<rparr>) ?d) = None"
    using f(1) assms(6) h(1) by (simp add: get_device_def)
  with f(2) assms(6) h(1) show ?thesis by (simp add: read_and_flush_def r Let_def)
qed

definition unplugged_stick :: daemon where
  \<comment> \<open>one USB device, whose next read fails\<close>
  "unplugged_stick = start_state\<lparr>fresh := 1, evdev_in := (\<lambda>_. [Rd_err]),
     dev_list := [(new_device 0 1)\<lparr>d_fd := 5, d_read := Some Evdev_driver, d_close := Some Evdev_driver\<rparr>]\<rparr>"

theorem failed_read_leaves_event_witness:
  "\<exists>inp d. read_and_flush 0 (button 0 True) unplugged_stick = Some (inp, d) \<and> get_device 0 d = None \<and>
     0 \<in> set (map de_dev (dev_ev_list d))"
  by (rule failed_read_leaves_event [of unplugged_stick 0 "hd (dev_list unplugged_stick)" "[]"])
    (simp_all add: unplugged_stick_def clients_wf_def get_device_def start_state_def)

end
