(* ===== verification/MainLoop.thy ===== *)
theory MainLoop
  imports UnixProto Hotplug InputLoop
begin

text \<open>
  The main loop of the daemon (src/spnavd.c): what it waits for and how long, what it does with what is ready, the
  signals, and its end. A state of the loop is where the program is and the state of the daemon; while it waits,
  input arrives and signals are handled.
\<close>

section \<open>Signals and the end\<close>

datatype signal = SIGHUP | SIGALRM | SIGUSR1 | SIGUSR2 | SIGINT | SIGTERM | SIGSEGV

definition cleanup :: "daemon \<Rightarrow> daemon" where
  "cleanup d =
     (let d = kbemu_cleanup d; d = close_x11 d; d = close_unix d; d = shutdown_hotplug d;
          d = fold (\<lambda>dev. remove_device (d_addr dev)) (dev_list d) d in
      case pidfile d of None \<Rightarrow> d | Some path \<Rightarrow> emit (Unlink path) d)"

definition exits :: "signal \<Rightarrow> bool" where
  "exits s \<longleftrightarrow> s \<in> {SIGSEGV, SIGINT, SIGTERM}"

definition sig_handler :: "signal \<Rightarrow> daemon \<Rightarrow> daemon" where
  \<comment> \<open>with the handlers of src/hotplug_linux.c for \<open>SIGALRM\<close>; \<open>exit\<close> calls \<open>cleanup\<close>\<close>
  "sig_handler s d =
     (case s of
        SIGHUP \<Rightarrow> d\<lparr>pipe_in := (pipe_in d)(sig_pipe d := pipe_in d (sig_pipe d) + 1)\<rparr>
      | SIGALRM \<Rightarrow> alarm_signal d
      | SIGUSR1 \<Rightarrow> snd (init_x11 d)
      | SIGUSR2 \<Rightarrow> close_x11 d
      | _ \<Rightarrow> cleanup d)"

section \<open>What to wait for\<close>

definition fd_add :: "int \<Rightarrow> int list \<times> int \<Rightarrow> int list \<times> int" where
  \<comment> \<open>\<open>FD_SET(fd, &rset); if(fd > max_fd) max_fd = fd;\<close>\<close>
  "fd_add fd s = (fd # fst s, if fd > snd s then fd else snd s)"

definition fd_valid :: "int \<Rightarrow> int list \<times> int \<Rightarrow> int list \<times> int" where
  "fd_valid fd s = (if fd \<noteq> - 1 then fd_add fd s else s)"

definition watch_fds :: "daemon \<Rightarrow> int list \<times> int" where
  \<comment> \<open>the set and \<open>max_fd\<close>; in the last line \<open>fd\<close> is still the descriptor of the X server\<close>
  "watch_fds d =
     (let s = fold (\<lambda>dev. fd_valid (get_device_fd (Some dev))) (dev_list d) ([], 0);
          s = fd_valid (get_hotplug_fd d) s;
          s = fd_valid (lsock d) s;
          s = fold (\<lambda>c s. if c_type c = CLIENT_UNIX then fd_add (c_sock c) s else s) (client_list d) s;
          fd = get_x11_socket d;
          s = fd_valid fd s in
      (sig_pipe d # fst s, if sig_pipe d > snd s then fd else snd s))"

definition prepare_wait :: "daemon \<Rightarrow> daemon" where
  \<comment> \<open>the loop over the clients leaves the iterator at the end; an \<open>fd_set\<close> has room for 1024\<close>
  "prepare_wait d =
     (let d = d\<lparr>client_iter := None\<rparr> in
      if \<forall>fd \<in> set (fst (watch_fds d)). 0 \<le> fd \<and> fd < 1024 then d else d\<lparr>fault := True\<rparr>)"

definition main_timeout :: "daemon \<Rightarrow> (timeval option \<times> bool) \<times> daemon" where
  \<comment> \<open>\<open>timeout\<close>, \<open>repeat_on_timeout\<close>\<close>
  "main_timeout d =
     (let (tv_button, d) = next_button_timeout (dev_list d) d;
          msec = repeat_msec (cfg d) in
      if msec \<ge> 0 \<and> search (\<lambda>dev. is_device_valid (Some dev) \<and> in_deadzone (d_addr dev) d = 0) (dev_list d) \<noteq> None then
        (let tv_repeat = \<lparr>tv_sec = msec div 1000, tv_usec = msec mod 1000 * 1000\<rparr> in
         case tv_button of
           None \<Rightarrow> ((Some tv_repeat, True), d)
         | Some tv \<Rightarrow> if timer_less tv_repeat tv then ((Some tv_repeat, True), d) else ((Some tv, False), d))
      else ((tv_button, False), d))"

section \<open>What to do\<close>

definition read_config :: "daemon \<Rightarrow> daemon" where
  "read_config d = (let (_, k, f) = read_cfg (cff d) in d\<lparr>cff := f, cfg := k\<rparr>)"

definition handle_events :: "int list \<Rightarrow> dev_input \<Rightarrow> daemon \<Rightarrow> daemon option" where
  \<comment> \<open>\<open>inp\<close> is the variable of that name, before anything is stored in it\<close>
  "handle_events rset inp d =
     (let d = (if sig_pipe d \<in> set rset then cfg_changed (read_config (read_pipe (sig_pipe d) 4 d)) else d) in
      case handle_uevents rset d of
        None \<Rightarrow> None
      | Some (_, d) \<Rightarrow>
          let d = snd (handle_xevents rset d) in
          case read_devices rset (map d_addr (dev_list d)) inp d of
            None \<Rightarrow> None
          | Some d \<Rightarrow>
              Some (if get_hotplug_fd d \<noteq> - 1 \<and> get_hotplug_fd d \<in> set rset then snd (handle_hotplug d) else d))"

definition repeat_events :: "daemon \<Rightarrow> daemon" where
  "repeat_events d =
     (if repeat_msec (cfg d) \<ge> 0 then
        fold (\<lambda>dev d. if in_deadzone (d_addr dev) d = 0 then repeat_last_motion_event (d_addr dev) d else d) (dev_list d) d
      else d)"

definition after_select :: "int list option \<Rightarrow> dev_input \<Rightarrow> daemon \<Rightarrow> daemon option" where
  \<comment> \<open>the rest of a round: what is ready, or nothing when \<open>select\<close> timed out or failed\<close>
  "after_select ready inp d =
     (let ((timeout, repeat_on_timeout), d) = main_timeout d;
          r = (case ready of
                 Some rset \<Rightarrow> handle_events rset inp d
               | None \<Rightarrow> Some (if repeat_on_timeout then repeat_events d else d)) in
      map_option (\<lambda>d. emit_button_timeouts (dev_list d) d) r)"

section \<open>The loop as steps\<close>

datatype phase = Top | Waiting "int list" int | Exited

definition arrives :: "daemon \<Rightarrow> daemon \<Rightarrow> bool" where
  \<comment> \<open>input that arrives, clients that connect, devices that appear in the file system\<close>
  "arrives d d' \<longleftrightarrow>
     (\<exists>si ei se ai xi pi ii e. e_roots e = e_roots (envt d) \<and> env_ok (d\<lparr>envt := e\<rparr>) \<and>
       d' = d\<lparr>sock_in := si, evdev_in := ei, serial_in := se, accept_in := ai, x_in := xi, pipe_in := pi, ino_in := ii, envt := e\<rparr>)"

inductive main_step :: "phase \<times> daemon \<Rightarrow> phase \<times> daemon \<Rightarrow> bool" where
  prepare: "main_step (Top, d) (Waiting (fst (watch_fds d)) (snd (watch_fds d)), prepare_wait d)"
| arrive: "arrives d d' \<Longrightarrow> main_step (Waiting fds m, d) (Waiting fds m, d')"
| interrupted: "\<not> exits s \<Longrightarrow> main_step (Waiting fds m, d) (Waiting fds m, sig_handler s (snd (main_timeout d)))"
| ready: "set rset \<subseteq> set fds \<Longrightarrow> \<forall>fd \<in> set rset. fd \<le> m \<Longrightarrow> rset \<noteq> [] \<Longrightarrow> after_select (Some rset) inp d = Some d' \<Longrightarrow>
    main_step (Waiting fds m, d) (Top, d')"
| nothing_ready: "after_select None inp d = Some d' \<Longrightarrow> main_step (Waiting fds m, d) (Top, d')"
| leave: "exits s \<Longrightarrow> main_step (Waiting fds m, d) (Exited, sig_handler s d)"

inductive_cases from_top: "main_step (Top, d) t"
inductive_cases from_waiting: "main_step (Waiting fds m, d) t"
inductive_simps exited: "main_step (Exited, d) t"

definition main_init :: "daemon \<Rightarrow> daemon" where
  \<comment> \<open>the part of \<open>main\<close> before the loop that sets up the state\<close>
  "main_init d =
     (let d = read_config d; d = d\<lparr>prev_cfg := cfg d\<rparr>;
          d = init_devices d; d = snd (init_hotplug d); d = snd (init_unix d); d = snd (init_x11 d) in
      kbemu_init d)"

section \<open>The invariant\<close>

text \<open>
  \<open>machine_ok\<close> is the part of the invariant that does not look at hotplug detection.
\<close>

definition machine_ok :: "daemon \<Rightarrow> bool" where
  "machine_ok d \<longleftrightarrow> requests_inv d \<and> tables_wf d \<and> x_inv d \<and> env_ok d"

definition loop_inv :: "daemon \<Rightarrow> bool" where
  "loop_inv d \<longleftrightarrow> machine_ok d \<and> hotplug_ok d"

lemma machine_ok_cong:
  assumes "cfg d' = cfg d" "client_list d' = client_list d" "fresh d' = fresh d" "dev_list d' = dev_list d"
    "cur_axis_mag d' = cur_axis_mag d" "cur_dom_axis d' = cur_dom_axis d" "dev_ev_list d' = dev_ev_list d"
    "disable_translation d' = disable_translation d" "disable_rotation d' = disable_rotation d"
    "dpy d' = dpy d" "envt d' = envt d"
  shows "machine_ok d' = machine_ok d"
proof -
  have "requests_inv d' = requests_inv d" by (simp add: requests_inv_def clients_wf_def devices_wf_def assms)
  moreover have "tables_wf d' = tables_wf d" by (simp add: tables_wf_def assms)
  moreover have "x_inv d' = x_inv d" by (simp add: x_inv_def x_windows_def assms)
  ultimately show ?thesis by (simp add: machine_ok_def env_ok_def assms)
qed

lemma hotplug_ok_cong:
  assumes "hotplug_fd d' = hotplug_fd d" "poll_pipe d' = poll_pipe d" "delay_pipe d' = delay_pipe d"
    "delay_pending d' = delay_pending d"
  shows "hotplug_ok d' = hotplug_ok d"
  by (simp add: hotplug_ok_def mode_of_def assms)

lemma loop_inv_cong:
  assumes "cfg d' = cfg d" "client_list d' = client_list d" "fresh d' = fresh d" "dev_list d' = dev_list d"
    "cur_axis_mag d' = cur_axis_mag d" "cur_dom_axis d' = cur_dom_axis d" "dev_ev_list d' = dev_ev_list d"
    "disable_translation d' = disable_translation d" "disable_rotation d' = disable_rotation d"
    "dpy d' = dpy d" "envt d' = envt d" "hotplug_fd d' = hotplug_fd d" "poll_pipe d' = poll_pipe d"
    "delay_pipe d' = delay_pipe d" "delay_pending d' = delay_pending d"
  shows "loop_inv d' = loop_inv d"
  using machine_ok_cong [OF assms(1-11)] hotplug_ok_cong [OF assms(12-15)] by (simp add: loop_inv_def)

lemma loop_inv_fields:
  "loop_inv (d\<lparr>client_iter := p\<rparr>) = loop_inv d"
  "loop_inv (d\<lparr>fault := b\<rparr>) = loop_inv d"
  "loop_inv (d\<lparr>out := es\<rparr>) = loop_inv d"
  "loop_inv (d\<lparr>pipe_in := pi\<rparr>) = loop_inv d"
  "loop_inv (d\<lparr>lsock := i\<rparr>) = loop_inv d"
  "loop_inv (d\<lparr>prev_cfg := k\<rparr>) = loop_inv d"
  "loop_inv (d\<lparr>sock_own := b\<rparr>) = loop_inv d"
  "loop_inv (d\<lparr>kb_send := k'\<rparr>) = loop_inv d"
  "loop_inv (d\<lparr>uinput_fd := i\<rparr>) = loop_inv d"
  "loop_inv (emit e d) = loop_inv d"
  unfolding emit_def by (rule loop_inv_cong; simp)+

lemma loop_inv_cfg:
  assumes "loop_inv d" "cfg_wf k"
  shows "loop_inv (d\<lparr>cff := f, cfg := k\<rparr>)"
proof -
  let ?d = "d\<lparr>cff := f, cfg := k\<rparr>"
  have "requests_inv ?d" using assms by (simp add: loop_inv_def machine_ok_def requests_inv_def clients_wf_def devices_wf_def)
  moreover have "x_inv ?d = x_inv d" by (simp add: x_inv_def x_windows_def)
  moreover have "tables_wf ?d = tables_wf d" by (simp add: tables_wf_def)
  moreover have "hotplug_ok ?d = hotplug_ok d" by (rule hotplug_ok_cong) simp_all
  ultimately show ?thesis using assms(1) by (simp add: loop_inv_def machine_ok_def env_ok_def)
qed

lemma loop_inv_arrives:
  assumes "loop_inv d" "arrives d d'"
  shows "loop_inv d'"
proof -
  obtain si ei se ai xi pi ii e where e: "e_roots e = e_roots (envt d)" "env_ok (d\<lparr>envt := e\<rparr>)"
    and d': "d' = d\<lparr>sock_in := si, evdev_in := ei, serial_in := se, accept_in := ai, x_in := xi, pipe_in := pi, ino_in := ii, envt := e\<rparr>"
    using assms(2) unfolding arrives_def by metis
  have "machine_ok d' = machine_ok (d\<lparr>envt := e\<rparr>)" unfolding d' by (rule machine_ok_cong) simp_all
  moreover have "machine_ok (d\<lparr>envt := e\<rparr>) = machine_ok d"
    using assms(1) e by (auto simp: loop_inv_def machine_ok_def requests_inv_def clients_wf_def devices_wf_def tables_wf_def
        x_inv_def x_windows_def)
  moreover have "hotplug_ok d' = hotplug_ok d" unfolding d' by (rule hotplug_ok_cong) simp_all
  ultimately show ?thesis using assms(1) by (simp add: loop_inv_def)
qed

section \<open>The operations keep the invariant\<close>

lemma env_ok_blank: "env_ok (steady d) = env_ok d" "env_ok (host d) = env_ok d" "env_ok (unheard d) = env_ok d"
  by (simp_all add: env_ok_def steady_def host_def unheard_def outside_def)

lemma hotplug_ok_blank: "hotplug_ok (steady d) = hotplug_ok d" "hotplug_ok (host d) = hotplug_ok d"
  "hotplug_ok (unheard d) = hotplug_ok d" "hotplug_ok (d\<lparr>out := es\<rparr>) = hotplug_ok d"
  by (rule hotplug_ok_cong; simp add: steady_def host_def unheard_def outside_def)+

lemma x_inv_blank: "x_inv (steady d) = x_inv d" "x_inv (host d) = x_inv d"
  by (simp_all add: x_inv_def x_windows_def steady_def host_def)

lemma clients_blank: "client_list (steady d) = client_list d" "client_list (host d) = client_list d" "cfg (host d) = cfg d"
  by (simp_all add: steady_def host_def)

lemma loop_inv_start: "loop_inv d \<Longrightarrow> events_inv False d d" "loop_inv d \<Longrightarrow> machine_inv d" "loop_inv d \<Longrightarrow> requests_inv d"
  by (simp_all add: loop_inv_def machine_ok_def requests_inv_def events_inv_def machine_inv_def)

lemma loop_inv_events:
  assumes "loop_inv d" "events_inv False d d'"
  shows "loop_inv d'"
proof -
  from assms(2) have s: "steady d' = steady d" by (simp add: events_inv_def)
  have "dev_list (steady d') = dev_list (steady d)" using s by simp
  then have "dev_list d' = dev_list d" by (simp add: steady_def)
  moreover have "client_list d' = client_list d" "x_inv d' = x_inv d" "env_ok d' = env_ok d" "hotplug_ok d' = hotplug_ok d"
    using s clients_blank(1) x_inv_blank(1) env_ok_blank(1) hotplug_ok_blank(1) by metis+
  ultimately show ?thesis
    using assms by (auto simp: loop_inv_def machine_ok_def requests_inv_def events_inv_def intro: devices_wf_cong)
qed

lemma machine_ok_host:
  assumes "machine_ok d" "host d' = host d" "devices_wf d'" "grows d d'"
  shows "machine_ok d'"
proof -
  have "client_list d' = client_list d" "cfg d' = cfg d" "x_inv d' = x_inv d" "env_ok d' = env_ok d"
    using assms(2) clients_blank(2,3) x_inv_blank(2) env_ok_blank(2) by metis+
  with assms show ?thesis by (auto simp: machine_ok_def requests_inv_def grows_def clients_wf_def list_all_iff)
qed

lemma loop_inv_cfg_changed: "loop_inv d \<Longrightarrow> loop_inv (cfg_changed d)"
  using cfg_changed_fresh [of d] grows_cfg_changed [OF grows_refl, of d] mode_host [OF host_cfg_changed [of d]]
    machine_ok_host [OF _ host_cfg_changed]
  by (simp add: loop_inv_def machine_ok_def requests_inv_def)

lemma machine_ok_search: "machine_ok d \<Longrightarrow> machine_ok (snd (init_devices_usb d))"
  using init_devices_usb_wf [of d] grows_init_devices_usb [OF grows_refl, of d]
  by (intro machine_ok_host [OF _ host_init_devices_usb]) (simp_all add: machine_ok_def requests_inv_def)

lemma loop_inv_read_config: "loop_inv d \<Longrightarrow> loop_inv (read_config d)"
proof -
  obtain r k f where e: "read_cfg (cff d) = (r, k, f)" by (metis prod_cases3)
  then have "read_config d = d\<lparr>cff := f, cfg := k\<rparr>" by (simp add: read_config_def)
  with read_cfg_outcome [OF e] loop_inv_cfg show "loop_inv d \<Longrightarrow> loop_inv (read_config d)" by simp
qed

lemma loop_inv_hears:
  assumes "loop_inv d" "hears d d'"
  shows "loop_inv d'"
proof -
  have "env_ok d' = env_ok d" "hotplug_ok d' = hotplug_ok d"
    using assms(2) env_ok_blank(3) hotplug_ok_blank(3) unfolding hears_def by metis+
  with assms show ?thesis by (simp add: loop_inv_def machine_ok_def hears_def grows_def)
qed

lemma loop_inv_x: "loop_inv d \<Longrightarrow> loop_inv (x_step op d)"
proof -
  assume d: "loop_inv d"
  then have x: "x_state_inv d" "requests_inv d" by (simp_all add: loop_inv_def machine_ok_def x_state_inv_def)
  note keep = x_keeps_refl [OF x(2)]
  have "x_keeps d (x_step op d)"
    using keep x_keeps_init [OF keep] x_keeps_close [OF keep] x_keeps_handle [OF keep] by (cases op) (simp_all add: x_keeps_fields)
  then have u: "unplugged (x_step op d) = unplugged d" by (simp add: x_keeps_def)
  have "hotplug_ok (x_step op d) = hotplug_ok d" using unplugged_sel [OF u] by (intro hotplug_ok_cong) simp_all
  with d unplugged_sel [OF u] x_ops.step_inv [OF x(1), of op] show ?thesis
    by (simp add: loop_inv_def machine_ok_def x_state_inv_def env_ok_def)
qed

lemma loop_inv_x_ops: "loop_inv d \<Longrightarrow> loop_inv (snd (init_x11 d))" "loop_inv d \<Longrightarrow> loop_inv (close_x11 d)"
  "loop_inv d \<Longrightarrow> loop_inv (snd (handle_xevents rset d))"
  using loop_inv_x [of d X_start] loop_inv_x [of d X_stop] loop_inv_x [of d "X_ready rset"] by simp_all

lemma loop_inv_reading:
  assumes "loop_inv d" "reading d d'"
  shows "loop_inv d'"
proof -
  have e: "host (steady d')\<lparr>out := []\<rparr> = host (steady d)\<lparr>out := []\<rparr>" and m: "machine_inv d'"
    using assms(2) by (simp_all add: reading_def events_only_def)
  have "client_list d' = client_list d" "envt d' = envt d" "dpy d' = dpy d" "hotplug_fd d' = hotplug_fd d"
    "poll_pipe d' = poll_pipe d" "delay_pipe d' = delay_pipe d" "delay_pending d' = delay_pending d"
    using arg_cong [OF e, of client_list] arg_cong [OF e, of envt] arg_cong [OF e, of dpy] arg_cong [OF e, of hotplug_fd]
      arg_cong [OF e, of poll_pipe] arg_cong [OF e, of delay_pipe] arg_cong [OF e, of delay_pending]
    by (simp_all add: host_def steady_def)
  then have "x_inv d' = x_inv d" "env_ok d' = env_ok d" "hotplug_ok d' = hotplug_ok d" "client_list d' = client_list d"
    by (simp_all add: x_inv_def x_windows_def env_ok_def hotplug_ok_def mode_of_def)
  with assms(1) m show ?thesis by (simp add: loop_inv_def machine_ok_def requests_inv_def machine_inv_def)
qed

lemma loop_inv_alarm: "loop_inv d \<Longrightarrow> loop_inv (alarm_signal d)"
proof -
  have "machine_ok (alarm_signal d) = machine_ok d"
    by (rule machine_ok_cong)
      (simp_all add: alarm_signal_def delay_timeout_def poll_timeout_def write_pipe_def Let_def emit_def split: alarm_handler.split)
  then show "loop_inv d \<Longrightarrow> loop_inv (alarm_signal d)" by (simp add: loop_inv_def ring_keeps)
qed

lemma loop_inv_hotplug:
  assumes "loop_inv d" "get_hotplug_fd d \<noteq> - 1"
  shows "loop_inv (snd (handle_hotplug d))"
proof (cases "poll_pipe d \<noteq> - 1 \<or> delay_pending d")
  case True
  let ?x = "read_pipe (fst (delay_pipe d)) 64 (d\<lparr>delay_pending := False\<rparr>)"
  have "snd (handle_hotplug d) = snd (init_devices_usb ?x)" using True by (auto simp: handle_hotplug_def split_beta Let_def)
  moreover have "machine_ok ?x = machine_ok d" by (rule machine_ok_cong) (simp_all add: read_pipe_def)
  ultimately have "machine_ok (snd (handle_hotplug d))" using machine_ok_search [of ?x] assms(1) by (simp add: loop_inv_def)
  with search_step [OF _ assms(2) True] assms(1) show ?thesis by (simp add: loop_inv_def)
next
  case False
  then have "hotplug_fd d \<noteq> - 1" using assms(2) by (simp add: get_hotplug_fd_def)
  moreover have "machine_ok (snd (handle_hotplug d)) = machine_ok d"
    using False by (intro machine_ok_cong) (simp_all add: handle_hotplug_def Let_def emit_def)
  ultimately show ?thesis using schedule_step [of d] False assms(1) by (simp add: loop_inv_def)
qed

lemma loop_inv_signal: "loop_inv d \<Longrightarrow> \<not> exits s \<Longrightarrow> loop_inv (sig_handler s d)"
  by (cases s) (simp_all add: sig_handler_def exits_def loop_inv_fields loop_inv_alarm loop_inv_x_ops)

lemma loop_inv_timeout: "loop_inv d \<Longrightarrow> loop_inv (snd (main_timeout d))"
proof -
  have "snd (main_timeout d) = snd (next_button_timeout (dev_list d) d)"
    by (simp add: main_timeout_def split_beta Let_def split: option.split)
  then show "loop_inv d \<Longrightarrow> loop_inv (snd (main_timeout d))"
    using loop_inv_events [OF _ next_button_timeout_inv] loop_inv_start(1) by metis
qed

lemma loop_inv_repeat: "loop_inv d \<Longrightarrow> loop_inv (repeat_events d)"
proof -
  assume d: "loop_inv d"
  have "events_inv False d (repeat_events d)"
    unfolding repeat_events_def using loop_inv_start(1) [OF d] by (auto intro!: fold_inv repeat_inv)
  with d show ?thesis by (rule loop_inv_events)
qed

lemma loop_inv_expire: "loop_inv d \<Longrightarrow> loop_inv (emit_button_timeouts devs d)"
  by (rule loop_inv_events [OF _ emit_button_timeouts_inv [OF loop_inv_start(1)]])

lemma loop_inv_prepare: "loop_inv d \<Longrightarrow> loop_inv (prepare_wait d)"
  by (simp add: prepare_wait_def Let_def loop_inv_fields)

lemma handle_events_ends:
  assumes "loop_inv d"
  shows "\<exists>d'. handle_events rset inp d = Some d' \<and> loop_inv d'"
proof -
  define d1 where "d1 = (if sig_pipe d \<in> set rset then cfg_changed (read_config (read_pipe (sig_pipe d) 4 d)) else d)"
  have "loop_inv d1"
    using assms by (simp add: d1_def loop_inv_cfg_changed loop_inv_read_config read_pipe_def loop_inv_fields)
  moreover obtain r d2 where u: "handle_uevents rset d1 = Some (r, d2)" "hears d1 d2"
    using handle_uevents_ends [OF loop_inv_start(3) [OF \<open>loop_inv d1\<close>]] by blast
  ultimately have d2: "loop_inv d2" by (blast intro: loop_inv_hears)
  define d3 where "d3 = snd (handle_xevents rset d2)"
  have d3: "loop_inv d3" using d2 by (simp add: d3_def loop_inv_x_ops)
  obtain d4 where r: "read_devices rset (map d_addr (dev_list d3)) inp d3 = Some d4" "reading d3 d4"
    using read_devices_ends [OF reading_refl [OF loop_inv_start(2) [OF d3]]] by blast
  then have d4: "loop_inv d4" using d3 by (blast intro: loop_inv_reading)
  have "handle_events rset inp d =
      Some (if get_hotplug_fd d4 \<noteq> - 1 \<and> get_hotplug_fd d4 \<in> set rset then snd (handle_hotplug d4) else d4)"
    unfolding handle_events_def d1_def [symmetric] Let_def u option.case prod.case d3_def [symmetric] r ..
  then show ?thesis using d4 loop_inv_hotplug [OF d4] by simp
qed

lemma after_select_ends:
  assumes "loop_inv d"
  shows "\<exists>d'. after_select ready inp d = Some d' \<and> loop_inv d'"
proof -
  obtain t b d1 where t: "main_timeout d = ((t, b), d1)" by (metis surj_pair)
  then have d1: "loop_inv d1" using loop_inv_timeout [OF assms] by simp
  have "\<exists>d2. (case ready of Some rset \<Rightarrow> handle_events rset inp d1 | None \<Rightarrow> Some (if b then repeat_events d1 else d1)) = Some d2 \<and>
      loop_inv d2"
    using d1 handle_events_ends [OF d1] by (cases ready) (simp_all add: loop_inv_repeat)
  then obtain d2 where d2: "(case ready of Some rset \<Rightarrow> handle_events rset inp d1 | None \<Rightarrow> Some (if b then repeat_events d1 else d1))
      = Some d2" "loop_inv d2" by blast
  have "after_select ready inp d = Some (emit_button_timeouts (dev_list d2) d2)"
    unfolding after_select_def t prod.case Let_def d2(1) by simp
  with loop_inv_expire [OF d2(2)] show ?thesis by blast
qed

section \<open>Before the loop\<close>

definition booted :: "daemon \<Rightarrow> bool" where
  \<comment> \<open>nothing is connected yet\<close>
  "booted d \<longleftrightarrow> dev_list d = [] \<and> client_list d = [] \<and> tables_wf d \<and> dpy d = None \<and> hotplug_fd d = - 1 \<and> poll_pipe d = - 1 \<and>
     \<not> delay_pending d \<and> delay_pipe d = (- 1, - 1) \<and> env_ok d \<and> pipes_ok (envt d)"

lemma machine_ok_init_devices: "machine_ok d \<Longrightarrow> machine_ok (init_devices d)"
proof -
  assume d: "machine_ok d"
  then have wf: "devices_wf d" "env_ok d" by (simp_all add: machine_ok_def requests_inv_def)
  have "env_ok (init_devices_serial d)" using wf(2) init_devices_serial_env [OF wf(1)] by (simp add: env_ok_def)
  with init_devices_usb_wf [OF init_devices_serial_wf [OF wf(1)]] have "devices_wf (init_devices d)"
    by (simp add: init_devices_def)
  with d grows_init_devices [OF grows_refl] show "machine_ok (init_devices d)" by (intro machine_ok_host [OF _ host_init_devices])
qed

lemma loop_inv_init_hotplug: "loop_inv d \<Longrightarrow> pipes_ok (envt d) \<Longrightarrow> loop_inv (snd (init_hotplug d))"
proof -
  have "machine_ok (snd (init_hotplug d)) = machine_ok d"
    by (rule machine_ok_cong) (simp_all add: init_hotplug_def con_hotplug_def Let_def emit_def split: option.split)
  then show "loop_inv d \<Longrightarrow> pipes_ok (envt d) \<Longrightarrow> loop_inv (snd (init_hotplug d))" using start_step [of d] by (simp add: loop_inv_def)
qed

lemma loop_inv_init_unix: "loop_inv d \<Longrightarrow> loop_inv (snd (init_unix d))"
  by (simp add: init_unix_def Let_def loop_inv_fields)

lemma loop_inv_kbemu: "loop_inv d \<Longrightarrow> loop_inv (kbemu_init d)"
  by (simp add: kbemu_init_def kbemu_x11_init_def kbemu_uinput_init_def split_beta Let_def loop_inv_fields)

lemma main_init_inv:
  assumes "booted d"
  shows "loop_inv (main_init d)"
proof -
  obtain r k f where e: "read_cfg (cff d) = (r, k, f)" by (metis prod_cases3)
  let ?d = "d\<lparr>cff := f, cfg := k, prev_cfg := k\<rparr>"
  have rd: "read_config d\<lparr>prev_cfg := cfg (read_config d)\<rparr> = ?d" by (simp add: read_config_def e)
  have "requests_inv ?d"
    using assms read_cfg_outcome [OF e] by (simp add: booted_def requests_inv_def clients_wf_def devices_wf_def)
  moreover have "x_inv ?d" using assms by (simp add: booted_def x_inv_def x_windows_def)
  moreover have "tables_wf ?d = tables_wf d" "env_ok ?d = env_ok d" by (simp_all add: tables_wf_def env_ok_def)
  ultimately have "machine_ok ?d" using assms by (simp add: booted_def machine_ok_def)
  moreover have "hotplug_ok ?d" using assms by (simp add: booted_def hotplug_ok_def mode_of_def)
  ultimately have "loop_inv (init_devices ?d)"
    using machine_ok_init_devices mode_host [OF host_init_devices [of ?d]] by (simp add: loop_inv_def)
  moreover have "pipes_ok (envt (init_devices ?d))"
    using assms host_sel(6) [OF host_init_devices [of ?d]] by (simp add: booted_def)
  ultimately have "loop_inv (snd (init_x11 (snd (init_unix (snd (init_hotplug (init_devices ?d)))))))"
    using loop_inv_init_hotplug loop_inv_init_unix loop_inv_x_ops(1) by blast
  then show ?thesis using loop_inv_kbemu unfolding main_init_def Let_def rd by blast
qed

lemma main_step_inv:
  assumes "main_step s t" "fst s \<noteq> Exited \<Longrightarrow> loop_inv (snd s)" "fst t \<noteq> Exited"
  shows "loop_inv (snd t)"
  using assms
proof (cases rule: main_step.cases)
  case (ready rset fds m inp d d')
  with assms(2) after_select_ends [of d "Some rset" inp] show ?thesis by auto
next
  case (nothing_ready inp d d' fds m)
  with assms(2) after_select_ends [of d None inp] show ?thesis by auto
qed (use assms in \<open>auto simp: loop_inv_prepare loop_inv_arrives loop_inv_signal loop_inv_timeout\<close>)

lemma reachable_inv: "main_step\<^sup>*\<^sup>* (Top, main_init d0) s \<Longrightarrow> booted d0 \<Longrightarrow> fst s \<noteq> Exited \<Longrightarrow> loop_inv (snd s)"
proof (induction rule: rtranclp_induct)
  case base
  then show ?case by (simp add: main_init_inv)
next
  case (step s t)
  then show ?case using main_step_inv [OF step(2)] by blast
qed

section \<open>What is watched\<close>

lemma fd_valid_bound: "\<forall>x \<in> set (fst s). x \<le> snd s \<Longrightarrow> \<forall>x \<in> set (fst (fd_valid fd s)). x \<le> snd (fd_valid fd s)"
  by (auto simp: fd_valid_def fd_add_def)

lemma fold_bound:
  assumes "\<And>x s. \<forall>y \<in> set (fst s). y \<le> snd s \<Longrightarrow> \<forall>y \<in> set (fst (f x s)). y \<le> snd (f x s)"
  shows "\<forall>y \<in> set (fst s). y \<le> snd s \<Longrightarrow> \<forall>y \<in> set (fst (fold f xs s)). y \<le> snd (fold f xs s)"
  by (induction xs arbitrary: s) (simp_all add: assms)

definition other_fds :: "daemon \<Rightarrow> int list \<times> int" where
  \<comment> \<open>all but the signal pipe\<close>
  "other_fds d =
     fd_valid (get_x11_socket d) (fold (\<lambda>c s. if c_type c = CLIENT_UNIX then fd_add (c_sock c) s else s) (client_list d)
       (fd_valid (lsock d) (fd_valid (get_hotplug_fd d)
         (fold (\<lambda>dev. fd_valid (get_device_fd (Some dev))) (dev_list d) ([], 0)))))"

lemma watch_fds_eq: "watch_fds d =
    (sig_pipe d # fst (other_fds d), if sig_pipe d > snd (other_fds d) then get_x11_socket d else snd (other_fds d))"
  by (simp add: watch_fds_def other_fds_def Let_def)

lemma other_fds_bound: "\<forall>x \<in> set (fst (other_fds d)). x \<le> snd (other_fds d)"
  unfolding other_fds_def
  by (intro fd_valid_bound fold_bound) (auto simp: fd_add_def fd_valid_def)

lemma fd_valid_max: "snd s = 0 \<or> snd s \<in> set (fst s) \<Longrightarrow> snd (fd_valid fd s) = 0 \<or> snd (fd_valid fd s) \<in> set (fst (fd_valid fd s))"
  by (auto simp: fd_valid_def fd_add_def)

lemma fold_max:
  assumes "\<And>x s. snd s = 0 \<or> snd s \<in> set (fst s) \<Longrightarrow> snd (f x s) = 0 \<or> snd (f x s) \<in> set (fst (f x s))"
  shows "snd s = 0 \<or> snd s \<in> set (fst s) \<Longrightarrow> snd (fold f xs s) = 0 \<or> snd (fold f xs s) \<in> set (fst (fold f xs s))"
  by (induction xs arbitrary: s) (simp_all add: assms)

lemma other_fds_max: "snd (other_fds d) = 0 \<or> snd (other_fds d) \<in> set (fst (other_fds d))"
  unfolding other_fds_def by (intro fd_valid_max fold_max) (auto simp: fd_add_def fd_valid_def)

lemma x_socket_watched: "get_x11_socket d = - 1 \<or> get_x11_socket d \<in> set (fst (other_fds d))"
  by (simp add: other_fds_def fd_valid_def fd_add_def)

section \<open>What the end leaves\<close>

lemma remove_device_closes:
  assumes "devices_wf d" "dev \<in> set (dev_list d)"
  shows "\<exists>es. out (remove_device (d_addr dev) d) = out d @ es \<and> Close (d_fd dev) \<in> set es"
proof -
  have ready: "dev_ready dev" and get: "get_device (d_addr dev) d = Some dev"
    using assms get_device_in by (auto simp: devices_wf_def list_all_iff)
  show ?thesis
  proof (cases "d_read dev = Some Serial_driver")
    case True
    then have "d_close dev = Some Serial_driver" "d_data dev \<noteq> None" "\<not> d_dangling dev"
      using ready by (simp_all add: dev_ready_def)
    with True get show ?thesis
      by (auto simp: remove_device_def remove_dev_event_def call_close_def close_dev_serial_def stty_restore_def
          broadcast_event_eq emit_def Let_def)
  next
    case False
    then have "d_close dev = Some Evdev_driver" "0 \<le> d_fd dev" "d_set_led dev = Some Evdev_driver"
      using ready by (simp_all add: dev_ready_def evdev_ready_def)
    with False get show ?thesis
      by (auto simp: remove_device_def remove_dev_event_def call_close_def close_evdev_def set_device_led_def
          set_led_evdev_def broadcast_event_eq emit_def Let_def)
  qed
qed

lemma remove_devices:
  assumes "devices_wf d" "distinct (map d_addr devs)" "set devs \<subseteq> set (dev_list d)"
  defines "d' \<equiv> fold (\<lambda>dev. remove_device (d_addr dev)) devs d"
  shows "dev_list d' = filter (\<lambda>x. d_addr x \<notin> d_addr ` set devs) (dev_list d) \<and> host d' = host d \<and>
    (\<exists>es. out d' = out d @ es \<and> (\<forall>dev \<in> set devs. Close (d_fd dev) \<in> set es))"
  using assms(1-3) unfolding d'_def
proof (induction devs arbitrary: d)
  case (Cons dev devs)
  let ?d = "remove_device (d_addr dev) d"
  obtain es where es: "out ?d = out d @ es" "Close (d_fd dev) \<in> set es"
    using remove_device_closes [of d dev] Cons.prems by auto
  have "\<forall>x \<in> set devs. d_addr x \<noteq> d_addr dev" using Cons.prems(2) by (simp add: image_iff) metis
  then have "set devs \<subseteq> set (dev_list ?d)" using Cons.prems(3) by (auto simp: remove_device_list(1))
  with Cons.IH [of ?d] Cons.prems obtain fs where
    "dev_list (fold (\<lambda>dev. remove_device (d_addr dev)) devs ?d) = filter (\<lambda>x. d_addr x \<notin> d_addr ` set devs) (dev_list ?d)"
    "host (fold (\<lambda>dev. remove_device (d_addr dev)) devs ?d) = host ?d"
    "out (fold (\<lambda>dev. remove_device (d_addr dev)) devs ?d) = out ?d @ fs" "\<forall>dev \<in> set devs. Close (d_fd dev) \<in> set fs"
    using remove_device_wf [of d] by auto
  with es show ?case by (auto simp: remove_device_list(1) host_remove_device conj_commute)
qed simp

lemma shutdown_closes:
  "\<exists>es. out (shutdown_hotplug d) = out d @ es" "lsock (shutdown_hotplug d) = lsock d" "dev_list (shutdown_hotplug d) = dev_list d"
  "pidfile (shutdown_hotplug d) = pidfile d" "uinput_fd (shutdown_hotplug d) = uinput_fd d" "dpy (shutdown_hotplug d) = dpy d"
  "client_list (shutdown_hotplug d) = client_list d" "fresh (shutdown_hotplug d) = fresh d" "hotplug_fd (shutdown_hotplug d) = - 1"
  "poll_pipe (shutdown_hotplug d) = - 1" "fst (delay_pipe (shutdown_hotplug d)) = - 1"
  by (cases "hotplug_fd d = - 1"; cases "poll_pipe d = - 1"; cases "fst (delay_pipe d) = - 1";
      simp add: shutdown_hotplug_def emit_def Let_def)+

section \<open>Properties\<close>

text \<open>
  The invariant of the whole daemon. Whatever happens (devices that come and go, input, messages of clients and of
  the X server, signals while it waits, reloading the configuration) and in whatever order, in every state that the main
  loop reaches the lists of clients and devices, the tables of events, the configuration and the clients' own data are
  well formed, windows are listed once and only with a connection to the X server, and hotplug detection holds exactly the
  descriptors of its mode.
\<close>

theorem main_loop_invariant:
  assumes "booted d0" "main_step\<^sup>*\<^sup>* (Top, main_init d0) (p, d)" "p \<noteq> Exited"
  shows "clients_wf d \<and> devices_wf d \<and> cfg_wf (cfg d) \<and> list_all client_ok (client_list d) \<and> tables_wf d \<and>
    distinct (x_windows d) \<and> (dpy d = None \<longrightarrow> x_windows d = []) \<and> hotplug_ok d"
  using reachable_inv [OF assms(2,1)] assms(3)
  by (simp add: loop_inv_def machine_ok_def requests_inv_def x_inv_def)

definition boot_state :: daemon where
  \<comment> \<open>with an X server, and a device that answers on a serial line\<close>
  "boot_state = start_state\<lparr>lsock := - 1, x_open := [Some (40, 9)],
     envt := bare_environment\<lparr>e_tty := \<lambda>_. tty_sample, e_socket := 6, e_bind := True, e_listen := True\<rparr>\<rparr>"

lemma booted_boot_state: "booted boot_state"
  by (simp add: booted_def boot_state_def tables_wf_def env_ok_def pipes_ok_def start_state_def)
    (simp add: bare_environment_def no_node_def tty_sample_def)

theorem main_loop_invariant_witness:
  "let d = sig_handler SIGUSR2 (snd (main_timeout (prepare_wait (main_init boot_state)))) in
     clients_wf d \<and> devices_wf d \<and> x_windows d = []"
proof -
  let ?d = "sig_handler SIGUSR2 (snd (main_timeout (prepare_wait (main_init boot_state))))"
  obtain fds m where w: "main_step (Top, main_init boot_state) (Waiting fds m, prepare_wait (main_init boot_state))"
    using main_step.prepare by blast
  have "main_step (Waiting fds m, prepare_wait (main_init boot_state)) (Waiting fds m, ?d)"
    by (rule main_step.interrupted) (simp add: exits_def)
  with w have "main_step\<^sup>*\<^sup>* (Top, main_init boot_state) (Waiting fds m, ?d)" by simp
  from main_loop_invariant [OF booted_boot_state this] have "clients_wf ?d \<and> devices_wf ?d \<and> (dpy ?d = None \<longrightarrow> x_windows ?d = [])"
    by simp
  moreover have "clients_wf (snd (main_timeout (prepare_wait (main_init boot_state))))"
    using loop_inv_timeout [OF loop_inv_prepare [OF main_init_inv [OF booted_boot_state]]]
    by (simp add: loop_inv_def machine_ok_def requests_inv_def)
  then have "dpy ?d = None" by (simp add: sig_handler_def close_x11_result)
  ultimately show ?thesis by (simp add: Let_def)
qed



text \<open>
  The set that is waited for and its bound. Every descriptor is at most the bound that \<open>select\<close> is given, unless
  the signal pipe has the largest one: then \<open>max_fd = fd\<close> takes the descriptor of the X server (or -1) instead of the
  pipe's, and SIGHUP is not noticed, nor anything that comes from a descriptor above that.
\<close>

theorem signal_pipe_unwatched:
  assumes "0 < sig_pipe d"
  shows "sig_pipe d \<in> set (fst (watch_fds d)) \<and>
    (if \<forall>fd \<in> set (fst (other_fds d)). fd < sig_pipe d
     then snd (watch_fds d) = get_x11_socket d \<and> snd (watch_fds d) < sig_pipe d
     else \<forall>fd \<in> set (fst (watch_fds d)). fd \<le> snd (watch_fds d))"
proof (cases "\<forall>fd \<in> set (fst (other_fds d)). fd < sig_pipe d")
  case True
  then show ?thesis using other_fds_max [of d] x_socket_watched [of d] assms by (auto simp: watch_fds_eq)
next
  case False
  then show ?thesis using other_fds_bound [of d] by (fastforce simp: watch_fds_eq)
qed

theorem signal_pipe_unwatched_witness: "watch_fds (start_state\<lparr>lsock := - 1\<rparr>) = ([4], - 1)"
proof -
  let ?d = "start_state\<lparr>lsock := - 1\<rparr>"
  have "other_fds ?d = ([], 0)" by code_simp
  with signal_pipe_unwatched [of ?d] have "snd (watch_fds ?d) = get_x11_socket ?d" by simp
  then show ?thesis by (simp add: watch_fds_eq \<open>other_fds ?d = ([], 0)\<close> get_x11_socket_def)
qed



end
