(* ===== verification/Startup.thy ===== *)
theory Startup
  imports MainLoop
begin

text \<open>
  The start of the daemon (\<open>main\<close> of src/spnavd.c before its loop): the arguments, whether a daemon is already running,
  going into the background and the file with the process id. What is written to the terminal and the log, and where
  the standard descriptors go, is left out.
\<close>

section \<open>The machine\<close>

text \<open>
  \<open>m_getcwd\<close> tells whether \<open>getcwd\<close> succeeds in a buffer that is large enough, \<open>m_alloc\<close> which sizes can be
  allocated; \<open>m_stat\<close>, \<open>m_text\<close> and \<open>m_write\<close> are the mode of a file, its text if it can be read, and whether it can be
  written; \<open>m_listening\<close> are the sockets that can be connected to; \<open>m_cfgfile\<close> are the configuration files.
\<close>

record machine =
  m_cwd :: string
  m_getcwd :: bool
  m_alloc :: "nat \<Rightarrow> bool"
  m_stat :: "string \<Rightarrow> u32 option"
  m_text :: "string \<Rightarrow> string option"
  m_write :: "string \<Rightarrow> bool"
  m_socket :: bool
  m_listening :: "string \<Rightarrow> bool"
  m_fork :: int
  m_pid :: int
  m_cfgfile :: "string \<Rightarrow> cfgfile"

definition absolute :: "string \<Rightarrow> bool" where
  "absolute path \<longleftrightarrow> take 1 path = ''/''"

definition full_path :: "machine \<Rightarrow> string \<Rightarrow> string" where
  \<comment> \<open>the file that a path names\<close>
  "full_path m path =
     (if absolute path then path else if m_cwd m = ''/'' then CHR ''/'' # path else m_cwd m @ CHR ''/'' # path)"

section \<open>Paths\<close>

abbreviation (input) PATH_MAX :: nat where "PATH_MAX \<equiv> 4096"

function getcwd_loop :: "(nat \<Rightarrow> bool) \<Rightarrow> nat \<Rightarrow> nat \<Rightarrow> nat \<Rightarrow> nat option" where
  \<comment> \<open>the size of the buffer in the end, or no memory; the size \<open>sz\<close> has been doubled \<open>k\<close> times\<close>
  "getcwd_loop alloc n len k =
     (let sz = PATH_MAX * 2 ^ k in
      if n < sz then Some (sz + len)
      else if alloc (sz * 2 + len) then getcwd_loop alloc n len (k + 1)
      else None)"
  by pat_completeness auto
termination
proof (relation "measure (\<lambda>(alloc, n, len, k). n + 1 - PATH_MAX * 2 ^ k)", goal_cases)
  case (2 alloc n len k sz)
  moreover have "PATH_MAX * 2 ^ k < PATH_MAX * 2 ^ (k + 1)" by simp
  ultimately show ?case using diff_less_mono2 [of "PATH_MAX * 2 ^ k" "PATH_MAX * 2 ^ (k + 1)" "n + 1"] by simp
qed simp

declare getcwd_loop.simps [simp del]

definition fix_buffer :: "machine \<Rightarrow> string \<Rightarrow> nat option" where
  "fix_buffer m str =
     (let len = length str + 1 in
      if \<not> m_alloc m (PATH_MAX + len) then None
      else if \<not> m_getcwd m then None
      else getcwd_loop (m_alloc m) (length (m_cwd m)) len 0)"

definition fix_path :: "machine \<Rightarrow> string \<Rightarrow> string option" where
  "fix_path m str =
     (if absolute str then Some str
      else map_option (\<lambda>_. m_cwd m @ CHR ''/'' # str) (fix_buffer m str))"

section \<open>The arguments\<close>

text \<open>\<open>o_cfgfile\<close> can be a null pointer, \<open>o_logfile\<close> is one for the system log.\<close>

record options =
  o_verbose :: int
  o_daemon :: bool
  o_cfgfile :: "string option"
  o_logfile :: "string option"
  o_force :: bool
  o_pidfile :: string

definition default_options :: "string \<Rightarrow> options" where
  "default_options cfgdir = \<lparr>o_verbose = 0, o_daemon = True, o_cfgfile = Some (cfgdir @ ''/spnavrc''),
     o_logfile = Some ''/var/log/spnavd.log'', o_force = False, o_pidfile = ''/var/run/spnavd.pid''\<rparr>"

text \<open>\<open>Undefined\<close>: a string is read beyond its end, or through a null pointer.\<close>

datatype parsed = Go options | Stop int | Undefined

fun parse_args :: "machine \<Rightarrow> string list \<Rightarrow> options \<Rightarrow> parsed" where
  \<comment> \<open>the arguments after the name of the program\<close>
  "parse_args m [] opts = Go opts"
| "parse_args m (a # as) opts =
     (if take 1 a = ''-'' then
        (let r = tl a in
         if take 1 r = ''v'' then parse_args m as (opts\<lparr>o_verbose := o_verbose opts + int (length r)\<rparr>)
         else if r = [] then Undefined
         else if length r = 1 then
           (if r = ''d'' then parse_args m as (opts\<lparr>o_daemon := \<not> o_daemon opts\<rparr>)
            else if r = ''c'' then
              (case as of [] \<Rightarrow> Stop 1 | f # as' \<Rightarrow> parse_args m as' (opts\<lparr>o_cfgfile := fix_path m f\<rparr>))
            else if r = ''l'' then
              (case as of [] \<Rightarrow> Stop 1
               | f # as' \<Rightarrow>
                   if f = ''syslog'' then parse_args m as' (opts\<lparr>o_logfile := None\<rparr>)
                   else if fix_path m f = None then Undefined
                   else parse_args m as' (opts\<lparr>o_logfile := fix_path m f, o_force := True\<rparr>))
            else if r = ''p'' then
              (case as of [] \<Rightarrow> Stop 1 | f # as' \<Rightarrow> parse_args m as' (opts\<lparr>o_pidfile := f\<rparr>))
            else if r = ''V'' \<or> r = ''h'' then Stop 0
            else Stop 1)
         else if a = ''-version'' then Stop 0
         else if a = ''-pidfile'' then
           (case as of [] \<Rightarrow> Stop 1 | f # as' \<Rightarrow> parse_args m as' (opts\<lparr>o_pidfile := f\<rparr>))
         else if a = ''-help'' \<or> a = ''--help'' then Stop 0
         else Stop 1)
      else Stop 1)"

section \<open>The process\<close>

definition find_running_daemon :: "string \<Rightarrow> machine \<Rightarrow> int" where
  "find_running_daemon path m =
     (case m_text m (full_path m path) of
        None \<Rightarrow> - 1
      | Some text \<Rightarrow>
          (case scan_d text of
             None \<Rightarrow> - 1
           | Some pid \<Rightarrow> if m_socket m \<and> m_listening m SOCK_NAME then pid else - 1))"

abbreviation (input) S_IFREG :: u32 where "S_IFREG \<equiv> 0x8000"

definition write_pid_file :: "string \<Rightarrow> machine \<Rightarrow> (int \<times> string option) \<times> machine" where
  \<comment> \<open>with the variable \<open>pidfile\<close> afterwards\<close>
  "write_pid_file path m =
     (let f = full_path m path in
      if (case m_stat m f of None \<Rightarrow> False | Some mode \<Rightarrow> mode AND S_IFREG = 0) then ((- 1, None), m)
      else if \<not> m_write m f then ((- 1, Some path), m)
      else ((0, Some path), m\<lparr>m_text := (m_text m)(f \<mapsto> print_d (m_pid m) @ [CHR 0x0a])\<rparr>))"

definition daemonize :: "machine \<Rightarrow> int option \<times> machine" where
  \<comment> \<open>the status with which the process exits, if it does\<close>
  "daemonize m =
     (let m = m\<lparr>m_cwd := ''/''\<rparr> in
      if m_fork m = - 1 then (Some 1, m) else if m_fork m \<noteq> 0 then (Some 0, m) else (None, m))"

datatype start = Ends int | Faults | Runs daemon machine

definition main :: "string \<Rightarrow> string list \<Rightarrow> machine \<Rightarrow> daemon \<Rightarrow> start" where
  "main cfgdir args m d =
     (case parse_args m args (default_options cfgdir) of
        Stop n \<Rightarrow> Ends n
      | Undefined \<Rightarrow> Faults
      | Go opts \<Rightarrow>
          if find_running_daemon (o_pidfile opts) m \<noteq> - 1 then Ends 1
          else
            let (ex, m) = (if o_daemon opts then daemonize m else (None, m)) in
            case ex of
              Some n \<Rightarrow> Ends n
            | None \<Rightarrow>
                let ((_, pidfile'), m) = write_pid_file (o_pidfile opts) m in
                case o_cfgfile opts of
                  None \<Rightarrow> Faults
                | Some f \<Rightarrow> Runs (main_init (d\<lparr>pidfile := pidfile', cff := m_cfgfile m f\<rparr>)) m)"

section \<open>Lemmas\<close>

lemma getcwd_loop_room: "getcwd_loop alloc n len k = Some sz \<Longrightarrow> n + len < sz"
proof (induction alloc n len k rule: getcwd_loop.induct)
  case (1 alloc n len k)
  then show ?case by (subst (asm) (2) getcwd_loop.simps) (auto simp: Let_def split: if_splits)
qed

lemma getcwd_loop_memory: "alloc = (\<lambda>_. True) \<Longrightarrow> getcwd_loop alloc n len k \<noteq> None"
proof (induction alloc n len k rule: getcwd_loop.induct)
  case (1 alloc n len k)
  then show ?case by (subst getcwd_loop.simps) (simp add: Let_def)
qed

lemma getcwd_loop_doubles: "getcwd_loop alloc n len k = Some sz \<Longrightarrow> sz \<le> max (PATH_MAX * 2 ^ k) (2 * n) + len"
proof (induction alloc n len k rule: getcwd_loop.induct)
  case (1 alloc n len k)
  then show ?case by (subst (asm) (2) getcwd_loop.simps) (fastforce simp: Let_def split: if_splits)
qed

section \<open>Properties\<close>



definition command_line :: "options \<Rightarrow> string list" where
  \<comment> \<open>arguments that set options\<close>
  "command_line opts =
     (if o_verbose opts = 0 then [] else [CHR ''-'' # replicate (nat (o_verbose opts)) (CHR ''v'')]) @
     (if o_daemon opts then [] else [''-d'']) @
     [''-c'', the (o_cfgfile opts), ''-pidfile'', o_pidfile opts] @
     (case o_logfile opts of None \<Rightarrow> [''-l'', ''syslog''] | Some f \<Rightarrow> if o_force opts then [''-l'', f] else [])"

text \<open>
  C37: every choice of options can be given on the command line: the arguments for it (the level as a group of letters, the
  options with and without a value, names that are absolute paths) are read back as that choice.
\<close>

theorem command_line_roundtrip:
  assumes "0 \<le> o_verbose opts" "o_cfgfile opts = Some f" "absolute f"
    "case o_logfile opts of None \<Rightarrow> \<not> o_force opts | Some l \<Rightarrow> if o_force opts then absolute l else l = ''/var/log/spnavd.log''"
  shows "parse_args m (command_line opts) (default_options cfgdir) = Go opts"
proof -
  have nolog: "absolute l \<Longrightarrow> l \<noteq> ''syslog''" for l by (auto simp: absolute_def)
  have opts: "opts = \<lparr>o_verbose = o_verbose opts, o_daemon = o_daemon opts, o_cfgfile = Some f, o_logfile = o_logfile opts,
      o_force = o_force opts, o_pidfile = o_pidfile opts\<rparr>" using assms(2) by simp
  let ?rest = "[''-c'', f, ''-pidfile'', o_pidfile opts] @
     (case o_logfile opts of None \<Rightarrow> [''-l'', ''syslog''] | Some f \<Rightarrow> if o_force opts then [''-l'', f] else [])"
  have rest: "parse_args m ?rest (default_options cfgdir\<lparr>o_verbose := v, o_daemon := b\<rparr>) =
      Go \<lparr>o_verbose = v, o_daemon = b, o_cfgfile = Some f, o_logfile = o_logfile opts, o_force = o_force opts, o_pidfile = o_pidfile opts\<rparr>" for v b
    using assms(3,4) nolog by (cases "o_logfile opts") (auto simp: default_options_def fix_path_def Let_def)
  have d: "parse_args m ((if o_daemon opts then [] else [''-d'']) @ ?rest) (default_options cfgdir\<lparr>o_verbose := v\<rparr>) =
      Go \<lparr>o_verbose = v, o_daemon = o_daemon opts, o_cfgfile = Some f, o_logfile = o_logfile opts, o_force = o_force opts,
        o_pidfile = o_pidfile opts\<rparr>" for v
    using rest [of True v] rest [of False v] by (simp add: default_options_def)
  show ?thesis
  proof (cases "o_verbose opts = 0")
    case True
    with d [of 0] opts show ?thesis by (simp add: command_line_def assms(2) default_options_def)
  next
    case False
    with assms(1) obtain k where k: "nat (o_verbose opts) = Suc k" "o_verbose opts = 1 + int k"
      by (metis gr0_implies_Suc int_nat_eq nat_0_less_mult_iff of_nat_Suc zero_less_nat_eq linorder_neqE_linordered_idom not_less)
    with d [of "1 + int k"] opts show ?thesis by (simp add: command_line_def assms(2) default_options_def)
  qed
qed

definition plain_options :: "string \<Rightarrow> options" where
  "plain_options pid = \<lparr>o_verbose = 2, o_daemon = False, o_cfgfile = Some ''/etc/spnavrc'', o_logfile = None, o_force = False,
     o_pidfile = pid\<rparr>"

definition desk :: machine where
  "desk = \<lparr>m_cwd = ''/home'', m_getcwd = True, m_alloc = (\<lambda>_. True), m_stat = Map.empty, m_text = Map.empty, m_write = (\<lambda>_. True),
     m_socket = True, m_listening = (\<lambda>s. s = SOCK_NAME), m_fork = 0, m_pid = 7, m_cfgfile = (\<lambda>_. sample_file [])\<rparr>"

theorem command_line_roundtrip_witness:
  "parse_args desk [''-vv'', ''-d'', ''-c'', ''/etc/spnavrc'', ''-pidfile'', ''run'', ''-l'', ''syslog''] (default_options ''/etc'') =
     Go (plain_options ''run'')"
  using command_line_roundtrip [of "plain_options ''run''" "''/etc/spnavrc''" desk "''/etc''"]
  by (simp add: plain_options_def command_line_def absolute_def numeral_2_eq_2)

lemma parse_args_version: "parse_args m (''-version'' # as) opts = parse_args m as (opts\<lparr>o_verbose := o_verbose opts + 7\<rparr>)"
  by simp

lemma scan_pid: "cint i \<Longrightarrow> scan_d (print_d i @ [CHR 0x0a]) = Some i"
  using strtol_print [of i "[CHR 0x0a]"] by (simp add: scan_d_def is_digit_def digit_val_def byte_def cint_def)

lemma fix_path_cong: "m_cwd a = m_cwd b \<Longrightarrow> m_getcwd a = m_getcwd b \<Longrightarrow> m_alloc a = m_alloc b \<Longrightarrow> fix_path a = fix_path b"
  by (rule ext) (simp add: fix_path_def fix_buffer_def)

lemma parse_args_cong: "fix_path m = fix_path m' \<Longrightarrow> parse_args m args opts = parse_args m' args opts"
proof (induction m args opts rule: parse_args.induct)
  case (2 m a as opts)
  show ?case using "2.IH" [OF _ refl] "2.prems" by (simp add: Let_def split: list.split) auto
qed simp

lemma full_path_write: "full_path (snd (write_pid_file path m)) = full_path m"
  by (simp add: fun_eq_iff full_path_def write_pid_file_def Let_def)

lemma main_runs:
  assumes "main cfgdir args m d = Runs d' m'" "parse_args m args (default_options cfgdir) = Go opts"
  shows "m' = snd (write_pid_file (o_pidfile opts) (if o_daemon opts then m\<lparr>m_cwd := ''/''\<rparr> else m))"
  using assms by (auto simp: main_def daemonize_def split_beta Let_def split: if_splits option.splits)

text \<open>
  C36: a second daemon finds the first, if both look at the same file. The first has written its process id; when
  another is started in the same place, the first one's id is found and the second ends, unless the name of the file is
  relative and the first went into the background: that changed to the root directory before it wrote the file, and
  the second daemon, which looks in the directory it was started in, does not find it.
\<close>

theorem second_daemon_refused:
  assumes "parse_args m args (default_options cfgdir) = Go opts" "main cfgdir args m d = Runs d' m'"
    "cint (m_pid m)" "m_pid m \<noteq> - 1" "m_socket m" "m_listening m SOCK_NAME"
    "fst (fst (write_pid_file (o_pidfile opts) (if o_daemon opts then m\<lparr>m_cwd := ''/''\<rparr> else m))) = 0"
    "m_text m (full_path m (o_pidfile opts)) = None" "m_cwd m \<noteq> []"
  shows "let again = m'\<lparr>m_cwd := m_cwd m\<rparr>; same = (\<not> o_daemon opts \<or> absolute (o_pidfile opts) \<or> m_cwd m = ''/'') in
    find_running_daemon (o_pidfile opts) again = (if same then m_pid m else - 1) \<and>
    (same \<longrightarrow> main cfgdir args again x = Ends 1)"
proof -
  define m1 where "m1 = (if o_daemon opts then m\<lparr>m_cwd := ''/''\<rparr> else m)"
  define again where "again = m'\<lparr>m_cwd := m_cwd m\<rparr>"
  let ?p = "o_pidfile opts"
  let ?same = "\<not> o_daemon opts \<or> absolute ?p \<or> m_cwd m = ''/''"
  have m': "m' = m1\<lparr>m_text := (m_text m)(full_path m1 ?p \<mapsto> print_d (m_pid m) @ [CHR 0x0a])\<rparr>"
    using main_runs [OF assms(2,1)] assms(7) unfolding m1_def [symmetric]
    by (auto simp: write_pid_file_def Let_def m1_def split: if_splits)
  have path: "full_path again ?p = full_path m ?p" by (simp add: again_def full_path_def)
  have "(full_path m1 ?p = full_path m ?p) = ?same" using assms(9) by (auto simp: m1_def full_path_def)
  then have "m_text again (full_path again ?p) = (if ?same then Some (print_d (m_pid m) @ [CHR 0x0a]) else None)"
    using assms(8) by (auto simp: path) (auto simp: again_def m')
  moreover have "m_socket again" "m_listening again SOCK_NAME" using assms(5,6) by (simp_all add: again_def m' m1_def)
  ultimately have found: "find_running_daemon ?p again = (if ?same then m_pid m else - 1)"
    using scan_pid [OF assms(3)] by (simp add: find_running_daemon_def)
  have "parse_args again args (default_options cfgdir) = Go opts"
    using assms(1) parse_args_cong [OF fix_path_cong, of again m] by (simp add: again_def m' m1_def)
  with found assms(4) have "?same \<longrightarrow> main cfgdir args again x = Ends 1" by (auto simp: main_def)
  with found show ?thesis by (simp add: again_def)
qed

theorem second_daemon_refused_witness:
  "\<exists>d m. main ''/etc'' [''-p'', ''run''] desk boot_state = Runs d m \<and>
     find_running_daemon ''run'' (m\<lparr>m_cwd := ''/home''\<rparr>) = - 1 \<and>
     m_text m ''/run'' = Some (print_d 7 @ [CHR 0x0a])"
proof -
  let ?m = "desk\<lparr>m_cwd := ''/''\<rparr>"
  have p: "parse_args desk [''-p'', ''run''] (default_options ''/etc'') = Go ((default_options ''/etc'')\<lparr>o_pidfile := ''run''\<rparr>)"
    by simp
  have w: "write_pid_file ''run'' ?m = ((0, Some ''run''), ?m\<lparr>m_text := [''/run'' \<mapsto> print_d 7 @ [CHR 0x0a]]\<rparr>)"
    by (simp add: write_pid_file_def desk_def full_path_def absolute_def Let_def)
  have f: "find_running_daemon ''run'' desk = - 1" by (simp add: find_running_daemon_def desk_def)
  have "daemonize desk = (None, ?m)" by (simp add: daemonize_def desk_def)
  then obtain d m where r: "main ''/etc'' [''-p'', ''run''] desk boot_state = Runs d m"
    unfolding main_def p by (simp add: f w default_options_def)
  have m: "m_text m = [''/run'' \<mapsto> print_d 7 @ [CHR 0x0a]]"
    using main_runs [OF r p] w by (simp add: default_options_def)
  have "find_running_daemon ''run'' (m\<lparr>m_cwd := ''/home''\<rparr>) = - 1"
    using second_daemon_refused [OF p r] w
    by (simp add: default_options_def Let_def absolute_def) (simp add: desk_def cint_def full_path_def absolute_def)
  with r m show ?thesis by auto
qed

end
