(* ===== verification/Reports.thy ===== *)
theory Reports
  imports InputLoop
begin

text \<open>
  From the device to the clients: what a complete report of a USB device becomes, through the driver
  (src/dev_usb_linux.c), the normalisation of the axes (src/dev.c), the loop that reads the device (src/spnavd.c), the
  processing of its events (src/event.c) and the packets of the clients (src/proto_unix.c, src/proto_x11.c).
\<close>

definition axis_of :: "device \<Rightarrow> nat \<Rightarrow> nat" where
  \<comment> \<open>the axis that the code of an event stands for, and back\<close>
  "axis_of dev k = (if d_flags dev AND DF_SWAPYZ \<noteq> 0 then [0, 2, 1, 3, 5, 4] ! k else k)"

definition turned :: "device \<Rightarrow> nat \<Rightarrow> int \<Rightarrow> int" where
  "turned dev k v = (if d_flags dev AND DF_INVYZ \<noteq> 0 \<and> axis_of dev k \<noteq> 0 \<and> axis_of dev k \<noteq> 3 then - v else v)"

definition full_report :: "(nat \<Rightarrow> int) \<Rightarrow> evdev_read list" where
  "full_report v = map (\<lambda>k. Iev EV_REL (int k) (v k)) [0..<6] @ [Iev EV_SYN 0 0]"

lemma less_six: "k < 6 \<Longrightarrow> k = 0 \<or> k = 1 \<or> k = 2 \<or> k = 3 \<or> k = 4 \<or> k = (5 :: nat)"
  by arith

lemma axis_of_lemmas: "k < 6 \<Longrightarrow> axis_of dev k < 6" "k < 6 \<Longrightarrow> axis_of dev (axis_of dev k) = k"
  using less_six [of k] by (auto simp: axis_of_def)

lemma normalise_report:
  assumes "k < 6" "\<bar>v\<bar> < 2 ^ 24"
  shows "normalise_axis (d_flags dev) (motion_input k v) = (motion_input (axis_of dev k) (turned dev k v), False)"
proof -
  have "int32 (- v) = - v" using assms(2) by (intro int32_id) (simp add: cint_def abs_less_iff)
  then show ?thesis using less_six [OF assms(1)] by (auto simp: normalise_axis_def axis_of_def turned_def yz_swap_def)
qed

section \<open>Reading the events of a report\<close>

lemma read_motion:
  assumes "get_device a x = Some dev" "d_read dev = Some Evdev_driver" "0 \<le> d_fd dev"
    "evdev_in x (d_fd dev) = Iev EV_REL (int k) v # evs" "k < 6" "\<bar>v\<bar> < 2 ^ 24"
  shows "read_device a inp x =
    (0, motion_input (axis_of dev k) (turned dev k v), x\<lparr>evdev_in := (evdev_in x)(d_fd dev := evs)\<rparr>)"
proof -
  have "evdev_event dev EV_REL (int k) v inp = (0, motion_input k v, False)" by (simp add: evdev_event_def)
  with assms normalise_report [OF assms(5,6), of dev] show ?thesis
    by (simp add: read_device_def read_evdev_def)
qed

lemma read_syn:
  assumes "get_device a x = Some dev" "d_read dev = Some Evdev_driver" "0 \<le> d_fd dev"
    "evdev_in x (d_fd dev) = Iev EV_SYN 0 0 # evs"
  shows "read_device a inp x = (0, inp\<lparr>inp_type := INP_FLUSH\<rparr>, x\<lparr>evdev_in := (evdev_in x)(d_fd dev := evs)\<rparr>)"
  using assms by (simp add: read_device_def read_evdev_def evdev_event_def)

lemma read_none:
  assumes "get_device a x = Some dev" "d_read dev = Some Evdev_driver" "evdev_in x (d_fd dev) = []"
  shows "read_device a inp x = (- 1, inp, x)"
  using assms by (simp add: read_device_def read_evdev_def)

lemma process_keeps_inputs:
  assumes "events_wf x" "inp_ok inp"
  shows "events_wf (process_input a inp x)" "evdev_in (process_input a inp x) = evdev_in x"
    "dev_list (process_input a inp x) = dev_list x" "client_list (process_input a inp x) = client_list x"
    "lsock (process_input a inp x) = lsock x" "dpy (process_input a inp x) = dpy x" "x11_sens (process_input a inp x) = x11_sens x"
    "clock (process_input a inp x) = clock x"
proof -
  show "events_wf (process_input a inp x)" by (rule process_input_wf [OF assms])
  have "events_inv True x (process_input a inp x)"
    using process_input_inv [of True x x inp a] assms by (simp add: events_wf_inv)
  then have s: "steady (process_input a inp x) = steady x" by (simp add: events_inv_def)
  show "evdev_in (process_input a inp x) = evdev_in x"
    "dev_list (process_input a inp x) = dev_list x" "client_list (process_input a inp x) = client_list x"
    "lsock (process_input a inp x) = lsock x" "dpy (process_input a inp x) = dpy x" "x11_sens (process_input a inp x) = x11_sens x"
    "clock (process_input a inp x) = clock x"
    using arg_cong [OF s, of evdev_in] arg_cong [OF s, of dev_list] arg_cong [OF s, of client_list] arg_cong [OF s, of lsock]
      arg_cong [OF s, of dpy] arg_cong [OF s, of x11_sens] arg_cong [OF s, of clock] by (simp_all add: steady_def)
qed

lemma with_input:
  "events_wf (x\<lparr>evdev_in := f\<rparr>) = events_wf x" "plain_axes (x\<lparr>evdev_in := f\<rparr>) = plain_axes x"
  "get_dev_event a (x\<lparr>evdev_in := f\<rparr>) = get_dev_event a x" "get_device a (x\<lparr>evdev_in := f\<rparr>) = get_device a x"
  by (simp_all add: events_wf_def clients_wf_def tables_wf_def kb_ok_def plain_axes_def get_dev_event_def get_device_def)

text \<open>The state between the events of a report, as far as it matters: \<open>ps\<close> are the axes that have been reported.\<close>

definition underway :: "nat \<Rightarrow> dev_event \<Rightarrow> daemon \<Rightarrow> (nat \<times> int) list \<Rightarrow> daemon \<Rightarrow> bool" where
  "underway a e d ps x \<longleftrightarrow> events_wf x \<and> plain_axes x \<and> cfg x = cfg d \<and> client_list x = client_list d \<and> dev_list x = dev_list d \<and>
     clock x = clock d \<and> ticks x = ticks d \<and> lsock x = lsock d \<and> dpy x = dpy d \<and> x11_sens x = x11_sens d \<and>
     out x = out d @ concat (map (\<lambda>(i, v). deliver_all d (EvRawAxis (int i) v) (client_list d)) ps) \<and>
     get_dev_event a x = Some (e\<lparr>de_motion := fold (\<lambda>(i, v) ms. ms[i := reported (cfg d) i v]) ps (de_motion e),
       de_pending := (ps \<noteq> [] \<or> de_pending e)\<rparr>)"

lemma underway_deliver:
  assumes "underway a e d ps x"
  shows "deliver_all x = deliver_all d" "addressed b x = addressed b d"
  using assms by (auto simp: underway_def intro: deliver_all_cong addressed_dev_list)

lemma underway_motion:
  assumes "underway a e d ps x" "i < 6" "\<bar>v\<bar> < 2 ^ 24"
  shows "underway a e d (ps @ [(i, v)]) (process_input a (motion_input i v) (x\<lparr>evdev_in := f\<rparr>))"
    "evdev_in (process_input a (motion_input i v) (x\<lparr>evdev_in := f\<rparr>)) = f"
proof -
  let ?x = "x\<lparr>evdev_in := f\<rparr>"
  let ?y = "process_input a (motion_input i v) ?x"
  have x: "events_wf ?x" "plain_axes ?x" using assms(1) by (simp_all add: underway_def with_input)
  have ok: "inp_ok (motion_input i v)" using assms(2) by (simp add: inp_ok_def axis_valid_def)
  note k = process_keeps_inputs [OF x(1) ok, of a]
  show "evdev_in ?y = f" using k(2) by simp
  let ?e = "e\<lparr>de_motion := fold (\<lambda>(i, v) ms. ms[i := reported (cfg d) i v]) ps (de_motion e), de_pending := (ps \<noteq> [] \<or> de_pending e)\<rparr>"
  have e: "get_dev_event a ?x = Some ?e" using assms(1) by (simp add: underway_def with_input)
  have y: "?y = upd_dev_event a (\<lambda>e. e\<lparr>de_motion := (de_motion e)[i := reported (cfg ?x) i v], de_pending := True\<rparr>)
      (broadcast_event (EvRawAxis (int i) v) ?x)"
    using process_motion_plain [OF x(2) assms(2,3), of a] by (simp add: process_input_known [OF e])
  have p: "plain_axes ?y = plain_axes ?x" unfolding y by (rule plain_axes_cong) (simp_all add: upd_dev_sel broadcast_sel)
  have del: "deliver_all ?x = deliver_all d" using underway_deliver(1) [OF assms(1)] deliver_all_cong [of ?x x] by simp
  have "out ?y = out x @ deliver_all d (EvRawAxis (int i) v) (client_list d)" "cfg ?y = cfg x" "ticks ?y = ticks x"
    "get_dev_event a ?y = Some (?e\<lparr>de_motion := (de_motion ?e)[i := reported (cfg d) i v], de_pending := True\<rparr>)"
    using assms(1) e unfolding y by (simp_all add: upd_dev_sel broadcast_sel del underway_def)
  with assms(1) k p x(2) show "underway a e d (ps @ [(i, v)]) ?y" by (simp add: underway_def)
qed

section \<open>The loop\<close>

lemma read_all_motions:
  assumes "get_device a d = Some dev" "d_read dev = Some Evdev_driver" "0 \<le> d_fd dev"
    "underway a e d (map (\<lambda>k. (axis_of dev k, turned dev k (v k))) [0..<j]) x"
    "j \<le> 6" "evdev_in x (d_fd dev) = map (\<lambda>k. Iev EV_REL (int k) (v k)) [j..<6] @ rest" "\<forall>k < 6. \<bar>v k\<bar> < 2 ^ 24"
  shows "\<exists>inp' y. read_all a inp x = read_all a inp' y \<and> evdev_in y (d_fd dev) = rest \<and>
    underway a e d (map (\<lambda>k. (axis_of dev k, turned dev k (v k))) [0..<6]) y"
  using assms(4-6)
proof (induction "6 - j" arbitrary: j x inp)
  case 0
  then show ?case by (intro exI [of _ inp] exI [of _ x]) simp
next
  case (Suc n)
  then have j: "j < 6" by simp
  then have "[j..<6] = j # [Suc j..<6]" by (simp add: upt_rec)
  with Suc.prems(3) have ev: "evdev_in x (d_fd dev) = Iev EV_REL (int j) (v j) # map (\<lambda>k. Iev EV_REL (int k) (v k)) [Suc j..<6] @ rest"
    by simp
  have "get_device a x = Some dev" using assms(1) Suc.prems(1) by (simp add: underway_def get_device_def)
  note r = read_motion [OF this assms(2,3) ev j]
  have v: "\<bar>v j\<bar> < 2 ^ 24" "\<bar>turned dev j (v j)\<bar> < 2 ^ 24" using assms(7) j by (simp_all add: turned_def)
  let ?i = "motion_input (axis_of dev j) (turned dev j (v j))"
  let ?f = "(evdev_in x)(d_fd dev := map (\<lambda>k. Iev EV_REL (int k) (v k)) [Suc j..<6] @ rest)"
  let ?y = "process_input a ?i (x\<lparr>evdev_in := ?f\<rparr>)"
  have u: "underway a e d (map (\<lambda>k. (axis_of dev k, turned dev k (v k))) [0..<Suc j]) ?y"
    using underway_motion(1) [OF Suc.prems(1) axis_of_lemmas(1) [OF j] v(2)] by simp
  have "evdev_in ?y (d_fd dev) = map (\<lambda>k. Iev EV_REL (int k) (v k)) [Suc j..<6] @ rest"
    using underway_motion(2) [OF Suc.prems(1) axis_of_lemmas(1) [OF j] v(2), where f = ?f] by simp
  from Suc.hyps(1) [OF _ u _ this, of ?i] Suc.hyps(2) j have "\<exists>inp' y. read_all a ?i ?y = read_all a inp' y \<and>
      evdev_in y (d_fd dev) = rest \<and> underway a e d (map (\<lambda>k. (axis_of dev k, turned dev k (v k))) [0..<6]) y" by simp
  moreover have "read_all a inp x = read_all a ?i ?y" by (subst read_all.simps) (simp add: r [OF v(1)])
  ultimately show ?case by simp
qed

lemma six_updates:
  assumes "length m = 6"
  shows "fold (\<lambda>(i, v) ms. ms[i := r i v]) (map (\<lambda>k. (axis_of dev k, u k)) [0..<6]) m = map (\<lambda>i. r i (u (axis_of dev i))) [0..<6]"
proof -
  from assms obtain a b c x y z where "m = [a, b, c, x, y, z]" by (auto simp: numeral_eq_Suc length_Suc_conv)
  then show ?thesis by (cases "d_flags dev AND DF_SWAPYZ = 0") (simp_all add: axis_of_def upt_rec eval_nat_numeral)
qed

section \<open>Properties\<close>

text \<open>
  C3: from the device to the clients. When a USB device has a complete report waiting (a value for each axis, and the end of
  the report), reading it empties its input, tells every client the raw value of each axis, as it comes, and then gives the
  listeners of the device one motion event with all six axes: each the value of its code, exchanged and
  turned round as the flags of the device say, except for dead zone and inversion of the configuration, and with
  the time since the last one. The flush that follows adds nothing.
\<close>

theorem usb_report_reaches_clients:
  assumes "events_wf d" "plain_axes d" "get_device a d = Some dev" "d_read dev = Some Evdev_driver" "0 \<le> d_fd dev"
    "evdev_in d (d_fd dev) = full_report v" "\<forall>k < 6. \<bar>v k\<bar> < 2 ^ 24" "get_dev_event a d = Some e"
  shows "\<exists>inp' d'. read_and_flush a inp d = Some (inp', d') \<and> evdev_in d' (d_fd dev) = [] \<and>
    out d' = out d @
      concat (map (\<lambda>k. deliver_all d (EvRawAxis (int (axis_of dev k)) (turned dev k (v k))) (client_list d)) [0..<6]) @
      deliver_all d
        (EvMotion (map (\<lambda>i. reported (cfg d) i (turned dev (axis_of dev i) (v (axis_of dev i)))) [0..<6])
          (msec_dif (clock d (ticks d)) (de_time e)))
        [c \<leftarrow> client_list d. get_client_device c d \<in> {None, Some a}]"
proof -
  let ?ps = "map (\<lambda>k. (axis_of dev k, turned dev k (v k))) [0..<6]"
  have len: "length (de_motion e) = 6"
    using assms(1,8) by (auto simp: events_wf_def tables_wf_def get_dev_event_def list_all_iff dev_event_wf_def dest: search_SomeD)
  have "underway a e d (map (\<lambda>k. (axis_of dev k, turned dev k (v k))) [0..<0]) d" using assms(1,2,8) by (simp add: underway_def)
  moreover have "evdev_in d (d_fd dev) = map (\<lambda>k. Iev EV_REL (int k) (v k)) [0..<6] @ [Iev EV_SYN 0 0]"
    using assms(6) by (simp add: full_report_def)
  ultimately obtain i' y where y: "read_all a inp d = read_all a i' y" "evdev_in y (d_fd dev) = [Iev EV_SYN 0 0]" "underway a e d ?ps y"
    using read_all_motions [OF assms(3-5) _ _ _ assms(7), of e 0 d] by blast
  let ?y = "y\<lparr>evdev_in := (evdev_in y)(d_fd dev := [])\<rparr>"
  let ?i = "i'\<lparr>inp_type := INP_FLUSH\<rparr>"
  let ?e = "e\<lparr>de_motion := map (\<lambda>i. reported (cfg d) i (turned dev (axis_of dev i) (v (axis_of dev i)))) [0..<6], de_pending := True\<rparr>"
  let ?z = "flush_motion a ?y"
  have "fold (\<lambda>(i, v) ms. ms[i := reported (cfg d) i v]) ?ps (de_motion e) =
      map (\<lambda>i. reported (cfg d) i (turned dev (axis_of dev i) (v (axis_of dev i)))) [0..<6]"
    by (rule six_updates [OF len])
  then have e: "get_dev_event a ?y = Some ?e" using y(3) by (simp add: underway_def with_input)
  have wf: "events_wf ?y" using y(3) by (simp add: underway_def with_input)
  note f = flush_motion_effect [OF wf e, simplified]
  have "get_device a y = Some dev" using assms(3) y(3) by (simp add: underway_def get_device_def)
  note syn = read_syn [OF this assms(4,5) y(2), of i']
  have k: "evdev_in ?z (d_fd dev) = []" "dev_list ?z = dev_list d"
    using process_keeps_inputs(2,3) [OF wf, of ?i a] y(3)
    by (simp_all add: process_input_known [OF e] inp_ok_def underway_def)
  have z: "process_input a inp2 ?z = ?z" if "inp_type inp2 = INP_FLUSH" for inp2
    using that flush_motion_once [OF wf, of a] by (simp add: process_input_known [OF f(2)])
  have "get_device a ?z = Some dev" using k(2) assms(3) by (simp add: get_device_def)
  note none = read_none [OF this assms(4) k(1)]
  have "read_all a i' y = read_all a ?i ?z"
    by (subst read_all.simps) (simp add: syn process_input_known [OF e])
  also have "\<dots> = Some (?i, ?z)" by (subst read_all.simps) (simp add: none)
  finally have r: "read_and_flush a inp d = Some (?i, ?z)" using y(1) z by (simp add: read_and_flush_def Let_def)
  have del: "deliver_all ?y = deliver_all d" "addressed a ?y = addressed a d"
    using underway_deliver [OF y(3)] deliver_all_cong [of ?y y] addressed_dev_list [of ?y y a] by simp_all
  have "out ?z = out y @ deliver_all d (EvMotion (de_motion ?e) (msec_dif (clock d (ticks d)) (de_time e)))
      (filter (addressed a d) (client_list d))"
    using f(1) y(3) by (simp add: motion_report_def del underway_def)
  moreover have "addressed a d = (\<lambda>c. get_client_device c d \<in> {None, Some a})" by (auto simp: addressed_def)
  moreover have "out y = out d @ concat (map (\<lambda>k. deliver_all d (EvRawAxis (int (axis_of dev k)) (turned dev k (v k))) (client_list d)) [0..<6])"
    using y(3) by (simp add: underway_def comp_def)
  ultimately show ?thesis using r k(1) by simp
qed

definition report_waiting :: daemon where
  \<comment> \<open>two clients, and a SpaceMouse at address 9 that has been moved along all axes\<close>
  "report_waiting = watched\<lparr>evdev_in := (\<lambda>_. full_report (\<lambda>k. 100 * int k + 100)),
     dev_list := [(sample_dev 0)\<lparr>d_addr := 9, d_fd := 5, d_flags := DF_6DOF, d_data := None, d_read := Some Evdev_driver\<rparr>]\<rparr>"

theorem usb_report_reaches_clients_witness:
  "\<exists>inp d. read_and_flush 9 (button 0 True) report_waiting = Some (inp, d) \<and>
     out d = out report_waiting @ [Uevent 8 [0, 100, - 300, - 200, 400, - 600, - 500, 0], Uevent 7 [0, 100, - 300, - 200, 400, - 600, - 500, 0]]"
proof -
  let ?v = "\<lambda>k. 100 * int k + 100"
  let ?dev = "(sample_dev 0)\<lparr>d_addr := 9, d_fd := 5, d_flags := DF_6DOF, d_data := None, d_read := Some Evdev_driver\<rparr>"
  let ?e = "new_dev_event 9 time_zero"
  have w: "events_wf report_waiting" "plain_axes report_waiting" "get_dev_event 9 report_waiting = Some ?e"
    using watched_wf by (simp_all add: report_waiting_def events_wf_def clients_wf_def tables_wf_def kb_ok_def plain_axes_def get_dev_event_def)
  have g: "get_device 9 report_waiting = Some ?dev" "d_read ?dev = Some Evdev_driver" "0 \<le> d_fd ?dev"
    "evdev_in report_waiting (d_fd ?dev) = full_report ?v" by (simp_all add: report_waiting_def get_device_def)
  have v: "\<forall>k < 6. \<bar>?v k\<bar> < 2 ^ 24" by auto
  note t = usb_report_reaches_clients [OF w(1,2) g v w(3), of "button 0 True"]
  have r: "map (\<lambda>i. reported (cfg report_waiting) i (turned ?dev (axis_of ?dev i) (?v (axis_of ?dev i)))) [0..<6] =
      [100, - 300, - 200, 400, - 600, - 500]"
    by (simp add: upt_rec reported_def report_waiting_def watched_def two_clients_eq default_cfg_def nth_append turned_def axis_of_def
        eval_nat_numeral)
  have p: "msec_dif (clock report_waiting (ticks report_waiting)) (de_time ?e) = 0"
    by (simp add: report_waiting_def watched_def two_clients_eq start_state_def new_dev_event_def msec_dif_def)
  have c: "client_list report_waiting = [add_result CLIENT_UNIX 8 0 1, add_result CLIENT_UNIX 7 0 0]"
    "[c \<leftarrow> client_list report_waiting. get_client_device c report_waiting \<in> {None, Some 9}]
      = [add_result CLIENT_UNIX 8 0 1, add_result CLIENT_UNIX 7 0 0]"
    by (simp_all add: report_waiting_def watched_def two_clients_eq get_client_device_def add_result_def calloc_client_def)
  have one: "scale one_f32 k = k" if "\<bar>k\<bar> < 2 ^ 24" for k
    using that by (simp add: scale_def f32_of_int_finite)
  have raw: "deliver_all report_waiting (EvRawAxis i k) [add_result CLIENT_UNIX 8 0 1, add_result CLIENT_UNIX 7 0 0] = []" for i k
    by (simp add: deliver_all_def deliver_def report_waiting_def watched_def two_clients_eq add_result_def calloc_client_def)
  have none: "concat (map (\<lambda>k. []) [0..<6]) = []" by simp
  have d: "deliver_all report_waiting (EvMotion [100, - 300, - 200, 400, - 600, - 500] 0)
      [add_result CLIENT_UNIX 8 0 1, add_result CLIENT_UNIX 7 0 0]
    = [Uevent 8 [0, 100, - 300, - 200, 400, - 600, - 500, 0], Uevent 7 [0, 100, - 300, - 200, 400, - 600, - 500, 0]]"
    by (simp add: deliver_all_def deliver_def report_waiting_def watched_def two_clients_eq add_result_def calloc_client_def
        upt_rec one w32_def)
  note t = t [unfolded r p c(2), unfolded c(1) raw d none append_Nil]
  from t show ?thesis by blast
qed

end
