(* ===== verification/BsdDevices.thy ===== *)
theory BsdDevices
  imports Devices
begin

text \<open>
  The USB devices of a FreeBSD build (src/dev_usb_freebsd.c), which are read as HID reports. The position of the axes, the
  buttons and what is still to be reported are static variables that all devices share. In the device
  structure, \<open>Evdev_driver\<close> stands for the USB driver of the build, here the functions of this theory.
\<close>

section \<open>State\<close>

datatype hid_read = Hid_report "char list" | Hid_error

record uhid_node =
  u_path :: string
  u_fd :: int
  u_info :: "(int \<times> int \<times> string) option"

record hid =
  last_buttons :: u32
  curr_buttons :: u32
  curr_pos :: "int list"
  to_flush :: u32

text \<open>
  The environment: what reading a device returns (nothing: \<open>EAGAIN\<close>), the bytes behind a report in the buffer, what
  \<open>open\<close> returns for reading and writing and for reading only, and the nodes that \<open>glob\<close> finds.
\<close>

record bsd = hid +
  hid_in :: "int \<Rightarrow> hid_read list"
  hid_junk :: "nat \<Rightarrow> int"
  open_rdwr :: "string \<Rightarrow> int"
  open_rdonly :: "string \<Rightarrow> int"
  uhid_nodes :: "uhid_node list option"

section \<open>The LED, opening and closing\<close>

definition set_led_hid :: "device \<Rightarrow> int \<Rightarrow> daemon \<Rightarrow> daemon" where
  \<comment> \<open>an output report of two bytes: 4 and this\<close>
  "set_led_hid dev state d = (if d_fd dev < 0 then d else emit (Led (d_fd dev) (if state \<noteq> 0 then 15 else 0)) d)"

definition close_hid :: "device \<Rightarrow> daemon \<Rightarrow> device \<times> daemon" where
  "close_hid dev d =
     (if 0 \<le> d_fd dev then
        let d = set_led_hid dev 0 d; d = emit (Close (d_fd dev)) d in (dev\<lparr>d_fd := - 1\<rparr>, d)
      else (dev, d))"

definition remove_hid_device :: "nat \<Rightarrow> daemon \<Rightarrow> daemon" where
  \<comment> \<open>\<open>remove_device\<close> for a device of this driver\<close>
  "remove_hid_device a d =
     (case get_device a d of
        None \<Rightarrow> d\<lparr>fault := True\<rparr>
      | Some dev \<Rightarrow>
          let d = d\<lparr>dev_list := filter (\<lambda>x. d_addr x \<noteq> a) (dev_list d)\<rparr>;
              d = remove_dev_event a d;
              (dev, d) = close_hid dev d in
          broadcast_event (dev_event DEV_RM dev) d)"

definition open_hid :: "bsd \<Rightarrow> device \<Rightarrow> daemon \<Rightarrow> int \<times> device \<times> daemon" where
  \<comment> \<open>\<open>open_dev_usb\<close> of this build\<close>
  "open_hid b dev d =
     (let dev = dev\<lparr>d_fd := open_rdwr b (d_path dev)\<rparr>;
          dev = (if d_fd dev = - 1 then dev\<lparr>d_fd := open_rdonly b (d_path dev)\<rparr> else dev) in
      if d_fd dev = - 1 then (- 1, dev, d)
      else
        let (clients, d) = (if led (cfg d) = LED_AUTO then first_client d else (None, d));
            d = (if led (cfg d) = LED_ON \<or> (led (cfg d) = LED_AUTO \<and> clients \<noteq> None) then set_led_hid dev 1 d
                 else set_led_hid dev 0 (set_led_hid dev 1 d)) in
        (0, dev\<lparr>d_close := Some Evdev_driver, d_read := Some Evdev_driver, d_set_led := Some Evdev_driver,
           bnbase := 0, num_buttons := 2, num_axes := 6\<rparr>, d))"

section \<open>Reading\<close>

definition ffs :: "u32 \<Rightarrow> int" where
  \<comment> \<open>one more than the number of the lowest bit that is set, or 0\<close>
  "ffs w = (case search (bit w) [0..<32] of None \<Rightarrow> 0 | Some i \<Rightarrow> int i + 1)"

definition button_event :: "dev_input \<Rightarrow> u32 \<Rightarrow> u32 \<Rightarrow> dev_input \<times> u32" where
  "button_event inp prev cur =
     (let new = prev XOR cur; b = nat (ffs new - 1) in
      if new \<noteq> 0 then
        (inp\<lparr>inp_type := INP_BUTTON, inp_idx := int b, inp_val := of_bool (bit cur b)\<rparr>, prev XOR push_bit b 1)
      else (inp, prev))"

definition axis_event :: "dev_input \<Rightarrow> int list \<Rightarrow> u32 \<Rightarrow> int \<times> dev_input \<times> u32" where
  \<comment> \<open>with \<open>*flush\<close> afterwards\<close>
  "axis_event inp cur flush =
     (if 0 < ffs flush then
        let axis = nat (ffs flush - 1); flush = flush AND NOT (push_bit axis 1) in
        if axis < 6 then (0, inp\<lparr>inp_type := INP_MOTION, inp_idx := int axis, inp_val := cur ! axis\<rparr>, flush)
        else (0, inp\<lparr>inp_type := INP_FLUSH\<rparr>, flush)
      else (- 1, inp, flush))"

definition le16 :: "int \<Rightarrow> int \<Rightarrow> int" where
  "le16 lo hi = int16 (lo + 256 * hi)"

definition axis_event_of :: "dev_input \<Rightarrow> 'a hid_scheme \<Rightarrow> int \<times> dev_input \<times> 'a hid_scheme" where
  \<comment> \<open>\<open>axis_event(inp, curr_pos, &flush)\<close>\<close>
  "axis_event_of inp b = (let (r, inp, fl) = axis_event inp (curr_pos b) (to_flush b) in (r, inp, b\<lparr>to_flush := fl\<rparr>))"

definition hid_switch :: "nat \<Rightarrow> (nat \<Rightarrow> int) \<Rightarrow> dev_input \<Rightarrow> 'a hid_scheme \<Rightarrow> int \<times> dev_input \<times> 'a hid_scheme" where
  \<comment> \<open>the switch on the kind of the report, with its length and the bytes of the buffer\<close>
  "hid_switch n iev inp b =
     (if iev 0 = 1 then
        (let k = min (n div 2) 6;
             b = b\<lparr>to_flush := 0x40 OR mask k,
                   curr_pos := map (\<lambda>i. if i < k then le16 (iev (i * 2 + 1)) (iev (i * 2 + 2)) else curr_pos b ! i) [0..<6]\<rparr> in
         axis_event_of inp b)
      else if iev 0 = 2 then
        (let b = b\<lparr>to_flush := 0x78,
                   curr_pos := take 3 (curr_pos b) @ [le16 (iev 1) (iev 2), le16 (iev 3) (iev 4), le16 (iev 5) (iev 6)]\<rparr> in
         axis_event_of inp b)
      else if iev 0 = 3 then
        (let b = b\<lparr>to_flush := 1, curr_buttons := word_of_int (iev 1 + 256 * iev 2 + 65536 * iev 3)\<rparr> in
         if last_buttons b \<noteq> curr_buttons b then
           (let (inp, l) = button_event inp (last_buttons b) (curr_buttons b) in (0, inp, b\<lparr>last_buttons := l\<rparr>))
         else (- 1, inp, b))
      else (- 1, inp, b))"

definition read_hid :: "device \<Rightarrow> dev_input \<Rightarrow> bsd \<times> daemon \<Rightarrow> int \<times> dev_input \<times> bsd \<times> daemon" where
  "read_hid dev inp = (\<lambda>(b, d).
     if d_fd dev < 0 then (- 1, inp, b, d)
     else if last_buttons b \<noteq> curr_buttons b then
       (let (inp, l) = button_event inp (last_buttons b) (curr_buttons b) in (0, inp, b\<lparr>last_buttons := l\<rparr>, d))
     else
       let (r, inp, b) = axis_event_of inp b in
       if r = 0 then (0, inp, b, d)
       else case hid_in b (d_fd dev) of
         [] \<Rightarrow> (- 1, inp, b, d)
       | res # rest \<Rightarrow>
           let b = b\<lparr>hid_in := (hid_in b)(d_fd dev := rest)\<rparr> in
           case res of
             Hid_error \<Rightarrow> (- 1, inp, b, remove_hid_device (d_addr dev) d)
           | Hid_report bs \<Rightarrow>
               if bs = [] then (- 1, inp, b, d)
               else
                 let iev = (\<lambda>i. if i < length bs then int (byte (bs ! i)) else hid_junk b i);
                     (r, inp, b) = hid_switch (length bs) iev inp b in
                 (r, inp, b, d))"

section \<open>Detection\<close>

definition check_uhid :: "uhid_node \<Rightarrow> usb_dev_info list \<times> daemon \<Rightarrow> usb_dev_info list \<times> daemon" where
  \<comment> \<open>without memory, \<open>match\<close> is called with a null pointer or a node that has been freed\<close>
  "check_uhid n = (\<lambda>(devs, d).
     if u_fd n = - 1 then (devs, d)
     else case u_info n of
       None \<Rightarrow> (devs, emit (Close (u_fd n)) d)
     | Some (vid, pid, name) \<Rightarrow>
         let (a, d) = calloc d in
         if a = None then (devs, emit (Close (u_fd n)) (d\<lparr>fault := True\<rparr>))
         else
           let (a, d) = calloc d in
           if a = None then (devs, emit (Close (u_fd n)) (d\<lparr>fault := True\<rparr>))
           else
             let (a, d) = calloc d in
             if a = None then (devs, emit (Close (u_fd n)) (d\<lparr>fault := True\<rparr>))
             else
               let di = \<lparr>ud_name = Some name, ud_devfiles = [u_path n], ud_vendorid = vid, ud_productid = pid\<rparr> in
               case match_usbdev (cfg d) di of
                 None \<Rightarrow> (devs, emit (Close (u_fd n)) (d\<lparr>fault := True\<rparr>))
               | Some m \<Rightarrow> (if m then di # devs else devs, emit (Close (u_fd n)) d))"

definition find_hid_devices :: "bsd \<Rightarrow> daemon \<Rightarrow> usb_dev_info list \<times> daemon" where
  \<comment> \<open>\<open>find_usb_devices(match_usbdev)\<close> of this build\<close>
  "find_hid_devices b d =
     (case uhid_nodes b of None \<Rightarrow> ([], d) | Some nodes \<Rightarrow> fold check_uhid nodes ([], d))"

section \<open>What a report becomes\<close>

fun hid_inputs :: "nat \<Rightarrow> device \<Rightarrow> dev_input \<Rightarrow> bsd \<times> daemon \<Rightarrow> dev_input list \<times> bsd \<times> daemon" where
  \<comment> \<open>the events of at most so many reads in a row\<close>
  "hid_inputs 0 dev inp s = ([], s)"
| "hid_inputs (Suc n) dev inp s =
     (let (r, inp, s) = read_hid dev inp s in
      if r = - 1 then ([], s) else let (evs, s) = hid_inputs n dev inp s in (inp # evs, s))"

lemma filter_least: "filter P [0..<n] = i # is \<Longrightarrow> P i \<and> i < n \<and> (\<forall>j < i. \<not> P j)"
proof (induction n arbitrary: "is")
  case (Suc n)
  show ?case
  proof (cases "filter P [0..<n]")
    case Nil
    with Suc.prems show ?thesis by (auto simp: filter_empty_conv split: if_splits)
  next
    case (Cons j js)
    with Suc show ?thesis by auto
  qed
qed simp

lemma search_filter: "search P xs = (case filter P xs of [] \<Rightarrow> None | x # _ \<Rightarrow> Some x)"
  by (induction xs) simp_all

definition changed :: "u32 \<Rightarrow> u32 \<Rightarrow> nat list" where
  "changed v w = filter (bit (v XOR w)) [0..<32]"

lemma changed_Nil: "changed v w = [] \<longleftrightarrow> v = w"
  by (auto simp: changed_def filter_empty_conv bit_xor_iff bit_eq_iff [of v w] dest: bit_imp_le_length)

lemma button_event_changed:
  assumes "changed v w = i # is"
  shows "button_event inp v w = (inp\<lparr>inp_type := INP_BUTTON, inp_idx := int i, inp_val := of_bool (bit w i)\<rparr>, v XOR push_bit i 1)"
    "changed (v XOR push_bit i 1) w = is"
proof -
  have "bit (v XOR w) i" using filter_least [OF assms [unfolded changed_def]] by simp
  then have "v XOR w \<noteq> 0" by (metis bit_0_eq bot_apply bot_bool_def)
  moreover have "ffs (v XOR w) = int i + 1" using assms by (simp add: ffs_def search_filter changed_def)
  ultimately show "button_event inp v w = (inp\<lparr>inp_type := INP_BUTTON, inp_idx := int i, inp_val := of_bool (bit w i)\<rparr>, v XOR push_bit i 1)"
    by (simp add: button_event_def)
  have b: "bit ((v XOR push_bit i 1) XOR w) j \<longleftrightarrow> bit (v XOR w) j \<and> j \<noteq> i" if "j < 32" for j
    using that filter_least [OF assms [unfolded changed_def]] by (auto simp: bit_xor_iff bit_exp_iff)
  have "changed (v XOR push_bit i 1) w = filter (\<lambda>j. bit (v XOR w) j \<and> j \<noteq> i) [0..<32]"
    unfolding changed_def using b by (intro filter_cong) auto
  also have "\<dots> = filter (\<lambda>j. j \<noteq> i) (i # is)" using assms by (simp add: changed_def filter_filter [symmetric] del: filter_filter)
  also have "\<dots> = is"
  proof -
    have "distinct (i # is)" using assms unfolding changed_def by (metis distinct_filter distinct_upt)
    then show ?thesis by (auto intro: filter_True)
  qed
  finally show "changed (v XOR push_bit i 1) w = is" .
qed

definition button_input :: "u32 \<Rightarrow> nat \<Rightarrow> dev_input" where
  "button_input w i = \<lparr>inp_type = INP_BUTTON, inp_idx = int i, inp_val = of_bool (bit w i)\<rparr>"

lemma read_button:
  assumes "0 \<le> d_fd dev" "changed (last_buttons b) (curr_buttons b) = i # is"
  shows "read_hid dev inp (b, d) =
    (0, button_input (curr_buttons b) i, b\<lparr>last_buttons := last_buttons b XOR push_bit i 1\<rparr>, d)"
proof -
  have "last_buttons b \<noteq> curr_buttons b" using assms(2) changed_Nil by (metis list.distinct(1))
  with assms(1) button_event_changed(1) [OF assms(2), of inp] show ?thesis
    by (simp add: read_hid_def button_input_def)
qed

lemma drain_buttons:
  assumes "0 \<le> d_fd dev" "changed (last_buttons b) (curr_buttons b) = is" "is \<noteq> []"
  shows "\<exists>i'. hid_inputs (length is + n) dev inp (b, d) =
    (let (evs, s) = hid_inputs n dev i' (b\<lparr>last_buttons := curr_buttons b\<rparr>, d) in (map (button_input (curr_buttons b)) is @ evs, s))"
  using assms(2,3)
proof (induction "is" arbitrary: b inp)
  case (Cons i js)
  let ?b = "b\<lparr>last_buttons := last_buttons b XOR push_bit i 1\<rparr>"
  have c: "changed (last_buttons ?b) (curr_buttons ?b) = js" using button_event_changed(2) [OF Cons.prems(1)] by simp
  note r = read_button [OF assms(1) Cons.prems(1)]
  show ?case
  proof (cases "js = []")
    case True
    with c have "last_buttons b XOR push_bit i 1 = curr_buttons b" by (simp add: changed_Nil)
    with True show ?thesis by (intro exI [of _ "button_input (curr_buttons b) i"]) (simp add: r split_beta Let_def)
  next
    case False
    from Cons.IH [OF c False] obtain i' where
      "hid_inputs (length js + n) dev (button_input (curr_buttons b) i) (?b, d) =
        (let (evs, s) = hid_inputs n dev i' (b\<lparr>last_buttons := curr_buttons b\<rparr>, d) in (map (button_input (curr_buttons b)) js @ evs, s))"
      by auto
    then show ?thesis by (intro exI [of _ i']) (simp add: r split_beta Let_def)
  qed
qed simp

definition axes :: "u32 \<Rightarrow> nat list" where
  "axes fl = filter (bit fl) [0..<32]"

definition axis_input :: "int list \<Rightarrow> nat \<Rightarrow> dev_input \<Rightarrow> dev_input" where
  "axis_input pos a inp =
     (if a < 6 then \<lparr>inp_type = INP_MOTION, inp_idx = int a, inp_val = pos ! a\<rparr> else inp\<lparr>inp_type := INP_FLUSH\<rparr>)"

fun axis_inputs :: "int list \<Rightarrow> nat list \<Rightarrow> dev_input \<Rightarrow> dev_input list" where
  "axis_inputs pos [] inp = []"
| "axis_inputs pos (a # as) inp = (let inp = axis_input pos a inp in inp # axis_inputs pos as inp)"

lemma axis_event_axes:
  assumes "axes fl = a # as"
  shows "\<exists>fl'. axis_event inp pos fl = (0, axis_input pos a inp, fl') \<and> axes fl' = as"
proof -
  let ?fl = "fl AND NOT (push_bit a 1)"
  have "ffs fl = int a + 1" using assms by (simp add: ffs_def search_filter axes_def)
  then have ev: "axis_event inp pos fl = (0, axis_input pos a inp, ?fl)" by (simp add: axis_event_def axis_input_def)
  have "axes ?fl = filter (\<lambda>j. bit fl j \<and> j \<noteq> a) [0..<32]"
    unfolding axes_def by (intro filter_cong) (auto simp: bit_and_iff bit_not_iff bit_exp_iff)
  also have "\<dots> = filter (\<lambda>j. j \<noteq> a) (a # as)" using assms by (simp add: axes_def filter_filter [symmetric] del: filter_filter)
  also have "\<dots> = as"
  proof -
    have "distinct (a # as)" using assms unfolding axes_def by (metis distinct_filter distinct_upt)
    then show ?thesis by (auto intro: filter_True)
  qed
  finally show ?thesis using ev by blast
qed

lemma drain_axes:
  assumes "0 \<le> d_fd dev" "last_buttons b = curr_buttons b" "axes (to_flush b) = as"
  shows "\<exists>i' b'. hid_inputs (length as + n) dev inp (b, d) =
    (let (evs, s) = hid_inputs n dev i' (b', d) in (axis_inputs (curr_pos b) as inp @ evs, s)) \<and>
    b' = b\<lparr>to_flush := to_flush b'\<rparr> \<and> axes (to_flush b') = []"
  using assms(2,3)
proof (induction as arbitrary: b inp)
  case Nil
  then show ?case by (intro exI [of _ inp] exI [of _ b]) (simp add: split_beta)
next
  case (Cons a as)
  obtain fl' where fl: "axis_event inp (curr_pos b) (to_flush b) = (0, axis_input (curr_pos b) a inp, fl')" "axes fl' = as"
    using axis_event_axes [OF Cons.prems(2)] by blast
  have r: "read_hid dev inp (b, d) = (0, axis_input (curr_pos b) a inp, b\<lparr>to_flush := fl'\<rparr>, d)"
    using assms(1) Cons.prems(1) by (simp add: read_hid_def axis_event_of_def fl)
  from Cons.IH [of "b\<lparr>to_flush := fl'\<rparr>" "axis_input (curr_pos b) a inp"] Cons.prems(1) fl(2) obtain i' b' where
    "hid_inputs (length as + n) dev (axis_input (curr_pos b) a inp) (b\<lparr>to_flush := fl'\<rparr>, d) =
      (let (evs, s) = hid_inputs n dev i' (b', d) in (axis_inputs (curr_pos b) as (axis_input (curr_pos b) a inp) @ evs, s))"
    "b' = b\<lparr>to_flush := to_flush b'\<rparr>" "axes (to_flush b') = []" by auto
  then show ?case by (intro exI [of _ i'] exI [of _ b']) (simp add: r split_beta Let_def)
qed

lemma ffs_axes: "axes fl = [] \<Longrightarrow> ffs fl = 0"
  by (simp add: ffs_def search_filter axes_def)

lemma axes_zero: "axes 0 = []"
  by (simp add: axes_def)

lemma idle_read:
  assumes "0 \<le> d_fd dev" "last_buttons b = curr_buttons b" "axes (to_flush b) = []" "hid_in b (d_fd dev) = []"
  shows "hid_inputs n dev inp (b, d) = ([], b, d)"
  using assms by (cases n) (simp_all add: read_hid_def axis_event_of_def axis_event_def ffs_axes)

text \<open>A read that finds a report of axes: as if what is to be flushed had been set before.\<close>

lemma read_axes_report:
  assumes "0 \<le> d_fd dev" "last_buttons b = curr_buttons b" "to_flush b = 0" "hid_in b (d_fd dev) = [Hid_report bs]" "bs \<noteq> []"
    "hid_switch (length bs) (\<lambda>i. if i < length bs then int (byte (bs ! i)) else hid_junk b i) inp (b\<lparr>hid_in := (hid_in b)(d_fd dev := [])\<rparr>)
      = axis_event_of inp b'" "last_buttons b' = curr_buttons b'" "axes (to_flush b') \<noteq> []"
  shows "read_hid dev inp (b, d) = read_hid dev inp (b', d)"
proof -
  obtain fl' where "axis_event inp (curr_pos b') (to_flush b') = (0, axis_input (curr_pos b') (hd (axes (to_flush b'))) inp, fl')"
    using axis_event_axes [of "to_flush b'"] assms(8) by (metis list.collapse)
  then have e: "axis_event_of inp b' = (0, axis_input (curr_pos b') (hd (axes (to_flush b'))) inp, b'\<lparr>to_flush := fl'\<rparr>)"
    by (simp add: axis_event_of_def)
  have z: "ffs 0 = 0" by (rule ffs_axes [OF axes_zero])
  have "axis_event_of inp b = (- 1, inp, b)" using assms(3) by (simp add: axis_event_of_def axis_event_def z)
  then show ?thesis
    using assms(1-5,7) e assms(6) by (simp add: read_hid_def split_beta Let_def cong: if_cong)
qed

lemma axes_first: "k \<le> 6 \<Longrightarrow> axes (0x40 OR mask k) = [0..<k] @ [6]"
proof -
  assume "k \<le> 6"
  then have "k \<in> set [0..<7]" by simp
  moreover have "\<forall>k \<in> set [0..<7]. axes (0x40 OR mask k) = [0..<k] @ [6]" by code_simp
  ultimately show ?thesis by blast
qed

lemma axis_inputs_Nil: "axis_inputs pos as inp = [] \<longleftrightarrow> as = []"
  by (cases as) (simp_all add: Let_def)

lemma axis_inputs_append:
  "axis_inputs pos (as @ [a]) inp = axis_inputs pos as inp @ [axis_input pos a (if as = [] then inp else List.last (axis_inputs pos as inp))]"
  by (induction as arbitrary: inp) (auto simp: Let_def axis_inputs_Nil)

lemma axis_inputs_axes: "list_all (\<lambda>a. a < 6) as \<Longrightarrow>
    axis_inputs pos as inp = map (\<lambda>a. \<lparr>inp_type = INP_MOTION, inp_idx = int a, inp_val = pos ! a\<rparr>) as"
  by (induction as arbitrary: inp) (simp_all add: axis_input_def Let_def)

section \<open>Properties\<close>

text \<open>
  C39: a report of axes is reported completely and in order. When nothing is pending, a report of kind 1 with so many
  axes becomes one motion event for each of them, with the value of its two bytes (low byte first, as a signed number), and
  then a flush, in successive reads; after it, nothing is pending again.
\<close>

theorem hid_motion_report:
  assumes "0 \<le> d_fd dev" "last_buttons b = curr_buttons b" "to_flush b = 0" "hid_in b (d_fd dev) = [Hid_report bs]"
    "length bs = 2 * k + 1" "0 < k" "k \<le> 6" "byte (bs ! 0) = 1"
  shows "let (evs, b', d') = hid_inputs (k + 2) dev inp (b, d);
      motion = (\<lambda>i. \<lparr>inp_type = INP_MOTION, inp_idx = int i,
        inp_val = le16 (int (byte (bs ! (2 * i + 1)))) (int (byte (bs ! (2 * i + 2))))\<rparr>) in
    evs = map motion [0..<k] @ [(motion (k - 1))\<lparr>inp_type := INP_FLUSH\<rparr>] \<and> axes (to_flush b') = [] \<and> d' = d"
proof -
  let ?iev = "\<lambda>i. if i < length bs then int (byte (bs ! i)) else hid_junk b i"
  define b1 where "b1 = b\<lparr>hid_in := (hid_in b)(d_fd dev := []), to_flush := 0x40 OR mask k,
      curr_pos := map (\<lambda>i. if i < k then le16 (?iev (i * 2 + 1)) (?iev (i * 2 + 2)) else curr_pos b ! i) [0..<6]\<rparr>"
  have bs: "bs \<noteq> []" "min (length bs div 2) 6 = k" using assms(5-7) by auto
  have sw: "hid_switch (length bs) ?iev inp (b\<lparr>hid_in := (hid_in b)(d_fd dev := [])\<rparr>) = axis_event_of inp b1"
    using bs assms(8) by (simp add: hid_switch_def b1_def Let_def cong: if_cong)
  have ax: "axes (to_flush b1) = [0..<k] @ [6]" using axes_first [OF assms(7)] by (simp add: b1_def)
  then have "read_hid dev inp (b, d) = read_hid dev inp (b1, d)"
    using assms(2) by (intro read_axes_report [OF assms(1-4) bs(1) sw]) (simp_all add: b1_def)
  then have h: "hid_inputs (k + 2) dev inp (b, d) = hid_inputs (k + 2) dev inp (b1, d)" by simp
  have lb: "last_buttons b1 = curr_buttons b1" and len: "length ([0..<k] @ [6]) + 1 = k + 2" using assms(2) by (simp_all add: b1_def)
  obtain i' b' where d: "hid_inputs (k + 2) dev inp (b1, d) =
      (let (evs, s) = hid_inputs 1 dev i' (b', d) in (axis_inputs (curr_pos b1) ([0..<k] @ [6]) inp @ evs, s))"
    "b' = b1\<lparr>to_flush := to_flush b'\<rparr>" "axes (to_flush b') = []"
    using drain_axes [OF assms(1) lb ax, of 1 inp d] unfolding len by blast
  have "last_buttons b' = curr_buttons b'" "hid_in b' (d_fd dev) = []"
    using assms(2) by (subst d(2), simp add: b1_def)+
  note idle = idle_read [OF assms(1) this(1) d(3) this(2)]
  define motion where "motion = (\<lambda>i. \<lparr>inp_type = INP_MOTION, inp_idx = int i,
        inp_val = le16 (int (byte (bs ! (2 * i + 1)))) (int (byte (bs ! (2 * i + 2))))\<rparr>)"
  have "axis_inputs (curr_pos b1) [0..<k] inp = map motion [0..<k]"
    using assms(5,7) by (simp add: axis_inputs_axes list_all_iff b1_def motion_def mult.commute)
  moreover have "List.last (map motion [0..<k]) = motion (k - 1)" using assms(6) by (simp add: last_map)
  ultimately have "axis_inputs (curr_pos b1) ([0..<k] @ [6]) inp = map motion [0..<k] @ [(motion (k - 1))\<lparr>inp_type := INP_FLUSH\<rparr>]"
    using assms(6) by (simp add: axis_inputs_append axis_input_def)
  then show ?thesis unfolding h d(1) idle motion_def [symmetric] Let_def using d(3) by simp
qed

definition uhid :: "nat list \<Rightarrow> bsd" where
  \<comment> \<open>nothing pending, one report\<close>
  "uhid report = \<lparr>last_buttons = 0, curr_buttons = 0, curr_pos = replicate 6 9, to_flush = 0,
     hid_in = (\<lambda>_. [Hid_report (map char_of report)]), hid_junk = (\<lambda>_. 0), open_rdwr = (\<lambda>_. 5), open_rdonly = (\<lambda>_. - 1),
     uhid_nodes = None\<rparr>"

theorem hid_motion_report_witness:
  "fst (hid_inputs 5 ((new_device 0 1)\<lparr>d_fd := 5\<rparr>) (button 0 True) (uhid [1, 2, 0, 254, 255, 0, 1], start_state)) =
     [\<lparr>inp_type = INP_MOTION, inp_idx = 0, inp_val = 2\<rparr>, \<lparr>inp_type = INP_MOTION, inp_idx = 1, inp_val = - 2\<rparr>,
      \<lparr>inp_type = INP_MOTION, inp_idx = 2, inp_val = 256\<rparr>, \<lparr>inp_type = INP_FLUSH, inp_idx = 2, inp_val = 256\<rparr>]"
proof -
  have le: "le16 2 0 = 2" "le16 254 255 = - 2" "le16 0 1 = 256" by code_simp+
  let ?dev = "(new_device 0 1)\<lparr>d_fd := 5\<rparr>"
  have "let (evs, b', d') = hid_inputs (3 + 2) ?dev (button 0 True) (uhid [1, 2, 0, 254, 255, 0, 1], start_state);
      motion = (\<lambda>i. \<lparr>inp_type = INP_MOTION, inp_idx = int i,
        inp_val = le16 (int (byte (map char_of [1, 2, 0, 254, 255, 0, 1 :: nat] ! (2 * i + 1))))
          (int (byte (map char_of [1, 2, 0, 254, 255, 0, 1 :: nat] ! (2 * i + 2))))\<rparr>) in
    evs = map motion [0..<3] @ [(motion (3 - 1))\<lparr>inp_type := INP_FLUSH\<rparr>] \<and> axes (to_flush b') = [] \<and> d' = start_state"
    by (rule hid_motion_report) (simp_all add: uhid_def byte_def)
  then show ?thesis by (simp add: split_beta Let_def upt_rec byte_def le)
qed

text \<open>
  C40: a report of buttons becomes one event for every button that has changed, the lowest first, with its new state, in
  successive reads. But the report also sets the flag of the first axis: one read later, its old position is
  reported as a motion that has not happened, and it is not flushed.
\<close>

theorem hid_button_report:
  assumes "0 \<le> d_fd dev" "last_buttons b = curr_buttons b" "to_flush b = 0" "hid_in b (d_fd dev) = [Hid_report bs]"
    "4 \<le> length bs" "byte (bs ! 0) = 3"
    "w = word_of_int (int (byte (bs ! 1)) + 256 * int (byte (bs ! 2)) + 65536 * int (byte (bs ! 3)))" "w \<noteq> curr_buttons b"
  shows "let (evs, b', d') = hid_inputs (length (changed (curr_buttons b) w) + 2) dev inp (b, d) in
    evs = map (button_input w) (changed (curr_buttons b) w) @ [\<lparr>inp_type = INP_MOTION, inp_idx = 0, inp_val = curr_pos b ! 0\<rparr>] \<and>
    last_buttons b' = w \<and> curr_buttons b' = w \<and> d' = d"
proof -
  let ?iev = "\<lambda>i. if i < length bs then int (byte (bs ! i)) else hid_junk b i"
  define b1 where "b1 = b\<lparr>hid_in := (hid_in b)(d_fd dev := []), to_flush := 1, curr_buttons := w\<rparr>"
  have bs: "bs \<noteq> []" "0 < length bs" "1 < length bs" "2 < length bs" "3 < length bs" using assms(5) by auto
  have l: "last_buttons b1 \<noteq> curr_buttons b1" using assms(2,8) by (simp add: b1_def)
  have sw: "hid_switch (length bs) ?iev inp (b\<lparr>hid_in := (hid_in b)(d_fd dev := [])\<rparr>) =
      (let (inp, l) = button_event inp (last_buttons b1) (curr_buttons b1) in (0, inp, b1\<lparr>last_buttons := l\<rparr>))"
    using bs assms(2,6,8) by (simp add: hid_switch_def b1_def assms(7) Let_def cong: if_cong)
  have z: "ffs 0 = 0" by (rule ffs_axes [OF axes_zero])
  have "axis_event_of inp b = (- 1, inp, b)" using assms(3) by (simp add: axis_event_of_def axis_event_def z)
  then have "read_hid dev inp (b, d) = read_hid dev inp (b1, d)"
    using assms(1,2,4) bs(1) l sw by (simp add: read_hid_def split_beta Let_def cong: if_cong)
  then have h: "hid_inputs (length (changed (curr_buttons b) w) + 2) dev inp (b, d) =
      hid_inputs (length (changed (curr_buttons b) w) + 2) dev inp (b1, d)" by simp
  have c: "changed (last_buttons b1) (curr_buttons b1) = changed (curr_buttons b) w" using assms(2) by (simp add: b1_def)
  have ne: "changed (curr_buttons b) w \<noteq> []" using assms(8) by (auto simp: changed_Nil)
  obtain i' where d: "hid_inputs (length (changed (curr_buttons b) w) + 2) dev inp (b1, d) =
      (let (evs, s) = hid_inputs 2 dev i' (b1\<lparr>last_buttons := curr_buttons b1\<rparr>, d) in
       (map (button_input (curr_buttons b1)) (changed (curr_buttons b) w) @ evs, s))"
    using drain_buttons [OF assms(1) c ne] by blast
  let ?b = "b1\<lparr>last_buttons := curr_buttons b1\<rparr>"
  have "axes 1 = [0]" by code_simp
  then have ax: "axes (to_flush ?b) = [0]" by (simp add: b1_def)
  have lb: "last_buttons ?b = curr_buttons ?b" by simp
  obtain i2 b2 where d2: "hid_inputs (length [0 :: nat] + 1) dev i' (?b, d) =
      (let (evs, s) = hid_inputs 1 dev i2 (b2, d) in (axis_inputs (curr_pos ?b) [0] i' @ evs, s))"
    "b2 = ?b\<lparr>to_flush := to_flush b2\<rparr>" "axes (to_flush b2) = []"
    using drain_axes [OF assms(1) lb ax, of 1 i' d] by blast
  have b2: "last_buttons b2 = curr_buttons b2" "hid_in b2 (d_fd dev) = []" "curr_buttons b2 = w"
    by (subst d2(2), simp add: b1_def)+
  note idle = idle_read [OF assms(1) b2(1) d2(3) b2(2)]
  have "hid_inputs 2 dev i' (?b, d) = ([\<lparr>inp_type = INP_MOTION, inp_idx = 0, inp_val = curr_pos b ! 0\<rparr>], b2, d)"
    using d2(1) unfolding idle by (simp add: axis_input_def b1_def numeral_2_eq_2)
  with b2(1,3) show ?thesis unfolding h d by (simp add: b1_def)
qed

theorem hid_button_report_witness:
  "fst (hid_inputs 4 ((new_device 0 1)\<lparr>d_fd := 5\<rparr>) (button 0 True) (uhid [3, 2, 128, 0], start_state)) =
     [\<lparr>inp_type = INP_BUTTON, inp_idx = 1, inp_val = 1\<rparr>, \<lparr>inp_type = INP_BUTTON, inp_idx = 15, inp_val = 1\<rparr>,
      \<lparr>inp_type = INP_MOTION, inp_idx = 0, inp_val = 9\<rparr>]"
proof -
  let ?dev = "(new_device 0 1)\<lparr>d_fd := 5\<rparr>"
  have c: "changed 0 32770 = [1, 15]" by code_simp
  have v: "button_input 32770 (Suc 0) = \<lparr>inp_type = INP_BUTTON, inp_idx = 1, inp_val = 1\<rparr>"
    "button_input 32770 15 = \<lparr>inp_type = INP_BUTTON, inp_idx = 15, inp_val = 1\<rparr>" by code_simp+
  have "let (evs, b', d') = hid_inputs (length (changed (curr_buttons (uhid [3, 2, 128, 0])) 32770) + 2) ?dev (button 0 True)
        (uhid [3, 2, 128, 0], start_state) in
    evs = map (button_input 32770) (changed (curr_buttons (uhid [3, 2, 128, 0])) 32770) @
      [\<lparr>inp_type = INP_MOTION, inp_idx = 0, inp_val = curr_pos (uhid [3, 2, 128, 0]) ! 0\<rparr>] \<and>
    last_buttons b' = 32770 \<and> curr_buttons b' = 32770 \<and> d' = start_state"
    by (rule hid_button_report [where bs = "map char_of [3, 2, 128, 0 :: nat]"]) (simp_all add: uhid_def byte_def)
  moreover have "curr_buttons (uhid [3, 2, 128, 0]) = 0" "curr_pos (uhid [3, 2, 128, 0]) ! 0 = 9" by (simp_all add: uhid_def)
  ultimately show ?thesis by (simp add: c v split_beta numeral_2_eq_2 [symmetric] del: hid_inputs.simps)
qed

end
