(* ===== verification/BsdXdetect.thy ===== *)
theory BsdXdetect
  imports XProto
begin

text \<open>
  Waiting for the X server in a FreeBSD build (src/xdetect_freebsd.c), and connecting to it in that build.
\<close>

section \<open>State\<close>

text \<open>
  The variables, and the results of the calls in their order: of \<open>kqueue\<close>, of opening the directory of the X sockets and
  its parent, whether an event can be registered; they fail when the list is empty. \<open>kev_in\<close> are the
  events of a queue, each the descriptor it is about.
\<close>

record kq =
  kq_fd :: int
  fd_x11 :: int
  fd_tmp :: int
  kq_open :: "int list"
  x11_open :: "int list"
  tmp_open :: "int list"
  kev_add :: "bool list"
  kev_in :: "int \<Rightarrow> int list"

definition next_result :: "'a \<Rightarrow> 'a list \<Rightarrow> 'a \<times> 'a list" where
  "next_result fail rs = (case rs of [] \<Rightarrow> (fail, []) | r # rs \<Rightarrow> (r, rs))"

definition kqueue :: "kq \<Rightarrow> int \<times> kq" where
  "kqueue k = (let (r, rs) = next_result (- 1) (kq_open k) in (r, k\<lparr>kq_open := rs\<rparr>))"

definition open_x11_dir :: "kq \<Rightarrow> int \<times> kq" where
  "open_x11_dir k = (let (r, rs) = next_result (- 1) (x11_open k) in (r, k\<lparr>x11_open := rs\<rparr>))"

definition open_tmp :: "kq \<Rightarrow> int \<times> kq" where
  "open_tmp k = (let (r, rs) = next_result (- 1) (tmp_open k) in (r, k\<lparr>tmp_open := rs\<rparr>))"

definition kevent_add :: "kq \<Rightarrow> bool \<times> kq" where
  "kevent_add k = (let (r, rs) = next_result False (kev_add k) in (r, k\<lparr>kev_add := rs\<rparr>))"

section \<open>Starting and stopping\<close>

definition close_valid :: "int \<Rightarrow> daemon \<Rightarrow> daemon" where
  "close_valid fd d = (if fd \<noteq> - 1 then emit (Close fd) d else d)"

definition start_err :: "kq \<Rightarrow> daemon \<Rightarrow> int \<times> kq \<times> daemon" where
  \<comment> \<open>the label \<open>err\<close>: the descriptors keep their values\<close>
  "start_err k d = (- 1, k\<lparr>kq_fd := - 1\<rparr>, close_valid (kq_fd k) (close_valid (fd_tmp k) (close_valid (fd_x11 k) d)))"

definition kq_start :: "kq \<Rightarrow> daemon \<Rightarrow> int \<times> kq \<times> daemon" where
  \<comment> \<open>\<open>xdet_start\<close> of this build\<close>
  "kq_start k d =
     (let (r, k) = kqueue k; k = k\<lparr>kq_fd := r\<rparr> in
      if r = - 1 then (- 1, k, d)
      else
        let (r, k) = open_x11_dir k; k = k\<lparr>fd_x11 := r\<rparr>;
            k = (if r = - 1 then let (r, k) = open_tmp k in k\<lparr>fd_tmp := r\<rparr> else k) in
        if fd_x11 k = - 1 \<and> fd_tmp k = - 1 then start_err k d
        else
          let (ok, k) = kevent_add k in
          if \<not> ok then start_err k d else (kq_fd k, k, d))"

definition kq_stop :: "kq \<Rightarrow> daemon \<Rightarrow> kq \<times> daemon" where
  \<comment> \<open>\<open>xdet_stop\<close>\<close>
  "kq_stop k d =
     (if kq_fd k \<noteq> - 1 then
        (k\<lparr>kq_fd := - 1, fd_x11 := - 1, fd_tmp := - 1\<rparr>, emit (Close (kq_fd k)) (close_valid (fd_tmp k) (close_valid (fd_x11 k) d)))
      else (k, d))"

definition kq_init_x11 :: "kq \<Rightarrow> daemon \<Rightarrow> int \<times> kq \<times> daemon" where
  \<comment> \<open>\<open>init_x11\<close>, which calls these\<close>
  "kq_init_x11 k d =
     (if dpy d \<noteq> None then (0, k, d)
      else
        let d = (if display_env d = None then d\<lparr>display_env := Some '':0.0''\<rparr> else d);
            (r, d) = x_open_display d in
        case r of
          None \<Rightarrow> let (_, k, d) = kq_start k d in (- 1, k, d)
        | Some (p, fd) \<Rightarrow>
            let d = d\<lparr>dpy := Some p, x_fd := fd\<rparr>;
                d = emit XCreateWindow d;
                d = fold (\<lambda>root. emit (XSetCommand root)) (e_roots (envt d)) d;
                d = kbemu_set_display (Some p) d;
                (k, d) = kq_stop k d in
            (0, k, d))"

section \<open>Events\<close>

primrec kq_try :: "nat \<Rightarrow> kq \<Rightarrow> daemon \<Rightarrow> int \<times> kq \<times> daemon" where
  \<comment> \<open>so many tries, a second apart; \<open>fd_x11\<close> may be -1 when it is closed\<close>
  "kq_try 0 k d = (- 1, k, d)"
| "kq_try (Suc n) k d =
     (let (r, k, d) = kq_init_x11 k d in
      if r \<noteq> - 1 then (0, k\<lparr>fd_x11 := - 1\<rparr>, emit (Close (fd_x11 k)) d) else kq_try n k d)"

definition kq_events :: "int list \<Rightarrow> kq \<Rightarrow> daemon \<Rightarrow> int \<times> kq \<times> daemon" where
  \<comment> \<open>\<open>handle_xdet_events\<close>; a failed \<open>assert\<close> is a fault\<close>
  "kq_events rset k d =
     (if kq_fd k = - 1 \<or> kq_fd k \<notin> set rset then (- 1, k, d)
      else case kev_in k (kq_fd k) of
        [] \<Rightarrow> (- 1, k, d)
      | ident # rest \<Rightarrow>
          let k = k\<lparr>kev_in := (kev_in k)(kq_fd k := rest)\<rparr> in
          if ident = fd_tmp k then
            let d = (if fd_x11 k \<noteq> - 1 then d\<lparr>fault := True\<rparr> else d);
                (r, k) = open_x11_dir k; k = k\<lparr>fd_x11 := r\<rparr> in
            if r = - 1 then (- 1, k, d)
            else
              let (ok, k) = kevent_add k in
              if \<not> ok then (- 1, k\<lparr>fd_x11 := - 1\<rparr>, emit (Close (fd_x11 k)) d)
              else (- 1, k\<lparr>fd_tmp := - 1\<rparr>, emit (Close (fd_tmp k)) d)
          else if ident = fd_x11 k then kq_try 30 k d
          else (- 1, k, d))"

section \<open>Properties\<close>

lemma start_ok:
  assumes "kq_open k = q # qs" "x11_open k = x # xs" "kev_add k = True # es" "q \<noteq> - 1" "x \<noteq> - 1"
  shows "kq_start k d = (q, k\<lparr>kq_fd := q, fd_x11 := x, kq_open := qs, x11_open := xs, kev_add := es\<rparr>, d)"
  using assms by (simp add: kq_start_def kqueue_def open_x11_dir_def kevent_add_def next_result_def)

lemma try_without_server:
  assumes "dpy d = None" "x_open d = []" "length qs = length xs" "- 1 \<notin> set qs \<union> set xs"
    "kq_open k = qs" "x11_open k = xs" "kev_add k = replicate (length qs) True" "qs \<noteq> []"
  shows "\<exists>d'. kq_try (length qs) k d =
      (- 1, k\<lparr>kq_fd := List.last qs, fd_x11 := List.last xs, kq_open := [], x11_open := [], kev_add := []\<rparr>, d') \<and> out d' = out d"
  using assms
proof (induction qs arbitrary: xs k d)
  case (Cons q qs)
  obtain x xs' where xs: "xs = x # xs'" using Cons.prems(3) by (cases xs) auto
  let ?d = "if display_env d = None then d\<lparr>display_env := Some '':0.0''\<rparr> else d"
  let ?k = "k\<lparr>kq_fd := q, fd_x11 := x, kq_open := qs, x11_open := xs', kev_add := replicate (length qs) True\<rparr>"
  have "kq_start k ?d = (q, ?k, ?d)" using Cons.prems by (intro start_ok) (auto simp: xs)
  moreover have "x_open_display ?d = (None, ?d)" using Cons.prems(2) by (simp add: x_open_display_def)
  ultimately have i: "kq_init_x11 k d = (- 1, ?k, ?d)" using Cons.prems(1) by (simp add: kq_init_x11_def Let_def)
  show ?case
  proof (cases "qs = []")
    case True
    then have "xs' = []" using Cons.prems(3) by (simp add: xs)
    with True i show ?thesis by (simp add: xs)
  next
    case False
    then have "xs' \<noteq> []" using Cons.prems(3) by (auto simp: xs)
    have "\<exists>d'. kq_try (length qs) ?k ?d = (- 1, ?k\<lparr>kq_fd := List.last qs, fd_x11 := List.last xs', kq_open := [], x11_open := [],
        kev_add := []\<rparr>, d') \<and> out d' = out ?d"
      using Cons.prems False by (intro Cons.IH) (auto simp: xs)
    then show ?thesis using False \<open>xs' \<noteq> []\<close> i by (auto simp: xs)
  qed
qed simp

text \<open>
  Waiting in vain leaks descriptors. When a file has appeared in the directory of the X sockets but no connection
  can be made, each of the thirty tries opens another queue and opens the directory again, and none of them, nor the first
  ones, is closed: only the last ones are remembered.
\<close>

theorem bsd_tries_leak:
  assumes "dpy d = None" "x_open d = []" "kq_fd k \<in> set rset" "kq_fd k \<noteq> - 1" "kev_in k (kq_fd k) = [fd_x11 k]" "fd_tmp k \<noteq> fd_x11 k"
    "length (kq_open k) = 30" "length (x11_open k) = 30" "- 1 \<notin> set (kq_open k) \<union> set (x11_open k)" "kev_add k = replicate 30 True"
  shows "let (r, k', d') = kq_events rset k d in
    r = - 1 \<and> out d' = out d \<and> kq_fd k' = List.last (kq_open k) \<and> fd_x11 k' = List.last (x11_open k) \<and> kq_open k' = []"
proof -
  let ?k = "k\<lparr>kev_in := (kev_in k)(kq_fd k := [])\<rparr>"
  have "kq_open k \<noteq> []" using assms(7) by auto
  then obtain d' where "kq_try (length (kq_open k)) ?k d =
      (- 1, ?k\<lparr>kq_fd := List.last (kq_open k), fd_x11 := List.last (x11_open k), kq_open := [], x11_open := [], kev_add := []\<rparr>, d')"
    "out d' = out d"
    using try_without_server [of d "kq_open k" "x11_open k" ?k] assms by auto
  then show ?thesis using assms by (simp add: kq_events_def)
qed

theorem bsd_tries_leak_witness:
  "let k = \<lparr>kq_fd = 7, fd_x11 = 8, fd_tmp = - 1, kq_open = [100..129], x11_open = [200..229], tmp_open = [],
       kev_add = replicate 30 True, kev_in = (\<lambda>_. [8])\<rparr>;
     (r, k', d') = kq_events [7] k start_state in kq_fd k' = 129 \<and> out d' = []"
proof -
  let ?k = "\<lparr>kq_fd = 7, fd_x11 = 8, fd_tmp = - 1, kq_open = [100..129], x11_open = [200..229], tmp_open = [],
       kev_add = replicate 30 True, kev_in = (\<lambda>_. [8])\<rparr>"
  have l: "List.last [100..129 :: int] = 129" by code_simp
  have "let (r, k', d') = kq_events [7] ?k start_state in
    r = - 1 \<and> out d' = out start_state \<and> kq_fd k' = List.last (kq_open ?k) \<and> fd_x11 k' = List.last (x11_open ?k) \<and> kq_open k' = []"
    by (rule bsd_tries_leak) simp_all
  then show ?thesis by (simp add: split_beta Let_def l)
qed

end
