(* ===== verification/Spec2Isabelle.thy ===== *)
theory Spec2Isabelle
  imports Prelude Float32 CLib Config CfgFile StrProto Device Serial Daemon Dispatch Kbemu Events
    SerialOpen Evdev Devices DeviceFrame Requests XProto UnixProto Hotplug InputLoop MainLoop Startup
    Reports BsdDevices BsdXdetect
begin

text \<open>
  The spacenavd daemon. It reads input devices with six degrees of freedom (on serial lines and USB), turns what they
  report into motion and button events, scales and maps these as its configuration says, and sends them to its
  clients: over a UNIX socket, and as messages through the X server (the protocol of the Magellan driver).
  Clients change the configuration with requests over the socket.

  One state. All variables of the program that its files share are the record \<open>daemon\<close> (Daemon); it also holds
  what the outside will answer (the input of sockets, devices, pipes and the X server, the results of system calls,
  which allocations succeed, the clock) and, in \<open>out\<close>, what the program has done outside, in order. A C function is a
  function on this state; one that C calls through a pointer is selected by a constructor. A pointer is a natural
  number that is never used again once it has been freed; a use after that, an access outside an array, or a null
  pointer sets \<open>fault\<close>. An \<open>int\<close> is an integer kept in the range of 32 bits with \<open>int32\<close>, an unsigned item
  of a packet a word of 32 bits, a \<open>float\<close> the word of its bits.

  The parts, with the theory that models each, in the order in which they build on each other:

  Prelude, Float32, CLib: conversions, strings, the two interfaces that several parts share (an operation that keeps an
  invariant, a table that is searched from its front), single precision arithmetic, and the functions of
  the C library that read and print numbers.

  Config, CfgFile (src/cfgfile.c): \<open>struct cfg\<close> with its invariant \<open>cfg_wf\<close>, reading the file line by line with a branch
  for each option, and writing it so that foreign lines stay. \<open>read_cfg_safe\<close>: whatever the file holds, the
  configuration is well formed, and when the program leaves its arrays.

  StrProto (src/proto.c): strings in several packets; what is sent is received, and the receiver stays in its buffer.

  Device, Serial, SerialOpen (src/dev_serial.c, src/dev.c): the bytes of a line become packets, packets become events in
  a ring buffer of 64 entries, a bounded queue in the locale \<open>bounded_queue\<close>; detection of the kind of device.

  Evdev (src/dev_usb_linux.c) and BsdDevices (src/dev_usb_freebsd.c): the USB drivers of the two systems.

  Daemon, Dispatch, Kbemu, Events (src/client.c, src/event.c, src/kbemu*.c, src/keymap.c, and the senders of
  src/proto_unix.c and src/proto_x11.c): the list of clients, which client gets which event and in which form, keys, and
  the processing of input with its pending motion, dead zones, mappings, actions and buttons that are held.
  The loop that dispatches an event uses the iterator over the clients, with fuel for as many rounds as there are clients;
  \<open>dispatch_event_eq\<close> shows that this is enough. The same holds of the loops over the clients in XProto.

  Devices, DeviceFrame (src/dev.c, \<open>cfg_changed\<close> of src/spnavd.c): the list of devices with \<open>devices_wf\<close>, and what its
  operations leave alone (\<open>host\<close>).

  Requests, UnixProto (src/proto_unix.c): one definition for each request, and the loop over the sockets, which may start
  again while it runs. It is defined without a bound and shown to end (\<open>socket_handling_ends\<close>): each round uses up input.

  XProto (src/proto_x11.c, src/xdetect_linux.c) and BsdXdetect (src/xdetect_freebsd.c): the connection to the X server, its
  clients, and the wait for a server that has not started yet.

  Hotplug (src/hotplug_linux.c): refines the state machine \<open>hotplug_trans\<close>.

  InputLoop, MainLoop, Startup (src/spnavd.c): reading devices until they have nothing left; the main loop as the step
  relation \<open>main_step\<close>, in which input arrives and signals are handled while the program waits; what comes before it.
  \<open>loop_inv\<close> joins the invariants of all parts. Each handler keeps it, so it holds in every state that can be reached, and
  every round ends (\<open>after_select_ends\<close>), although the loops inside have no bound in the program.

  Reports: a report of a USB device from the kernel's events to the packets of the clients, through Evdev, InputLoop, Events
  and Dispatch (\<open>usb_report_reaches_clients\<close>).

  How the parts meet: \<open>steady\<close>, \<open>host\<close>, \<open>outside\<close>, \<open>unheard\<close> and \<open>unplugged\<close> blank what an operation of one part may change,
  so that an equation between blanked states says that it changes nothing else; the invariant of a part then
  carries over the operations of the others. Properties named as errors state what the program does where
  that is not what it is meant to do.

  Bounds: a descriptor set has room for 1024 (\<open>prepare_wait\<close>), the path of a socket for 108 characters, 64 buttons and 6 axes
  are mapped, the input buffer of a serial device has 256 bytes; they are those of the program.

  Not modelled: what is logged or printed and where the standard descriptors go (src/logger.c, \<open>redir_log\<close>); the effect of the
  process being copied (\<open>fork\<close> only yields a number); locks on the configuration file; the variable XAUTHORITY and
  \<open>drop_xinput\<close>, which only concern the X library; reports of X errors outside \<open>handle_xevents\<close>, and signals that arrive
  while an event is handled (both run handlers at arbitrary points of the program); the stubs for other systems
  (src/dev_usb_darwin.c, src/dummy_usb.c, src/hotplug_freebsd.c, src/hotplug_darwin.c, src/spnavd_win32.c).
\<close>

section \<open>The whole program\<close>

lemma main_starts_loop:
  assumes "main cfgdir args m d0 = Runs d m'" "booted d0"
  shows "\<exists>d1. booted d1 \<and> d = main_init d1"
proof -
  obtain p f where "d = main_init (d0\<lparr>pidfile := p, cff := f\<rparr>)"
    using assms(1) by (auto simp: main_def split_beta Let_def split: parsed.splits option.splits if_splits)
  moreover have "booted (d0\<lparr>pidfile := p, cff := f\<rparr>)" using assms(2) by (simp add: booted_def tables_wf_def env_ok_def)
  ultimately show ?thesis by blast
qed

text \<open>
  C1: the program keeps its state well formed from its arguments on. If it is started with whatever arguments and
  configuration file and reaches its main loop, then in every state of the loop (whatever devices, clients, messages, X events and
  signals have come in between, in whatever order) the lists of clients and devices, the configuration, the tables of
  events and the clients' own data are well formed, windows are listed once and only while there is a connection to
  the X server, and the rest of a round always ends.
\<close>

theorem program_invariant:
  assumes "booted d0" "main cfgdir args m d0 = Runs d1 m1" "main_step\<^sup>*\<^sup>* (Top, d1) (p, d)" "p \<noteq> Exited"
  shows "clients_wf d \<and> devices_wf d \<and> cfg_wf (cfg d) \<and> tables_wf d \<and> list_all client_ok (client_list d) \<and>
    distinct (x_windows d) \<and> (dpy d = None \<longrightarrow> x_windows d = []) \<and> hotplug_ok d \<and> after_select ready inp d \<noteq> None"
proof -
  obtain b where "booted b" "d1 = main_init b" using main_starts_loop [OF assms(2,1)] by blast
  then have "loop_inv d" using reachable_inv [of b "(p, d)"] assms(3,4) by simp
  with after_select_ends [of d ready inp] show ?thesis
    by (auto simp: loop_inv_def machine_ok_def requests_inv_def x_inv_def)
qed

theorem program_invariant_witness:
  "\<exists>d m. main ''/etc'' [''-vv'', ''-p'', ''/run/spnavd.pid''] desk boot_state = Runs d m \<and>
     clients_wf (prepare_wait d) \<and> after_select (Some [4]) (button 0 True) (prepare_wait d) \<noteq> None"
proof -
  have p: "parse_args desk [''-vv'', ''-p'', ''/run/spnavd.pid''] (default_options ''/etc'') =
      Go ((default_options ''/etc'')\<lparr>o_verbose := 2, o_pidfile := ''/run/spnavd.pid''\<rparr>)"
    by (simp add: default_options_def)
  have "find_running_daemon ''/run/spnavd.pid'' desk = - 1" by (simp add: find_running_daemon_def desk_def)
  moreover have "daemonize desk = (None, desk\<lparr>m_cwd := ''/''\<rparr>)" by (simp add: daemonize_def desk_def)
  ultimately obtain d m where r: "main ''/etc'' [''-vv'', ''-p'', ''/run/spnavd.pid''] desk boot_state = Runs d m"
    unfolding main_def p by (simp add: default_options_def split_beta Let_def)
  have "main_step\<^sup>*\<^sup>* (Top, d) (Waiting (fst (watch_fds d)) (snd (watch_fds d)), prepare_wait d)"
    using main_step.prepare by blast
  from program_invariant [OF booted_boot_state r this, of "Some [4]" "button 0 True"] r show ?thesis by blast
qed

end
